(* ===== verification/Bidder_Prelude.thy ===== *)
theory Bidder_Prelude
  imports Complex_Main "HOL-Library.Word" "HOL-Library.Multiset" "HOL-Library.AList"
begin

text \<open>
  Shared vocabulary of the development: the machine integers of the Rust code, the result type
  of fallible functions, comparison results (\<open>std::cmp::Ordering\<close>) with the iterator
  adaptors the code uses on them, decimal printing, and generic lemmas on these.

  Unsigned ids and bytes are words (\<open>u8\<close>, \<open>u32\<close>). Counters kept in
  \<open>AtomicU64\<close> are naturals whose increments write the wrap-around out (\<open>u64_add\<close>).
  Signed amounts are integers; where the code does arithmetic on \<open>i64\<close> the wrap-around is
  written out (\<open>i64_wrap\<close>). The widening casts of the code (\<open>i32 as i64\<close>,
  \<open>u32 as i64\<close>) are exact and leave the integer as it is.
\<close>

section \<open>Integers\<close>

type_synonym u8 = "8 word"
type_synonym u32 = "32 word"
type_synonym u64 = nat
type_synonym usize = nat
type_synonym i32 = int
type_synonym i64 = int

text \<open>Equations about wrap-around that every component may use.\<close>

named_theorems wrap_simps

definition u64_max :: u64 where
  "u64_max = 2 ^ 64 - 1"

definition u64_add :: "u64 \<Rightarrow> u64 \<Rightarrow> u64" where
  "u64_add a b = (a + b) mod 2 ^ 64"

definition i64_wrap :: "int \<Rightarrow> i64" where
  "i64_wrap x = (x + 2 ^ 63) mod 2 ^ 64 - 2 ^ 63"

definition in_i64 :: "int \<Rightarrow> bool" where
  "in_i64 x \<longleftrightarrow> - (2 ^ 63) \<le> x \<and> x < 2 ^ 63"

definition in_i32 :: "int \<Rightarrow> bool" where
  "in_i32 x \<longleftrightarrow> - (2 ^ 31) \<le> x \<and> x < 2 ^ 31"

text \<open>Rust's \<open>as u32\<close> on a signed 64-bit value keeps the low 32 bits.\<close>

definition as_u32 :: "i64 \<Rightarrow> u32" where
  "as_u32 x = word_of_int x"

lemma u64_add_small [wrap_simps]: "a + b < 2 ^ 64 \<Longrightarrow> u64_add a b = a + b"
  by (simp add: u64_add_def)

lemma u64_add_less [simp]: "u64_add a b < 2 ^ 64"
  by (simp add: u64_add_def)

lemma i64_wrap_id [wrap_simps]: "in_i64 x \<Longrightarrow> i64_wrap x = x"
  by (simp add: i64_wrap_def in_i64_def)

lemma in_i64_wrap [simp]: "in_i64 (i64_wrap x)"
  by (simp add: i64_wrap_def in_i64_def)

lemma i64_wrap_wrap [simp]: "i64_wrap (i64_wrap x) = i64_wrap x"
  by (simp add: i64_wrap_id)

lemma i64_wrap_add_left [simp]: "i64_wrap (i64_wrap x + y) = i64_wrap (x + y)"
proof -
  have "((x + 2 ^ 63) mod 2 ^ 64 + y) mod 2 ^ 64 = (x + 2 ^ 63 + y) mod (2 ^ 64 :: int)"
    by (rule mod_add_left_eq)
  then show ?thesis by (simp add: i64_wrap_def algebra_simps)
qed

lemma i64_wrap_add_right [simp]: "i64_wrap (y + i64_wrap x) = i64_wrap (y + x)"
  using i64_wrap_add_left [of x y] by (simp add: add.commute)

lemma i64_wrap_diff_left [simp]: "i64_wrap (i64_wrap x - y) = i64_wrap (x - y)"
  using i64_wrap_add_left [of x "- y"] by simp

lemma in_i32_in_i64: "in_i32 x \<Longrightarrow> in_i64 x"
  by (simp add: in_i32_def in_i64_def)

section \<open>Fallible functions\<close>

text \<open>
  \<open>anyhow::Result\<close>: the error is its message, \<open>Inl\<close>; the value is \<open>Inr\<close>.
  \<open>try_bind\<close> is the \<open>?\<close> operator.
\<close>

type_synonym 'a anyhow = "string + 'a"

definition try_bind :: "'a anyhow \<Rightarrow> ('a \<Rightarrow> 'b anyhow) \<Rightarrow> 'b anyhow" where
  "try_bind r f = (case r of Inl e \<Rightarrow> Inl e | Inr a \<Rightarrow> f a)"

lemma try_bind_simps [simp]:
  "try_bind (Inl e) f = Inl e"
  "try_bind (Inr a) f = f a"
  by (simp_all add: try_bind_def)

lemma try_bind_Inr_iff: "try_bind r f = Inr b \<longleftrightarrow> (\<exists>a. r = Inr a \<and> f a = Inr b)"
  by (cases r) auto

section \<open>Comparison results\<close>

datatype ordering = Less | Equal | Greater

definition cmp :: "'a::linorder \<Rightarrow> 'a \<Rightarrow> ordering" where
  "cmp a b = (if a < b then Less else if a = b then Equal else Greater)"

text \<open>\<open>Ordering::then\<close> and \<open>Ordering::then_with\<close>.\<close>

fun ord_then :: "ordering \<Rightarrow> ordering \<Rightarrow> ordering" where
  "ord_then Equal o2 = o2"
| "ord_then o1 o2 = o1"

lemma cmp_iff [simp]:
  "cmp a b = Less \<longleftrightarrow> a < b"
  "cmp a b = Equal \<longleftrightarrow> a = b"
  "cmp a b = Greater \<longleftrightarrow> b < a"
  by (auto simp: cmp_def)

text \<open>
  \<open>Iterator::max_by\<close> folds the comparison from the left and keeps the later element unless
  the earlier one is strictly greater.
\<close>

fun max_by_from :: "('a \<Rightarrow> 'a \<Rightarrow> ordering) \<Rightarrow> 'a \<Rightarrow> 'a list \<Rightarrow> 'a" where
  "max_by_from c x [] = x"
| "max_by_from c x (y # ys) = max_by_from c (if c x y = Greater then x else y) ys"

definition max_by :: "('a \<Rightarrow> 'a \<Rightarrow> ordering) \<Rightarrow> 'a list \<Rightarrow> 'a option" where
  "max_by c xs = (case xs of [] \<Rightarrow> None | x # ys \<Rightarrow> Some (max_by_from c x ys))"

lemma max_by_from_in: "max_by_from c x ys \<in> insert x (set ys)"
  by (induction ys arbitrary: x) (auto split: if_splits)

lemma max_by_in: "max_by c xs = Some w \<Longrightarrow> w \<in> set xs"
  using max_by_from_in by (fastforce simp: max_by_def split: list.splits)

lemma max_by_None_iff [simp]: "max_by c xs = None \<longleftrightarrow> xs = []"
  by (simp add: max_by_def split: list.splits)

text \<open>
  When the comparison agrees with a linear order on keys, the result has the greatest key and
  is the last element that has it.
\<close>

definition last_max :: "('a \<Rightarrow> 'k::linorder) \<Rightarrow> 'a list \<Rightarrow> 'a \<Rightarrow> bool" where
  "last_max k xs w \<longleftrightarrow>
     (\<exists>us vs. xs = us @ w # vs \<and> (\<forall>u \<in> set us. k u \<le> k w) \<and> (\<forall>v \<in> set vs. k v < k w))"

lemma last_max_skip:
  assumes "last_max k (x # ys) w" "k y < k x"
  shows "last_max k (x # y # ys) w"
proof -
  obtain us vs where split: "x # ys = us @ w # vs" and us: "\<forall>u \<in> set us. k u \<le> k w" and vs: "\<forall>v \<in> set vs. k v < k w"
    using assms(1) by (auto simp: last_max_def)
  show ?thesis
  proof (cases us)
    case Nil
    then have "x # y # ys = [] @ w # y # vs" "\<forall>v \<in> set (y # vs). k v < k w" using split vs assms(2) by auto
    then show ?thesis unfolding last_max_def by (metis empty_iff empty_set)
  next
    case (Cons u us')
    then have "x # y # ys = (x # y # us') @ w # vs" "\<forall>u \<in> set (x # y # us'). k u \<le> k w" using split us assms(2) by auto
    then show ?thesis unfolding last_max_def using vs by blast
  qed
qed

lemma last_max_drop:
  assumes "last_max k (y # ys) w" "k x \<le> k y"
  shows "last_max k (x # y # ys) w"
proof -
  obtain us vs where split: "y # ys = us @ w # vs" and us: "\<forall>u \<in> set us. k u \<le> k w" and vs: "\<forall>v \<in> set vs. k v < k w"
    using assms(1) by (auto simp: last_max_def)
  have "k y \<le> k w" using split us by (cases us) auto
  then have "x # y # ys = (x # us) @ w # vs" "\<forall>u \<in> set (x # us). k u \<le> k w" using split us assms(2) by auto
  then show ?thesis unfolding last_max_def using vs by blast
qed

lemma max_by_from_last:
  assumes "\<And>a b. a \<in> insert x (set ys) \<Longrightarrow> b \<in> insert x (set ys) \<Longrightarrow> c a b = cmp (k a) (k b)"
  shows "last_max k (x # ys) (max_by_from c x ys)"
  using assms
proof (induction ys arbitrary: x)
  case (Cons y ys)
  have "last_max k (x # ys) (max_by_from c x ys)" "last_max k (y # ys) (max_by_from c y ys)"
    by (rule Cons.IH, rule Cons.prems; auto)+
  moreover have "c x y = cmp (k x) (k y)" using Cons.prems by simp
  ultimately show ?case by (simp add: last_max_skip last_max_drop not_less)
qed (force simp: last_max_def)

lemma max_by_from_key:
  fixes k :: "'a \<Rightarrow> 'k::linorder"
  assumes "\<And>a b. a \<in> insert x (set ys) \<Longrightarrow> b \<in> insert x (set ys) \<Longrightarrow> c a b = cmp (k a) (k b)"
  shows "\<exists>us vs. x # ys = us @ max_by_from c x ys # vs
    \<and> (\<forall>u \<in> set us. k u \<le> k (max_by_from c x ys))
    \<and> (\<forall>v \<in> set vs. k v < k (max_by_from c x ys))"
  using max_by_from_last [OF assms] by (simp add: last_max_def)

lemma max_by_key:
  fixes k :: "'a \<Rightarrow> 'k::linorder"
  assumes "max_by c xs = Some w"
    and "\<And>a b. a \<in> set xs \<Longrightarrow> b \<in> set xs \<Longrightarrow> c a b = cmp (k a) (k b)"
  shows "\<exists>us vs. xs = us @ w # vs \<and> (\<forall>u \<in> set us. k u \<le> k w) \<and> (\<forall>v \<in> set vs. k v < k w)"
proof (cases xs)
  case Nil
  then show ?thesis using assms(1) by (simp add: max_by_def)
next
  case (Cons x ys)
  then have "w = max_by_from c x ys"
    using assms(1) by (simp add: max_by_def)
  then show ?thesis
    using max_by_from_key [of x ys c k] assms(2) Cons by auto
qed

lemma max_by_ge:
  fixes k :: "'a \<Rightarrow> 'k::linorder"
  assumes "max_by c xs = Some w"
    and "\<And>a b. a \<in> set xs \<Longrightarrow> b \<in> set xs \<Longrightarrow> c a b = cmp (k a) (k b)"
    and "x \<in> set xs"
  shows "k x \<le> k w"
  using max_by_key [OF assms(1,2)] assms(3) by force

section \<open>Decimal and hexadecimal printing\<close>

fun nat_str :: "nat \<Rightarrow> string" where
  "nat_str n = (if n < 10 then [char_of (48 + n)] else nat_str (n div 10) @ [char_of (48 + n mod 10)])"

declare nat_str.simps [simp del]

definition u32_str :: "u32 \<Rightarrow> string" where
  "u32_str w = nat_str (unat w)"

definition int_str :: "int \<Rightarrow> string" where
  "int_str x = (if x < 0 then CHR ''-'' # nat_str (nat (- x)) else nat_str (nat x))"

definition is_digit :: "char \<Rightarrow> bool" where
  "is_digit c \<longleftrightarrow> 48 \<le> (of_char c :: nat) \<and> (of_char c :: nat) \<le> 57"

lemma of_char_digit: "n < 10 \<Longrightarrow> (of_char (char_of (48 + n :: nat)) :: nat) = 48 + n"
  by simp

lemma nat_str_digits: "c \<in> set (nat_str n) \<Longrightarrow> is_digit c"
proof (induction n rule: nat_str.induct)
  case (1 n)
  show ?case
  proof (cases "n < 10")
    case True
    then show ?thesis using 1 by (simp add: nat_str.simps [of n] is_digit_def)
  next
    case False
    have "is_digit (char_of (48 + n mod 10))"
      by (simp add: is_digit_def)
    then show ?thesis using 1 False by (auto simp: nat_str.simps [of n])
  qed
qed

fun str_nat :: "string \<Rightarrow> nat \<Rightarrow> nat" where
  "str_nat [] acc = acc"
| "str_nat (c # cs) acc = str_nat cs (10 * acc + (of_char c - 48))"

lemma str_nat_append: "str_nat (xs @ ys) acc = str_nat ys (str_nat xs acc)"
  by (induction xs arbitrary: acc) auto

lemma str_nat_nat_str: "str_nat (nat_str n) 0 = n"
proof (induction n rule: nat_str.induct)
  case (1 n)
  show ?case
  proof (cases "n < 10")
    case True
    then show ?thesis by (simp add: nat_str.simps [of n])
  next
    case False
    then show ?thesis using 1 by (simp add: nat_str.simps [of n] str_nat_append)
  qed
qed

lemma nat_str_inj [simp]: "nat_str m = nat_str n \<longleftrightarrow> m = n"
  by (metis str_nat_nat_str)

lemma nat_str_nonempty [simp]: "nat_str n \<noteq> []"
  by (simp add: nat_str.simps [of n])

lemma u32_str_inj [simp]: "u32_str a = u32_str b \<longleftrightarrow> a = b"
  by (simp add: u32_str_def word_unat_eq_iff)

text \<open>One hexadecimal digit, lower and upper case, and the two-digit forms of a byte.\<close>

definition hex_lower :: "nat \<Rightarrow> char" where
  "hex_lower n = (if n < 10 then char_of (48 + n) else char_of (87 + n))"

definition hex_upper :: "nat \<Rightarrow> char" where
  "hex_upper n = (if n < 10 then char_of (48 + n) else char_of (55 + n))"

definition byte_hex_lower :: "nat \<Rightarrow> string" where
  "byte_hex_lower b = [hex_lower (b div 16), hex_lower (b mod 16)]"

definition byte_hex_upper :: "nat \<Rightarrow> string" where
  "byte_hex_upper b = [hex_upper (b div 16), hex_upper (b mod 16)]"

section \<open>Splitting at a separator\<close>

text \<open>Two strings joined by a separator that the first does not contain determine their parts.\<close>

lemma join_sep_inj:
  assumes "s \<notin> set xs" and "s \<notin> set xs'" and "xs @ s # ys = xs' @ s # ys'"
  shows "xs = xs' \<and> ys = ys'"
  using assms
proof (induction xs arbitrary: xs')
  case Nil
  then show ?case by (cases xs') auto
next
  case (Cons x xs)
  then show ?case by (cases xs') auto
qed

section \<open>Hash maps\<close>

text \<open>
  A \<open>HashMap\<close> that the code iterates is an association list with distinct keys; the order
  of the list stands for the unspecified iteration order. Maps that are only looked up and
  updated are functions.
\<close>

type_synonym ('k, 'v) hmap = "('k \<times> 'v) list"

definition hm_get :: "('k, 'v) hmap \<Rightarrow> 'k \<Rightarrow> 'v option" where
  "hm_get m k = map_of m k"

definition hm_insert :: "'k \<Rightarrow> 'v \<Rightarrow> ('k, 'v) hmap \<Rightarrow> ('k, 'v) hmap" where
  "hm_insert k v m = AList.update k v m"

definition hm_wf :: "('k, 'v) hmap \<Rightarrow> bool" where
  "hm_wf m \<longleftrightarrow> distinct (map fst m)"

lemma hm_get_Nil [simp]: "hm_get [] k = None"
  by (simp add: hm_get_def)

lemma hm_get_insert [simp]: "hm_get (hm_insert k v m) k' = (if k' = k then Some v else hm_get m k')"
  by (simp add: hm_get_def hm_insert_def update_conv)

lemma hm_wf_Nil [simp]: "hm_wf []"
  by (simp add: hm_wf_def)

lemma hm_wf_insert [simp]: "hm_wf m \<Longrightarrow> hm_wf (hm_insert k v m)"
  by (simp add: hm_wf_def hm_insert_def distinct_update)

lemma hm_get_iff: "hm_wf m \<Longrightarrow> hm_get m k = Some v \<longleftrightarrow> (k, v) \<in> set m"
  by (simp add: hm_wf_def hm_get_def)

text \<open>Inserting a list of rows one after the other.\<close>

definition hm_insert_rows :: "('r \<Rightarrow> 'k) \<Rightarrow> ('r \<Rightarrow> 'v) \<Rightarrow> 'r list \<Rightarrow> ('k, 'v) hmap \<Rightarrow> ('k, 'v) hmap" where
  "hm_insert_rows key val rows m = fold (\<lambda>r. hm_insert (key r) (val r)) rows m"

lemma hm_insert_rows_simps [simp]:
  "hm_insert_rows key val [] m = m"
  "hm_insert_rows key val (r # rows) m = hm_insert_rows key val rows (hm_insert (key r) (val r) m)"
  by (simp_all add: hm_insert_rows_def)

lemma hm_wf_insert_rows [simp]: "hm_wf m \<Longrightarrow> hm_wf (hm_insert_rows key val rows m)"
  by (induction rows arbitrary: m) auto

lemma hm_get_insert_rows_other:
  "k \<notin> key ` set rows \<Longrightarrow> hm_get (hm_insert_rows key val rows m) k = hm_get m k"
  by (induction rows arbitrary: m) auto

lemma hm_get_insert_rows_from:
  "hm_get (hm_insert_rows key val rows m) k = Some v \<Longrightarrow> (\<exists>r \<in> set rows. key r = k \<and> val r = v) \<or> hm_get m k = Some v"
proof (induction rows arbitrary: m)
  case (Cons r rows)
  from Cons.IH [of "hm_insert (key r) (val r) m"] Cons.prems show ?case by (auto split: if_splits)
qed simp

lemma hm_get_insert_rows:
  "distinct (map key rows) \<Longrightarrow>
   hm_get (hm_insert_rows key val rows m) k = Some v \<longleftrightarrow>
     (\<exists>r \<in> set rows. key r = k \<and> val r = v) \<or> (k \<notin> key ` set rows \<and> hm_get m k = Some v)"
proof (induction rows arbitrary: m)
  case (Cons r rows)
  show ?case
  proof (cases "k = key r")
    case True
    then have "k \<notin> key ` set rows" using Cons.prems by auto
    then show ?thesis
      using True hm_get_insert_rows_other [of k key rows val] by (auto simp: image_iff)
  next
    case False
    then show ?thesis using Cons by auto
  qed
qed simp

text \<open>A key is present exactly when a row or the old map has it.\<close>

lemma hm_get_insert_rows_None:
  "hm_get (hm_insert_rows key val rows m) k = None \<longleftrightarrow> k \<notin> key ` set rows \<and> hm_get m k = None"
  by (induction rows arbitrary: m) auto

section \<open>Updating every element of a list with its index\<close>

text \<open>\<open>iter_mut().enumerate()\<close> loops that thread a state through the elements.\<close>

fun mapi_state :: "(nat \<Rightarrow> 'a \<Rightarrow> 's \<Rightarrow> 'b \<times> 's) \<Rightarrow> nat \<Rightarrow> 'a list \<Rightarrow> 's \<Rightarrow> 'b list \<times> 's" where
  "mapi_state f i [] s = ([], s)"
| "mapi_state f i (x # xs) s =
     (let (y, s1) = f i x s; (ys, s2) = mapi_state f (Suc i) xs s1 in (y # ys, s2))"

lemma mapi_state_length [simp]: "length (fst (mapi_state f i xs s)) = length xs"
proof (induction xs arbitrary: i s)
  case (Cons x xs)
  obtain y s1 where f: "f i x s = (y, s1)" by (cases "f i x s")
  obtain ys s2 where rest: "mapi_state f (Suc i) xs s1 = (ys, s2)"
    by (cases "mapi_state f (Suc i) xs s1")
  show ?case using Cons.IH [of "Suc i" s1] f rest by simp
qed simp

text \<open>An element-wise relation between inputs and outputs that ignores the state.\<close>

lemma mapi_state_rel:
  assumes "\<And>i x s. P x (fst (f i x s))"
  shows "list_all2 P xs (fst (mapi_state f i xs s))"
proof (induction xs arbitrary: i s)
  case Nil
  then show ?case by simp
next
  case (Cons x xs)
  obtain y s1 where f: "f i x s = (y, s1)" by (cases "f i x s")
  obtain ys s2 where rest: "mapi_state f (Suc i) xs s1 = (ys, s2)"
    by (cases "mapi_state f (Suc i) xs s1")
  have "P x y" using assms [of x i s] f by simp
  then show ?case using Cons.IH [of "Suc i" s1] f rest by simp
qed

lemma mapi_state_inv:
  assumes "I s" and "\<And>i x s. x \<in> set xs \<Longrightarrow> I s \<Longrightarrow> I (snd (f i x s))"
  shows "I (snd (mapi_state f i xs s))"
  using assms
proof (induction xs arbitrary: i s)
  case Nil
  then show ?case by simp
next
  case (Cons x xs)
  obtain y s1 where f: "f i x s = (y, s1)" by (cases "f i x s")
  obtain ys s2 where rest: "mapi_state f (Suc i) xs s1 = (ys, s2)"
    by (cases "mapi_state f (Suc i) xs s1")
  have "I s1" using Cons.prems f by (metis list.set_intros(1) snd_conv)
  then have "I (snd (mapi_state f (Suc i) xs s1))" using Cons by simp
  then show ?case using f rest by simp
qed

end
