(* ===== verification/Rust_Float.thy ===== *)
theory Rust_Float
  imports Bidder_Prelude "HOL-Library.Product_Lexorder"
begin

text \<open>
  The floating-point numbers of the code. A finite value is a dyadic number
  \<open>Num m e\<close>, meaning \<open>m * 2^e\<close>, kept in lowest terms so that equal values are
  equal terms; the others are the IEEE specials. Every operation rounds the exact result to the
  format, half to even, with gradual underflow and overflow to infinity. \<open>binary32\<close> and
  \<open>binary64\<close> are \<open>f32\<close> and \<open>f64\<close>. Negative zero is not told apart from
  zero: no source line prints a zero or divides by one that may be negative.

  The lemmas show that rounding depends on the exact value only, is monotone, and keeps
  integers that fit the precision; comparisons agree with the order of the rationals. The
  components use these for scores, rates and prices.
\<close>

section \<open>Values and rounding\<close>

datatype flt = NaN | NegInf | Num int int | PosInf

record float_format =
  prec :: nat
  emin :: int
  emax :: int

definition binary32 :: float_format where
  "binary32 = \<lparr>prec = 24, emin = - 126, emax = 127\<rparr>"

definition binary64 :: float_format where
  "binary64 = \<lparr>prec = 53, emin = - 1022, emax = 1023\<rparr>"

text \<open>The dyadic number in lowest terms.\<close>

function mk_num :: "int \<Rightarrow> int \<Rightarrow> flt" where
  "mk_num m e = (if m = 0 then Num 0 0 else if even m then mk_num (m div 2) (e + 1) else Num m e)"
  by pat_completeness auto
termination
  by (relation "measure (\<lambda>(m, e). nat \<bar>m\<bar>)") (auto elim!: evenE)

declare mk_num.simps [simp del]

text \<open>Floor of the binary logarithm.\<close>

function ilog2 :: "int \<Rightarrow> int" where
  "ilog2 n = (if n < 2 then 0 else 1 + ilog2 (n div 2))"
  by pat_completeness auto
termination
  by (relation "measure nat") auto

declare ilog2.simps [simp del]

text \<open>A fraction times a power of two, as a fraction of integers.\<close>

definition scale :: "int \<Rightarrow> int \<Rightarrow> int \<Rightarrow> int \<times> int" where
  "scale n d s = (if 0 \<le> s then (n * 2 ^ nat s, d) else (n, d * 2 ^ nat (- s)))"

text \<open>Integer division rounded half to even.\<close>

definition round_div :: "int \<Rightarrow> int \<Rightarrow> int" where
  "round_div n d = (let f = n div d; r = n mod d in
     if 2 * r < d then f else if d < 2 * r then f + 1 else if even f then f else f + 1)"

text \<open>The binary exponent of \<open>n / d * 2^s\<close> for positive \<open>n\<close> and \<open>d\<close>.\<close>

definition exp_of :: "int \<Rightarrow> int \<Rightarrow> int \<Rightarrow> int" where
  "exp_of n d s = (let k = ilog2 n - ilog2 d; (a, b) = scale n d (- k)
                   in s + (if b \<le> a then k else k - 1))"

text \<open>The exponent of the last mantissa bit of values with exponent \<open>e\<close>.\<close>

definition ulp_exp :: "float_format \<Rightarrow> int \<Rightarrow> int" where
  "ulp_exp F e = max e (emin F) - (int (prec F) - 1)"

definition round_pos :: "float_format \<Rightarrow> int \<Rightarrow> int \<Rightarrow> int \<Rightarrow> int \<times> int" where
  "round_pos F n d s = (let q = ulp_exp F (exp_of n d s); (a, b) = scale n d (s - q)
                        in (round_div a b, q))"

text \<open>The float nearest to \<open>n / d * 2^s\<close>, for \<open>d > 0\<close>.\<close>

definition rnd :: "float_format \<Rightarrow> int \<Rightarrow> int \<Rightarrow> int \<Rightarrow> flt" where
  "rnd F n d s =
     (if n = 0 then Num 0 0
      else (let (m, q) = round_pos F \<bar>n\<bar> d s in
        if emax F < ilog2 m + q then (if 0 < n then PosInf else NegInf)
        else mk_num (sgn n * m) q))"

section \<open>Operations\<close>

definition flt_of_int :: "float_format \<Rightarrow> int \<Rightarrow> flt" where
  "flt_of_int F i = rnd F i 1 0"

text \<open>A decimal literal \<open>n / d\<close>.\<close>

definition flt_lit :: "float_format \<Rightarrow> int \<Rightarrow> int \<Rightarrow> flt" where
  "flt_lit F n d = rnd F n d 0"

text \<open>The sum of two dyadic numbers, as mantissa and exponent.\<close>

definition num_add :: "int \<Rightarrow> int \<Rightarrow> int \<Rightarrow> int \<Rightarrow> int \<times> int" where
  "num_add m1 e1 m2 e2 =
     (let e = min e1 e2 in (m1 * 2 ^ nat (e1 - e) + m2 * 2 ^ nat (e2 - e), e))"

fun flt_add :: "float_format \<Rightarrow> flt \<Rightarrow> flt \<Rightarrow> flt" where
  "flt_add F (Num m1 e1) (Num m2 e2) = (let (m, e) = num_add m1 e1 m2 e2 in rnd F m 1 e)"
| "flt_add F NaN y = NaN"
| "flt_add F x NaN = NaN"
| "flt_add F PosInf NegInf = NaN"
| "flt_add F NegInf PosInf = NaN"
| "flt_add F PosInf y = PosInf"
| "flt_add F NegInf y = NegInf"
| "flt_add F x y = y"

fun flt_sgn :: "flt \<Rightarrow> int" where
  "flt_sgn PosInf = 1"
| "flt_sgn NegInf = - 1"
| "flt_sgn (Num m e) = sgn m"
| "flt_sgn NaN = 0"

text \<open>An infinite result takes the sign of its operands; an indeterminate one is NaN.\<close>

definition flt_inf :: "int \<Rightarrow> flt" where
  "flt_inf s = (if 0 < s then PosInf else if s < 0 then NegInf else NaN)"

fun flt_mul :: "float_format \<Rightarrow> flt \<Rightarrow> flt \<Rightarrow> flt" where
  "flt_mul F (Num m1 e1) (Num m2 e2) = rnd F (m1 * m2) 1 (e1 + e2)"
| "flt_mul F x y = flt_inf (flt_sgn x * flt_sgn y)"

fun flt_div :: "float_format \<Rightarrow> flt \<Rightarrow> flt \<Rightarrow> flt" where
  "flt_div F (Num m1 e1) (Num m2 e2) =
     (if m2 = 0 then flt_inf (sgn m1) else rnd F (sgn m2 * m1) \<bar>m2\<bar> (e1 - e2))"
| "flt_div F NaN y = NaN"
| "flt_div F x NaN = NaN"
| "flt_div F (Num m1 e1) y = Num 0 0"
| "flt_div F x (Num m2 e2) = flt_inf (flt_sgn x * (if m2 = 0 then 1 else sgn m2))"
| "flt_div F x y = NaN"

text \<open>\<open>partial_cmp\<close>, the comparison operators, and \<open>min\<close>, \<open>clamp\<close>.\<close>

fun partial_cmp :: "flt \<Rightarrow> flt \<Rightarrow> ordering option" where
  "partial_cmp NaN y = None"
| "partial_cmp x NaN = None"
| "partial_cmp (Num m1 e1) (Num m2 e2) =
     (let e = min e1 e2 in Some (cmp (m1 * 2 ^ nat (e1 - e)) (m2 * 2 ^ nat (e2 - e))))"
| "partial_cmp NegInf NegInf = Some Equal"
| "partial_cmp NegInf y = Some Less"
| "partial_cmp x NegInf = Some Greater"
| "partial_cmp PosInf PosInf = Some Equal"
| "partial_cmp PosInf y = Some Greater"
| "partial_cmp x PosInf = Some Less"

definition flt_lt :: "flt \<Rightarrow> flt \<Rightarrow> bool" where
  "flt_lt x y \<longleftrightarrow> partial_cmp x y = Some Less"

definition flt_gt :: "flt \<Rightarrow> flt \<Rightarrow> bool" where
  "flt_gt x y \<longleftrightarrow> partial_cmp x y = Some Greater"

definition flt_ge :: "flt \<Rightarrow> flt \<Rightarrow> bool" where
  "flt_ge x y \<longleftrightarrow> partial_cmp x y = Some Greater \<or> partial_cmp x y = Some Equal"

definition flt_le :: "flt \<Rightarrow> flt \<Rightarrow> bool" where
  "flt_le x y \<longleftrightarrow> partial_cmp x y = Some Less \<or> partial_cmp x y = Some Equal"

text \<open>\<open>f32::min\<close> returns the other argument when one is NaN.\<close>

definition flt_min :: "flt \<Rightarrow> flt \<Rightarrow> flt" where
  "flt_min x y = (if x = NaN then y else if y = NaN then x else if flt_lt y x then y else x)"

definition flt_clamp :: "flt \<Rightarrow> flt \<Rightarrow> flt \<Rightarrow> flt" where
  "flt_clamp lo hi x = (if flt_lt x lo then lo else if flt_gt x hi then hi else x)"

text \<open>A cast to \<open>u64\<close> truncates towards zero and saturates; NaN becomes 0.\<close>

definition num_floor :: "int \<Rightarrow> int \<Rightarrow> int" where
  "num_floor m e = (if 0 \<le> e then m * 2 ^ nat e else m div 2 ^ nat (- e))"

fun flt_as_u64 :: "flt \<Rightarrow> u64" where
  "flt_as_u64 (Num m e) = min (nat (num_floor m e)) u64_max"
| "flt_as_u64 PosInf = u64_max"
| "flt_as_u64 x = 0"

text \<open>\<open>ceil\<close> of a value that fits the mantissa is exact.\<close>

fun flt_ceil :: "flt \<Rightarrow> flt" where
  "flt_ceil (Num m e) = mk_num (- num_floor (- m) e) 0"
| "flt_ceil x = x"

section \<open>Powers of two\<close>

abbreviation pow2 :: "int \<Rightarrow> rat" where
  "pow2 e \<equiv> 2 powi e"

lemma pow2_pos [simp]: "0 < pow2 e"
  by simp

lemma pow2_not_nonpos: "\<not> pow2 e \<le> 0"
  by (simp add: not_le)

lemma pow2_add: "pow2 (a + b) = pow2 a * pow2 b"
  by (simp add: power_int_add)

lemma pow2_nat: "0 \<le> e \<Longrightarrow> pow2 e = 2 ^ nat e"
  by (simp add: power_int_def)

lemma pow2_neg: "e \<le> 0 \<Longrightarrow> pow2 e = 1 / 2 ^ nat (- e)"
  by (cases "e = 0") (auto simp: power_int_def power_one_over inverse_eq_divide)

lemma pow2_le_iff [simp]: "pow2 a \<le> pow2 b \<longleftrightarrow> a \<le> b"
proof
  assume "pow2 a \<le> pow2 b"
  then show "a \<le> b"
    using power_int_strict_increasing [of b a "2 :: rat"] by force
next
  assume "a \<le> b"
  then show "pow2 a \<le> pow2 b" by (simp add: power_int_increasing)
qed

lemma pow2_less_iff [simp]: "pow2 a < pow2 b \<longleftrightarrow> a < b"
  by (simp add: not_le [symmetric])

text \<open>A power of two is an integer multiple of every smaller one.\<close>

lemma pow2_multiple: "b \<le> a \<Longrightarrow> pow2 a = of_int (2 ^ nat (a - b)) * pow2 b"
  using pow2_add [of "a - b" b] by (simp add: pow2_nat)

lemma exp_le:
  assumes "pow2 e \<le> r" "r \<le> s" "s < pow2 (e' + 1)"
  shows "e \<le> e'"
proof -
  have "pow2 e < pow2 (e' + 1)" using assms by linarith
  then show ?thesis by (simp only: pow2_less_iff)
qed

lemma ilog2_nonneg [simp]: "0 \<le> ilog2 n"
  by (induction n rule: ilog2.induct) (simp add: ilog2.simps)

lemma ilog2_bounds_int:
  "0 < n \<Longrightarrow> 2 ^ nat (ilog2 n) \<le> n \<and> n < 2 ^ Suc (nat (ilog2 n))"
proof (induction n rule: ilog2.induct)
  case (1 n)
  show ?case
  proof (cases "n < 2")
    case True
    then show ?thesis using 1 by (simp add: ilog2.simps [of n])
  next
    case False
    then have "0 < n div 2" by simp
    then have IH: "2 ^ nat (ilog2 (n div 2)) \<le> n div 2" "n div 2 < 2 ^ Suc (nat (ilog2 (n div 2)))"
      using 1 False by auto
    have "nat (ilog2 n) = Suc (nat (ilog2 (n div 2)))"
      using False by (simp add: ilog2.simps [of n] nat_add_distrib)
    moreover have "2 * x \<le> n \<and> n < 4 * x" if "x \<le> n div 2" "n div 2 < 2 * x" for x :: int
      using that by linarith
    ultimately show ?thesis using IH by simp
  qed
qed

lemma ilog2_bounds:
  assumes "0 < n"
  shows "pow2 (ilog2 n) \<le> of_int n" and "of_int n < pow2 (ilog2 n + 1)"
proof -
  have "(of_int (2 ^ nat (ilog2 n)) :: rat) \<le> of_int n"
    using ilog2_bounds_int [OF assms] by (simp only: of_int_le_iff)
  then show "pow2 (ilog2 n) \<le> of_int n"
    by (simp add: pow2_nat)
  have "(of_int n :: rat) < of_int (2 ^ Suc (nat (ilog2 n)))"
    using ilog2_bounds_int [OF assms] by (simp only: of_int_less_iff)
  also have "\<dots> = pow2 (ilog2 n + 1)"
    by (simp add: pow2_nat nat_add_distrib)
  finally show "of_int n < pow2 (ilog2 n + 1)" .
qed

section \<open>Rounding of rationals\<close>

definition round_ne :: "rat \<Rightarrow> int" where
  "round_ne x = (let f = \<lfloor>x\<rfloor>; d = x - of_int f in
     if d < 1 / 2 then f else if 1 / 2 < d then f + 1 else if even f then f else f + 1)"

lemma round_ne_bounds: "\<lfloor>x\<rfloor> \<le> round_ne x" "round_ne x \<le> \<lfloor>x\<rfloor> + 1"
  by (simp_all add: round_ne_def Let_def)

lemma round_ne_of_int [simp]: "round_ne (of_int k) = k"
  by (simp add: round_ne_def)

lemma round_ne_0 [simp]: "round_ne 0 = 0"
  using round_ne_of_int [of 0] by simp

lemma round_ne_1 [simp]: "round_ne 1 = 1"
  using round_ne_of_int [of 1] by simp

lemma round_ne_mono:
  assumes "x \<le> y"
  shows "round_ne x \<le> round_ne y"
proof (cases "\<lfloor>x\<rfloor> = \<lfloor>y\<rfloor>")
  case True
  then show ?thesis using assms by (auto simp: round_ne_def Let_def)
next
  case False
  then have "\<lfloor>x\<rfloor> + 1 \<le> \<lfloor>y\<rfloor>" using floor_mono [OF assms] by simp
  then show ?thesis using round_ne_bounds [of x] round_ne_bounds [of y] by linarith
qed

lemma round_div_ne:
  assumes "0 < b"
  shows "round_div a b = round_ne (of_int a / of_int b)"
proof -
  have f: "\<lfloor>of_int a / of_int b :: rat\<rfloor> = a div b"
    by (simp add: floor_divide_of_int_eq)
  have "(of_int a :: rat) = of_int (b * (a div b) + a mod b)" by simp
  also have "\<dots> = of_int b * of_int (a div b) + of_int (a mod b)"
    by (simp only: of_int_add of_int_mult)
  finally have r: "of_int a / of_int b - of_int (a div b) = (of_int (a mod b) / of_int b :: rat)"
    using assms by (simp add: field_simps)
  have lt: "(of_int (a mod b) / of_int b :: rat) < 1 / 2 \<longleftrightarrow> 2 * (a mod b) < b"
  proof -
    have "(of_int (a mod b) / of_int b :: rat) < 1 / 2 \<longleftrightarrow> of_int (2 * (a mod b)) < (of_int b :: rat)"
      using assms by (simp add: field_simps)
    then show ?thesis by (simp only: of_int_less_iff)
  qed
  have gt: "1 / 2 < (of_int (a mod b) / of_int b :: rat) \<longleftrightarrow> b < 2 * (a mod b)"
  proof -
    have "1 / 2 < (of_int (a mod b) / of_int b :: rat) \<longleftrightarrow> of_int b < (of_int (2 * (a mod b)) :: rat)"
      using assms by (simp add: field_simps)
    then show ?thesis by (simp only: of_int_less_iff)
  qed
  show ?thesis
    unfolding round_div_def round_ne_def Let_def f r lt gt ..
qed

lemma scale_value:
  assumes "0 < d" "scale n d s = (a, b)"
  shows "0 < b" and "of_int a / of_int b = of_int n / of_int d * pow2 s"
proof -
  show "0 < b" using assms by (auto simp: scale_def split: if_splits)
  show "of_int a / of_int b = of_int n / of_int d * pow2 s"
    using assms by (auto simp: scale_def pow2_nat pow2_neg split: if_splits)
qed

text \<open>The exact value that is rounded.\<close>

definition exact :: "int \<Rightarrow> int \<Rightarrow> int \<Rightarrow> rat" where
  "exact n d s = of_int n / of_int d * pow2 s"

lemma exp_of_bounds:
  assumes "0 < n" "0 < d"
  shows "pow2 (exp_of n d s) \<le> exact n d s" and "exact n d s < pow2 (exp_of n d s + 1)"
proof -
  define k where "k = ilog2 n - ilog2 d"
  obtain a b where ab: "scale n d (- k) = (a, b)" by (cases "scale n d (- k)")
  define v where "v = (of_int n / of_int d :: rat)"
  note sv = scale_value [OF assms(2) ab, folded v_def]
  have "b \<le> a \<longleftrightarrow> 1 \<le> (of_int a / of_int b :: rat)"
    using sv(1) by (simp add: le_divide_eq)
  also have "\<dots> \<longleftrightarrow> pow2 k \<le> v"
    by (simp add: sv(2) power_int_minus field_simps)
  finally have ge: "b \<le> a \<longleftrightarrow> pow2 k \<le> v" .
  have e: "exp_of n d s = s + (if pow2 k \<le> v then k else k - 1)"
    by (simp add: exp_of_def Let_def ab k_def [symmetric] ge)
  have "v < pow2 (ilog2 n + 1) / pow2 (ilog2 d)"
    unfolding v_def using ilog2_bounds [OF assms(1)] ilog2_bounds [OF assms(2)] assms
    by (intro frac_less) auto
  also have "\<dots> = pow2 (k + 1)"
    by (simp add: k_def power_int_diff [symmetric] algebra_simps)
  finally have hi: "v < pow2 (k + 1)" .
  have "pow2 (ilog2 n) / pow2 (ilog2 d + 1) \<le> v"
    unfolding v_def using ilog2_bounds [OF assms(1)] ilog2_bounds [OF assms(2)] assms
    by (intro frac_le) (auto intro: less_imp_le)
  moreover have "pow2 (ilog2 n) / pow2 (ilog2 d + 1) = pow2 (k - 1)"
    by (simp add: k_def power_int_diff [symmetric] algebra_simps)
  ultimately have lo: "pow2 (k - 1) \<le> v" by simp
  define j where "j = (if pow2 k \<le> v then k else k - 1)"
  have "pow2 j \<le> v" "v < pow2 (j + 1)"
    using hi lo by (auto simp: j_def)
  then have "pow2 j * pow2 s \<le> v * pow2 s" "v * pow2 s < pow2 (j + 1) * pow2 s"
    by simp_all
  then show "pow2 (exp_of n d s) \<le> exact n d s" "exact n d s < pow2 (exp_of n d s + 1)"
    by (simp_all add: e j_def [symmetric] exact_def v_def [symmetric] pow2_add [symmetric] algebra_simps)
qed

text \<open>Rounding at exponent \<open>e\<close>.\<close>

definition round_at :: "float_format \<Rightarrow> int \<Rightarrow> rat \<Rightarrow> rat" where
  "round_at F e r = of_int (round_ne (r / pow2 (ulp_exp F e))) * pow2 (ulp_exp F e)"

lemma round_grid_le: "r \<le> of_int k * pow2 q \<Longrightarrow> of_int (round_ne (r / pow2 q)) * pow2 q \<le> of_int k * pow2 q"
  using round_ne_mono [of "r / pow2 q" "of_int k"] by (simp add: field_simps)

lemma round_grid_ge: "of_int k * pow2 q \<le> r \<Longrightarrow> of_int k * pow2 q \<le> of_int (round_ne (r / pow2 q)) * pow2 q"
  using round_ne_mono [of "of_int k" "r / pow2 q"] by (simp add: field_simps)

lemma round_at_mono:
  assumes p: "0 < prec F" and le: "r \<le> s"
    and r: "pow2 e \<le> r" "r < pow2 (e + 1)" and s: "pow2 e' \<le> s" "s < pow2 (e' + 1)"
  shows "round_at F e r \<le> round_at F e' s"
proof (cases "ulp_exp F e = ulp_exp F e'")
  case True
  then show ?thesis
    using round_ne_mono [of "r / pow2 (ulp_exp F e)" "s / pow2 (ulp_exp F e)"] le
    by (simp add: round_at_def divide_right_mono)
next
  case False
  have ee: "e \<le> e'" using exp_le r(1) le s(2) by blast
  define u where "u = ulp_exp F e"
  define u' where "u' = ulp_exp F e'"
  have u: "u < u'" "u' \<le> e'" and e: "e + 1 \<le> e'"
    using False ee p by (auto simp: u_def u'_def ulp_exp_def max_def split: if_splits)
  have "r \<le> pow2 e'" using r(2) e pow2_le_iff [of "e + 1" e'] by linarith
  then have "round_at F e r \<le> pow2 e'"
    using round_grid_le [of r "2 ^ nat (e' - u)" u] pow2_multiple [of u e'] u
    by (simp add: round_at_def u_def)
  also have "pow2 e' \<le> round_at F e' s"
    using round_grid_ge [of "2 ^ nat (e' - u')" u' s] pow2_multiple [of u' e'] u s
    by (simp add: round_at_def u'_def)
  finally show ?thesis .
qed

section \<open>The order of floats\<close>

text \<open>
  The position of a float on the extended line: the infinities are outside, a finite value is
  its rational. NaN has no position.
\<close>

fun fkey :: "flt \<Rightarrow> int \<times> rat" where
  "fkey NegInf = (- 1, 0)"
| "fkey (Num m e) = (0, of_int m * pow2 e)"
| "fkey PosInf = (1, 0)"
| "fkey NaN = (0, 0)"

lemma align_value:
  assumes "e \<le> e1"
  shows "of_int (m1 * 2 ^ nat (e1 - e)) * pow2 e = of_int m1 * pow2 e1"
  using pow2_multiple [OF assms] by simp

lemma partial_cmp_fkey:
  assumes "x \<noteq> NaN" "y \<noteq> NaN"
  shows "partial_cmp x y = Some (cmp (fkey x) (fkey y))"
proof (cases "\<exists>m1 e1 m2 e2. x = Num m1 e1 \<and> y = Num m2 e2")
  case True
  then obtain m1 e1 m2 e2 where xy: "x = Num m1 e1" "y = Num m2 e2" by blast
  define e where "e = min e1 e2"
  define a b where "a = m1 * 2 ^ nat (e1 - e)" and "b = m2 * 2 ^ nat (e2 - e)"
  have "of_int m1 * pow2 e1 = of_int a * pow2 e" "of_int m2 * pow2 e2 = of_int b * pow2 e"
    using align_value [of e e1 m1, symmetric] align_value [of e e2 m2, symmetric]
    unfolding a_def b_def by (simp_all only: e_def min.cobounded1 min.cobounded2)
  then have "cmp (fkey x) (fkey y) = cmp a b"
    by (simp add: xy cmp_def)
  then show ?thesis by (simp add: xy a_def b_def e_def Let_def)
next
  case False
  then show ?thesis using assms by (cases x; cases y) (simp_all add: cmp_def)
qed

lemma partial_cmp_None_iff [simp]: "partial_cmp x y = None \<longleftrightarrow> x = NaN \<or> y = NaN"
  by (cases "x = NaN \<or> y = NaN") (cases x; auto simp: partial_cmp_fkey)+

lemma flt_le_fkey: "x \<noteq> NaN \<Longrightarrow> y \<noteq> NaN \<Longrightarrow> flt_le x y \<longleftrightarrow> fkey x \<le> fkey y"
  by (auto simp: flt_le_def partial_cmp_fkey)

lemma flt_ge_fkey: "x \<noteq> NaN \<Longrightarrow> y \<noteq> NaN \<Longrightarrow> flt_ge x y \<longleftrightarrow> fkey y \<le> fkey x"
  by (auto simp: flt_ge_def partial_cmp_fkey)

lemma flt_lt_fkey: "x \<noteq> NaN \<Longrightarrow> y \<noteq> NaN \<Longrightarrow> flt_lt x y \<longleftrightarrow> fkey x < fkey y"
  by (auto simp: flt_lt_def partial_cmp_fkey)

lemma flt_gt_fkey: "x \<noteq> NaN \<Longrightarrow> y \<noteq> NaN \<Longrightarrow> flt_gt x y \<longleftrightarrow> fkey y < fkey x"
  by (auto simp: flt_gt_def partial_cmp_fkey)

section \<open>Lowest terms\<close>

lemma mk_num_Num: "\<exists>m' e'. mk_num m e = Num m' e'"
  by (induction m e rule: mk_num.induct) (simp add: mk_num.simps)

lemma mk_num_not_NaN [simp]: "mk_num m e \<noteq> NaN"
  using mk_num_Num [of m e] by auto

lemma mk_num_fkey [simp]: "fkey (mk_num m e) = (0, of_int m * pow2 e)"
proof (induction m e rule: mk_num.induct)
  case (1 m e)
  show ?case
  proof (cases "m \<noteq> 0 \<and> even m")
    case True
    then have "of_int m = (2 * of_int (m div 2) :: rat)"
      by (auto elim!: evenE)
    then show ?thesis using 1 True by (simp add: mk_num.simps [of m e] pow2_add)
  next
    case False
    then show ?thesis by (auto simp: mk_num.simps [of m e])
  qed
qed

lemma mk_num_shift: "mk_num (m * 2 ^ k) e = mk_num m (e + int k)"
proof (induction k arbitrary: e)
  case (Suc k)
  show ?case
  proof (cases "m = 0")
    case False
    then have "mk_num (m * 2 ^ Suc k) e = mk_num (m * 2 ^ k) (e + 1)"
      using mk_num.simps [of "m * 2 ^ Suc k" e] by simp
    then show ?thesis by (simp add: Suc algebra_simps)
  qed (simp add: mk_num.simps [of 0])
qed simp

lemma mk_num_eqI:
  assumes "of_int m * pow2 e = of_int m' * pow2 e'"
  shows "mk_num m e = mk_num m' e'"
proof -
  have *: "mk_num m e = mk_num m' e'" if le: "e \<le> e'" and eq: "of_int m * pow2 e = of_int m' * pow2 e'"
    for m e m' e'
  proof -
    have "of_int m * pow2 e = of_int (m' * 2 ^ nat (e' - e)) * pow2 e"
      using align_value [OF le, of m'] eq by (simp only:)
    then have "(of_int m :: rat) = of_int (m' * 2 ^ nat (e' - e))" by simp
    then have "m = m' * 2 ^ nat (e' - e)" by (simp only: of_int_eq_iff)
    then show ?thesis using le by (simp add: mk_num_shift)
  qed
  show ?thesis
    using * [of e e' m m'] * [of e' e m' m] assms by (metis linear)
qed

section \<open>Rounding is monotone\<close>

definition wf_format :: "float_format \<Rightarrow> bool" where
  "wf_format F \<longleftrightarrow> 0 < prec F \<and> emin F \<le> emax F"

lemma wf_binary [simp]: "wf_format binary32" "wf_format binary64"
  by (simp_all add: wf_format_def binary32_def binary64_def)

definition clip :: "float_format \<Rightarrow> rat \<Rightarrow> int \<times> rat" where
  "clip F v = (if pow2 (emax F + 1) \<le> v then (1, 0) else (0, v))"

lemma clip_mono: "v \<le> w \<Longrightarrow> clip F v \<le> clip F w"
  by (simp add: clip_def)

lemma round_pos_at:
  assumes "0 < n" "0 < d" "round_pos F n d s = (m, q)"
  shows "of_int m * pow2 q = round_at F (exp_of n d s) (exact n d s)"
    and "m = round_ne (exact n d s / pow2 q)" and "q = ulp_exp F (exp_of n d s)"
proof -
  show q: "q = ulp_exp F (exp_of n d s)"
    using assms(3) by (auto simp: round_pos_def Let_def split: prod.splits)
  obtain a b where ab: "scale n d (s - q) = (a, b)" by (cases "scale n d (s - q)")
  have "m = round_div a b"
    using assms(3) ab by (auto simp: round_pos_def Let_def q [symmetric] split: prod.splits)
  also have "\<dots> = round_ne (of_int a / of_int b)"
    using round_div_ne scale_value(1) [OF assms(2) ab] by blast
  also have "of_int a / of_int b = exact n d s / pow2 q"
    using scale_value(2) [OF assms(2) ab] by (simp add: exact_def power_int_diff)
  finally show m: "m = round_ne (exact n d s / pow2 q)" .
  then show "of_int m * pow2 q = round_at F (exp_of n d s) (exact n d s)"
    by (simp add: round_at_def q)
qed

lemma exact_pos [simp]: "0 < n \<Longrightarrow> 0 < d \<Longrightarrow> 0 < exact n d s"
  by (simp add: exact_def)

lemma overflow_iff:
  assumes F: "wf_format F" and nd: "0 < n" "0 < d" and mq: "round_pos F n d s = (m, q)"
  shows "0 \<le> m" and "emax F < ilog2 m + q \<longleftrightarrow> pow2 (emax F + 1) \<le> of_int m * pow2 q"
proof -
  note at = round_pos_at [OF nd mq]
  define r where "r = exact n d s"
  have r: "0 < r" "pow2 (exp_of n d s) \<le> r"
    using nd exp_of_bounds by (simp_all add: r_def)
  have "of_int 0 \<le> r / pow2 q" using r by simp
  then show m0: "0 \<le> m" using round_ne_mono [of "of_int 0" "r / pow2 q"] by (simp add: at(2) r_def)
  show "emax F < ilog2 m + q \<longleftrightarrow> pow2 (emax F + 1) \<le> of_int m * pow2 q"
  proof (cases "m = 0")
    case True
    have "round_ne (r / pow2 q) < 1" using True at(2) by (simp add: r_def)
    then have "\<not> of_int 1 \<le> r / pow2 q"
      using round_ne_mono [of "of_int 1" "r / pow2 q"] by auto
    then have "r < pow2 q" by (simp add: field_simps)
    then have "exp_of n d s < q" using r by (metis order_le_less_trans pow2_less_iff)
    then have "q \<le> emin F" using at(3) F by (auto simp: ulp_exp_def wf_format_def max_def split: if_splits)
    then have "q \<le> emax F" using F by (simp add: wf_format_def)
    then show ?thesis using True pow2_pos [of "emax F + 1"] by (simp add: ilog2.simps [of 0] not_le)
  next
    case False
    then have b: "pow2 (ilog2 m + q) \<le> of_int m * pow2 q" "of_int m * pow2 q < pow2 (ilog2 m + q + 1)"
      using ilog2_bounds [of m] m0 pow2_add [of "ilog2 m" q] pow2_add [of "ilog2 m + 1" q]
      by (simp_all add: algebra_simps)
    show ?thesis
    proof
      assume "emax F < ilog2 m + q"
      then have "pow2 (emax F + 1) \<le> pow2 (ilog2 m + q)" by (simp only: pow2_le_iff)
      then show "pow2 (emax F + 1) \<le> of_int m * pow2 q" using b by linarith
    next
      assume "pow2 (emax F + 1) \<le> of_int m * pow2 q"
      then have "pow2 (emax F + 1) < pow2 (ilog2 m + q + 1)" using b by linarith
      then show "emax F < ilog2 m + q" by (simp only: pow2_less_iff)
    qed
  qed
qed

lemma rnd_not_NaN [simp]: "rnd F n d s \<noteq> NaN"
  by (auto simp: rnd_def Let_def split: prod.splits)

lemma rnd_fkey_pos:
  assumes "wf_format F" "0 < n" "0 < d"
  shows "fkey (rnd F n d s) = clip F (round_at F (exp_of n d s) (exact n d s))"
proof -
  obtain m q where mq: "round_pos F n d s = (m, q)" by (cases "round_pos F n d s")
  show ?thesis
    using assms overflow_iff(2) [OF assms mq] round_pos_at(1) [OF assms(2,3) mq]
    by (simp add: rnd_def mq clip_def)
qed

definition neg_key :: "int \<times> rat \<Rightarrow> int \<times> rat" where
  "neg_key k = (- fst k, - snd k)"

lemma neg_key_mono: "neg_key a \<le> neg_key b \<longleftrightarrow> b \<le> a"
  by (cases a; cases b) (auto simp: neg_key_def less_eq_prod_def)

lemma rnd_fkey_neg:
  assumes "wf_format F" "n < 0" "0 < d"
  shows "fkey (rnd F n d s) = neg_key (fkey (rnd F (- n) d s))"
proof -
  obtain m q where mq: "round_pos F (- n) d s = (m, q)" by (cases "round_pos F (- n) d s")
  show ?thesis
    using assms by (simp add: rnd_def mq neg_key_def)
qed

lemma rnd_fkey_pos_ge:
  assumes "wf_format F" "0 < n" "0 < d"
  shows "(0, 0) \<le> fkey (rnd F n d s)"
proof -
  obtain m q where mq: "round_pos F n d s = (m, q)" by (cases "round_pos F n d s")
  show ?thesis
    using assms overflow_iff(1) [OF assms mq] by (simp add: rnd_def mq)
qed

lemma rnd_mono_pos:
  assumes "wf_format F" "0 < n" "0 < d" "0 < n'" "0 < d'" "exact n d s \<le> exact n' d' s'"
  shows "fkey (rnd F n d s) \<le> fkey (rnd F n' d' s')"
  using assms exp_of_bounds [of n d s] exp_of_bounds [of n' d' s']
  by (simp add: rnd_fkey_pos clip_mono round_at_mono wf_format_def)

lemma exact_neg: "exact (- n) d s = - exact n d s"
  by (simp add: exact_def)

lemma exact_sgn: "0 < d \<Longrightarrow> exact n d s \<le> 0 \<longleftrightarrow> n \<le> 0"
  by (simp add: exact_def mult_le_0_iff divide_le_0_iff pow2_not_nonpos)

theorem rnd_mono:
  assumes F: "wf_format F" and d: "0 < d" "0 < d'" and le: "exact n d s \<le> exact n' d' s'"
  shows "fkey (rnd F n d s) \<le> fkey (rnd F n' d' s')"
proof -
  have zero: "fkey (rnd F 0 d0 s0) = (0, 0)" for d0 s0 by (simp add: rnd_def)
  have neg0: "neg_key (0, 0) = (0, 0)" by (simp add: neg_key_def)
  have nonpos: "fkey (rnd F k d0 s0) \<le> (0, 0)" if "k \<le> 0" "0 < d0" for k d0 s0
    using that zero [of d0 s0] rnd_fkey_neg [OF F, of k d0 s0] rnd_fkey_pos_ge [OF F, of "- k" d0 s0]
      neg_key_mono [of "fkey (rnd F (- k) d0 s0)" "(0, 0)"] neg0
    by (cases "k = 0") auto
  have nonneg: "(0, 0) \<le> fkey (rnd F k d0 s0)" if "0 \<le> k" "0 < d0" for k d0 s0
    using that zero [of d0 s0] rnd_fkey_pos_ge [OF F, of k d0 s0] by (cases "k = 0") auto
  consider "0 < n" "0 < n'" | "n \<le> 0" "0 \<le> n'" | "n < 0" "n' < 0" | "0 < n" "n' \<le> 0" | "0 \<le> n" "n' < 0"
    by linarith
  then show ?thesis
  proof cases
    case 1
    then show ?thesis using rnd_mono_pos F d le by blast
  next
    case 2
    then show ?thesis using nonpos nonneg d order_trans by blast
  next
    case 3
    have "exact (- n') d' s' \<le> exact (- n) d s" using le by (simp add: exact_neg)
    then show ?thesis
      using 3 d rnd_mono_pos [OF F, of "- n'" d' "- n" d s' s] rnd_fkey_neg [OF F]
      by (simp add: neg_key_mono)
  next
    case 4
    then show ?thesis using le d exact_sgn [of d n s] exact_sgn [of d' n' s'] by linarith
  next
    case 5
    have "0 < exact (- n') d' s'" using 5 d exact_pos [of "- n'"] by simp
    moreover have "0 \<le> exact n d s" using 5 d by (simp add: exact_def)
    ultimately show ?thesis using le by (simp add: exact_neg)
  qed
qed

section \<open>Exactness and the operations on finite values\<close>

lemma round_at_exact:
  assumes "pow2 e \<le> r" "r < pow2 (e + 1)" "r = of_int m * pow2 k" "0 < m" "m \<le> 2 ^ prec F"
    and k: "emin F - (int (prec F) - 1) \<le> k" and p: "0 < prec F"
  shows "round_at F e r = r"
proof -
  define q where "q = ulp_exp F e"
  have grid: "round_at F e r = r" if "r = of_int j * pow2 q" for j
    using that by (simp add: round_at_def q_def)
  have "(of_int m :: rat) \<le> of_int (2 ^ prec F)" using assms(5) by (simp only: of_int_le_iff)
  then have "of_int m * pow2 k \<le> pow2 (int (prec F)) * pow2 k"
    by (simp add: pow2_nat)
  then have m: "r \<le> pow2 (k + int (prec F))"
    by (simp only: assms(3) pow2_add mult.commute)
  then have ek: "e \<le> k + int (prec F)"
    using assms(1) by (metis order_trans pow2_le_iff)
  show ?thesis
  proof (cases "q \<le> k")
    case True
    then have "r = of_int (m * 2 ^ nat (k - q)) * pow2 q"
      using align_value [OF True, of m] assms(3) by (simp only:)
    then show ?thesis using grid by blast
  next
    case False
    then have "e = k + int (prec F)" "q = k + 1"
      using ek k by (auto simp: q_def ulp_exp_def max_def split: if_splits)
    then have "r = of_int (2 ^ nat (e - q)) * pow2 q"
      using m assms(1) pow2_multiple [of q e] p by simp
    then show ?thesis using grid by blast
  qed
qed

lemma rnd_exact_pos:
  assumes F: "wf_format F" and m: "0 < m" "m \<le> 2 ^ prec F"
    and k: "emin F - (int (prec F) - 1) \<le> k" and hi: "of_int m * pow2 k < pow2 (emax F + 1)"
  shows "rnd F m 1 k = mk_num m k"
proof -
  obtain m' q where mq: "round_pos F m 1 k = (m', q)" by (cases "round_pos F m 1 k")
  have r: "exact m 1 k = of_int m * pow2 k" by (simp add: exact_def)
  note b = exp_of_bounds [OF m(1), of 1 k, unfolded r]
  have "round_at F (exp_of m 1 k) (of_int m * pow2 k) = of_int m * pow2 k"
    using round_at_exact [of _ _ m k F] b m k F by (simp add: wf_format_def)
  then have v: "of_int m' * pow2 q = of_int m * pow2 k"
    using round_pos_at(1) [OF m(1) _ mq] by (simp add: r)
  then have "\<not> emax F < ilog2 m' + q"
    using overflow_iff(2) [OF F m(1) _ mq] hi by simp
  then show ?thesis
    using m mk_num_eqI [OF v] by (simp add: rnd_def mq)
qed

lemma mk_num_minus: "mk_num (- m) e = (case mk_num m e of Num m' e' \<Rightarrow> Num (- m') e' | x \<Rightarrow> x)"
proof (induction m e rule: mk_num.induct)
  case (1 m e)
  show ?case
  proof (cases "m \<noteq> 0 \<and> even m")
    case True
    then have "(- m) div 2 = - (m div 2)" by (auto elim!: evenE)
    then show ?thesis
      using 1 True mk_num.simps [of m e] mk_num.simps [of "- m" e] by simp
  next
    case False
    then show ?thesis using mk_num.simps [of m e] mk_num.simps [of "- m" e] by auto
  qed
qed

theorem rnd_exact:
  assumes F: "wf_format F" and m: "\<bar>m\<bar> \<le> 2 ^ prec F"
    and k: "emin F - (int (prec F) - 1) \<le> k" and hi: "of_int \<bar>m\<bar> * pow2 k < pow2 (emax F + 1)"
  shows "rnd F m 1 k = mk_num m k"
proof -
  consider "m = 0" | "0 < m" | "m < 0" by linarith
  then show ?thesis
  proof cases
    case 1
    then show ?thesis by (simp add: rnd_def mk_num.simps)
  next
    case 2
    then show ?thesis using rnd_exact_pos assms by simp
  next
    case 3
    obtain a q where aq: "round_pos F (- m) 1 k = (a, q)" by (cases "round_pos F (- m) 1 k")
    have "rnd F (- m) 1 k = mk_num (- m) k" using 3 rnd_exact_pos [OF F, of "- m" k] assms by simp
    then have "\<not> emax F < ilog2 a + q \<and> mk_num a q = mk_num (- m) k"
      using 3 mk_num_Num [of "- m" k] by (auto simp: rnd_def aq split: if_splits)
    then have "rnd F m 1 k = mk_num (- a) q" "mk_num a q = mk_num (- m) k"
      using 3 by (simp_all add: rnd_def aq)
    then show ?thesis
      using mk_num_minus [of a q] mk_num_minus [of "- m" k] by (simp split: flt.splits)
  qed
qed

definition is_num :: "flt \<Rightarrow> bool" where
  "is_num x \<longleftrightarrow> (case x of Num m e \<Rightarrow> True | _ \<Rightarrow> False)"

definition fval :: "flt \<Rightarrow> rat" where
  "fval x = snd (fkey x)"

lemma is_num_simps [simp]:
  "is_num (Num m e)" "\<not> is_num NaN" "\<not> is_num PosInf" "\<not> is_num NegInf" "is_num (mk_num m e)"
  using mk_num_Num [of m e] by (auto simp: is_num_def)

lemma fval_simps [simp]: "fval (Num m e) = of_int m * pow2 e" "fval (mk_num m e) = of_int m * pow2 e"
  by (simp_all add: fval_def)

lemma is_numE: "is_num x \<Longrightarrow> (\<And>m e. x = Num m e \<Longrightarrow> P) \<Longrightarrow> P"
  by (cases x) auto

lemma fkey_num: "is_num x \<Longrightarrow> fkey x = (0, fval x)"
  by (cases x) auto

lemma is_num_not_NaN: "is_num x \<Longrightarrow> x \<noteq> NaN"
  by auto

lemma flt_of_int_exact:
  assumes "wf_format F" "\<bar>i\<bar> \<le> 2 ^ prec F" "emin F \<le> 0" "int (prec F) \<le> emax F"
  shows "flt_of_int F i = mk_num i 0"
proof -
  have "(of_int \<bar>i\<bar> :: rat) \<le> of_int (2 ^ prec F)" using assms(2) by (simp only: of_int_le_iff)
  also have "\<dots> = pow2 (int (prec F))" by (simp add: pow2_nat)
  also have "\<dots> < pow2 (emax F + 1)" using assms(4) by (simp only: pow2_less_iff)
  finally have "of_int \<bar>i\<bar> * pow2 0 < pow2 (emax F + 1)" by simp
  then show ?thesis
    using assms unfolding flt_of_int_def by (intro rnd_exact) (simp_all add: wf_format_def)
qed

text \<open>Sum, product and quotient round the exact rational result.\<close>

lemma flt_add_rnd:
  assumes "is_num x" "is_num y"
  shows "\<exists>m e. flt_add F x y = rnd F m 1 e \<and> exact m 1 e = fval x + fval y"
proof -
  obtain m1 e1 m2 e2 where xy: "x = Num m1 e1" "y = Num m2 e2"
    using assms by (blast elim: is_numE)
  define e where "e = min e1 e2"
  define m where "m = m1 * 2 ^ nat (e1 - e) + m2 * 2 ^ nat (e2 - e)"
  have "of_int m * pow2 e = of_int m1 * pow2 e1 + of_int m2 * pow2 e2"
    using align_value [of e e1 m1] align_value [of e e2 m2]
    by (simp only: m_def of_int_add distrib_right e_def min.cobounded1 min.cobounded2)
  then show ?thesis
    by (intro exI [of _ m] exI [of _ e]) (simp add: xy num_add_def exact_def m_def e_def Let_def)
qed

lemma flt_mul_rnd:
  assumes "is_num x" "is_num y"
  shows "\<exists>m e. flt_mul F x y = rnd F m 1 e \<and> exact m 1 e = fval x * fval y"
proof -
  obtain m1 e1 m2 e2 where "x = Num m1 e1" "y = Num m2 e2"
    using assms by (blast elim: is_numE)
  then show ?thesis
    by (intro exI [of _ "m1 * m2"] exI [of _ "e1 + e2"]) (simp add: exact_def pow2_add)
qed

lemma flt_div_rnd:
  assumes "is_num x" "is_num y" "0 < fval y"
  shows "\<exists>n d e. 0 < d \<and> flt_div F x y = rnd F n d e \<and> exact n d e = fval x / fval y"
proof -
  obtain m1 e1 m2 e2 where xy: "x = Num m1 e1" "y = Num m2 e2"
    using assms by (blast elim: is_numE)
  then have "0 < m2"
    using assms(3) pow2_not_nonpos [of e2] less_imp_le [of "pow2 e2" 0]
    by (auto simp: zero_less_mult_iff)
  then show ?thesis
    by (intro exI [of _ m1] exI [of _ m2] exI [of _ "e1 - e2"])
      (simp add: xy exact_def power_int_diff)
qed

lemma flt_add_mono:
  assumes "wf_format F" "is_num x" "is_num y" "is_num x'" "is_num y'" "fval x \<le> fval x'" "fval y \<le> fval y'"
  shows "fkey (flt_add F x y) \<le> fkey (flt_add F x' y')"
proof -
  have "fval x + fval y \<le> fval x' + fval y'" using assms by simp
  then show ?thesis
    using flt_add_rnd [OF assms(2,3), of F] flt_add_rnd [OF assms(4,5), of F] rnd_mono [OF assms(1)]
    by (metis zero_less_one)
qed

lemma flt_mul_mono:
  assumes "wf_format F" "is_num c" "is_num x" "is_num x'" "0 \<le> fval c" "fval x \<le> fval x'"
  shows "fkey (flt_mul F c x) \<le> fkey (flt_mul F c x')"
proof -
  have "fval c * fval x \<le> fval c * fval x'" using assms by (simp add: mult_left_mono)
  then show ?thesis
    using flt_mul_rnd [OF assms(2,3), of F] flt_mul_rnd [OF assms(2,4), of F] rnd_mono [OF assms(1)]
    by (metis zero_less_one)
qed

lemma flt_div_mono:
  assumes "wf_format F" "is_num x" "is_num x'" "is_num c" "0 < fval c" "fval x \<le> fval x'"
  shows "fkey (flt_div F x c) \<le> fkey (flt_div F x' c)"
proof -
  have "fval x / fval c \<le> fval x' / fval c" using assms by (simp add: divide_right_mono)
  then show ?thesis
    using flt_div_rnd [OF assms(2,4,5), of F] flt_div_rnd [OF assms(3,4,5), of F] rnd_mono [OF assms(1)]
    by metis
qed

text \<open>A float between two finite floats is finite.\<close>

lemma is_num_between:
  assumes "x \<noteq> NaN" "(0, a) \<le> fkey x" "fkey x \<le> (0, b)"
  shows "is_num x" and "a \<le> fval x" and "fval x \<le> b"
  using assms by (cases x; simp)+

end
