(* ===== verification/OpenRTB_Model.thy ===== *)
theory OpenRTB_Model
  imports Rust_Float
begin

text \<open>
  The OpenRTB 2.x data model of \<open>model/openrtb.rs\<close>, field by field: every struct is a
  record with the struct's fields (prefixed by the record they belong to), the newtypes around
  integers are one-constructor datatypes, and \<open>ad_format\<close>, \<open>ad_event\<close> are the
  enums. \<open>serde_json::Value\<close>, which the model only carries along, is the datatype
  \<open>json\<close>. At the end are the candidate and winner records of \<open>model/candidate.rs\<close>
  that the pipeline stages pass on.
\<close>

section \<open>Values of open extension fields\<close>

datatype json =
  JNull | JBool bool | JNumber flt | JString string | JArray "json list" | JObject "(string \<times> json) list"

section \<open>Newtypes and their constants\<close>

datatype auction_type = AuctionType u8
datatype device_type = DeviceType u8
datatype no_bid_reason = NoBidReason u32

definition FIRST_PRICE :: auction_type where
  "FIRST_PRICE = AuctionType 1"

definition SECOND_PRICE :: auction_type where
  "SECOND_PRICE = AuctionType 2"

definition FIXED_PRICE :: auction_type where
  "FIXED_PRICE = AuctionType 3"

definition DEVICE_MOBILE :: device_type where
  "DEVICE_MOBILE = DeviceType 1"

definition DEVICE_PC :: device_type where
  "DEVICE_PC = DeviceType 2"

definition DEVICE_TV :: device_type where
  "DEVICE_TV = DeviceType 3"

definition DEVICE_PHONE :: device_type where
  "DEVICE_PHONE = DeviceType 4"

definition DEVICE_TABLET :: device_type where
  "DEVICE_TABLET = DeviceType 5"

definition DEVICE_CONNECTED_DEVICE :: device_type where
  "DEVICE_CONNECTED_DEVICE = DeviceType 6"

definition DEVICE_SET_TOP_BOX :: device_type where
  "DEVICE_SET_TOP_BOX = DeviceType 7"

definition DEVICE_OOH :: device_type where
  "DEVICE_OOH = DeviceType 8"

definition UNKNOWN_ERROR :: no_bid_reason where
  "UNKNOWN_ERROR = NoBidReason 0"

definition TECHNICAL_ERROR :: no_bid_reason where
  "TECHNICAL_ERROR = NoBidReason 1"

definition INVALID_REQUEST :: no_bid_reason where
  "INVALID_REQUEST = NoBidReason 2"

definition KNOWN_WEB_SPIDER :: no_bid_reason where
  "KNOWN_WEB_SPIDER = NoBidReason 3"

definition SUSPECTED_NON_HUMAN :: no_bid_reason where
  "SUSPECTED_NON_HUMAN = NoBidReason 4"

definition CLOUD_DATA_CENTER :: no_bid_reason where
  "CLOUD_DATA_CENTER = NoBidReason 5"

definition UNSUPPORTED_DEVICE :: no_bid_reason where
  "UNSUPPORTED_DEVICE = NoBidReason 6"

definition BLOCKED_PUBLISHER :: no_bid_reason where
  "BLOCKED_PUBLISHER = NoBidReason 7"

definition UNMATCHED_USER :: no_bid_reason where
  "UNMATCHED_USER = NoBidReason 8"

definition DAILY_REACH_LIMIT :: no_bid_reason where
  "DAILY_REACH_LIMIT = NoBidReason 9"

definition BUSINESS_RULES :: no_bid_reason where
  "BUSINESS_RULES = NoBidReason 10"

definition NO_ELIGIBLE_BIDS :: no_bid_reason where
  "NO_ELIGIBLE_BIDS = NoBidReason 11"

definition BELOW_FLOOR :: no_bid_reason where
  "BELOW_FLOOR = NoBidReason 12"

definition REQUEST_BLOCKED_PRIVACY :: no_bid_reason where
  "REQUEST_BLOCKED_PRIVACY = NoBidReason 13"

definition FREQUENCY_CAP :: no_bid_reason where
  "FREQUENCY_CAP = NoBidReason 14"

definition BELOW_BID_FLOOR_PMP :: no_bid_reason where
  "BELOW_BID_FLOOR_PMP = NoBidReason 15"

definition LOST_TO_HIGHER_BID :: no_bid_reason where
  "LOST_TO_HIGHER_BID = NoBidReason 100"

definition LOST_TO_PMP_BID :: no_bid_reason where
  "LOST_TO_PMP_BID = NoBidReason 101"

definition SEAT_BLOCKED :: no_bid_reason where
  "SEAT_BLOCKED = NoBidReason 102"

definition PIPELINE_DEADLINE :: no_bid_reason where
  "PIPELINE_DEADLINE = NoBidReason 103"

section \<open>Impressions\<close>

record format =
  format_w :: "i32 option"
  format_h :: "i32 option"
  format_wratio :: "i32 option"
  format_hratio :: "i32 option"
  format_wmin :: "i32 option"
  format_ext_value :: "json option"

record banner =
  banner_format :: "format list"
  banner_w :: "i32 option"
  banner_h :: "i32 option"
  banner_wmax :: "i32 option"
  banner_hmax :: "i32 option"
  banner_wmin :: "i32 option"
  banner_hmin :: "i32 option"
  banner_btype :: "u32 list"
  banner_battr :: "u32 list"
  banner_pos :: "u32 option"
  banner_mimes :: "string list"
  banner_topframe :: "u8 option"
  banner_expdir :: "u32 list"
  banner_api :: "u32 list"
  banner_id :: "string option"
  banner_vcm :: "u8 option"
  banner_ext_value :: "json option"

record video =
  video_mimes :: "string list"
  video_minduration :: "i32 option"
  video_maxduration :: "i32 option"
  video_protocols :: "u32 list"
  video_w :: "i32 option"
  video_h :: "i32 option"
  video_startdelay :: "i32 option"
  video_placement :: "u32 option"
  video_plcmt :: "u32 option"
  video_linearity :: "u32 option"
  video_skip :: "u8 option"
  video_skipmin :: "i32 option"
  video_skipafter :: "i32 option"
  video_sequence :: "i32 option"
  video_battr :: "u32 list"
  video_maxextended :: "i32 option"
  video_minbitrate :: "i32 option"
  video_maxbitrate :: "i32 option"
  video_boxingallowed :: "u8 option"
  video_playbackmethod :: "u32 list"
  video_playbackend :: "u32 list"
  video_delivery :: "u32 list"
  video_pos :: "u32 option"
  video_companionad :: "banner list"
  video_api :: "u32 list"
  video_companiontype :: "u32 list"
  video_ext_value :: "json option"

record audio =
  audio_mimes :: "string list"
  audio_minduration :: "i32 option"
  audio_maxduration :: "i32 option"
  audio_protocols :: "u32 list"
  audio_startdelay :: "i32 option"
  audio_sequence :: "i32 option"
  audio_battr :: "u32 list"
  audio_maxextended :: "i32 option"
  audio_minbitrate :: "i32 option"
  audio_maxbitrate :: "i32 option"
  audio_delivery :: "u32 list"
  audio_companionad :: "banner list"
  audio_api :: "u32 list"
  audio_companiontype :: "u32 list"
  audio_maxseq :: "i32 option"
  audio_feed :: "u32 option"
  audio_stitched :: "u8 option"
  audio_nvol :: "u32 option"
  audio_ext_value :: "json option"

record native =
  native_request :: string
  native_ver :: "string option"
  native_api :: "u32 list"
  native_battr :: "u32 list"
  native_ext_value :: "json option"

record deal =
  deal_id :: string
  deal_bidfloor :: "flt option"
  deal_bidfloorcur :: "string option"
  deal_at :: "auction_type option"
  deal_wseat :: "string list"
  deal_wadomain :: "string list"
  deal_ext_value :: "json option"

record pmp =
  pmp_private_auction :: u8
  pmp_deals :: "deal list"
  pmp_ext_value :: "json option"

record imp =
  imp_id :: string
  imp_banner :: "banner option"
  imp_video :: "video option"
  imp_audio :: "audio option"
  imp_native :: "native option"
  imp_pmp :: "pmp option"
  imp_displaymanager :: "string option"
  imp_displaymanagerver :: "string option"
  imp_instl :: u8
  imp_tagid :: "string option"
  imp_bidfloor :: "flt option"
  imp_bidfloorcur :: "string option"
  imp_clickbrowser :: u8
  imp_secure :: u8
  imp_iframebuster :: "string list"
  imp_rwdd :: "u8 option"
  imp_ssai :: "u8 option"
  imp_exp :: "u32 option"
  imp_ext_value :: "json option"

section \<open>Inventory\<close>

record publisher =
  pub_id :: "string option"
  pub_name :: "string option"
  pub_cat :: "string list"
  pub_domain :: "string option"
  pub_ext_value :: "json option"

record producer =
  producer_id :: "string option"
  producer_name :: "string option"
  producer_cat :: "string list"
  producer_domain :: "string option"
  producer_ext_value :: "json option"

record segment =
  seg_id :: "string option"
  seg_name :: "string option"
  seg_value :: "string option"
  seg_ext_value :: "json option"

record data =
  data_id :: "string option"
  data_name :: "string option"
  data_segment :: "segment list"
  data_ext_value :: "json option"

record content =
  content_id :: "string option"
  content_episode :: "i32 option"
  content_title :: "string option"
  content_series :: "string option"
  content_season :: "string option"
  content_artist :: "string option"
  content_genre :: "string option"
  content_album :: "string option"
  content_isrc :: "string option"
  content_producer :: "producer option"
  content_url :: "string option"
  content_cat :: "string list"
  content_prodq :: "u32 option"
  content_videoquality :: "u32 option"
  content_context :: "u32 option"
  content_contentrating :: "string option"
  content_userrating :: "string option"
  content_qagmediarating :: "u32 option"
  content_keywords :: "string option"
  content_livestream :: "u8 option"
  content_sourcerelationship :: "u8 option"
  content_len :: "i32 option"
  content_language :: "string option"
  content_embeddable :: "u8 option"
  content_data :: "data list option"
  content_ext_value :: "json option"

record site =
  site_id :: "string option"
  site_name :: "string option"
  site_domain :: "string option"
  site_cat :: "string list"
  site_sectioncat :: "string list"
  site_pagecat :: "string list"
  site_page :: "string option"
  site_ref :: "string option"
  site_search :: "string option"
  site_mobile :: "u8 option"
  site_privacypolicy :: "u8 option"
  site_publisher :: "publisher option"
  site_content :: "content option"
  site_keywords :: "string option"
  site_ext_value :: "json option"

record app =
  app_id :: "string option"
  app_name :: "string option"
  app_bundle :: "string option"
  app_domain :: "string option"
  app_storeurl :: "string option"
  app_cat :: "string list"
  app_sectioncat :: "string list"
  app_pagecat :: "string list"
  app_ver :: "string option"
  app_privacypolicy :: "u8 option"
  app_paid :: "u8 option"
  app_publisher :: "publisher option"
  app_content :: "content option"
  app_keywords :: "string option"
  app_ext_value :: "json option"

record dooh =
  dooh_id :: "string option"
  dooh_name :: "string option"
  dooh_venuetype :: "string list"
  dooh_venuetypetax :: "u32 option"
  dooh_publisher :: "publisher option"
  dooh_domain :: "string option"
  dooh_keywords :: "string option"
  dooh_content :: "content option"
  dooh_ext_value :: "json option"

section \<open>Device, user and the request\<close>

record geo =
  geo_lat :: "flt option"
  geo_lon :: "flt option"
  geo_type :: "u32 option"
  geo_accuracy :: "i32 option"
  geo_lastfix :: "i32 option"
  geo_ipservice :: "u32 option"
  geo_country :: "string option"
  geo_region :: "string option"
  geo_regionfips104 :: "string option"
  geo_metro :: "string option"
  geo_city :: "string option"
  geo_zip :: "string option"
  geo_utcoffset :: "i32 option"
  geo_ext_value :: "json option"

record device =
  dev_ua :: "string option"
  dev_geo :: "geo option"
  dev_dnt :: "u8 option"
  dev_lmt :: "u8 option"
  dev_ip :: "string option"
  dev_ipv6 :: "string option"
  dev_devicetype :: "device_type option"
  dev_make :: "string option"
  dev_model :: "string option"
  dev_os :: "string option"
  dev_osv :: "string option"
  dev_hwv :: "string option"
  dev_h :: "i32 option"
  dev_w :: "i32 option"
  dev_ppi :: "i32 option"
  dev_pxratio :: "flt option"
  dev_js :: "u8 option"
  dev_geofetch :: "u8 option"
  dev_flashver :: "string option"
  dev_language :: "string option"
  dev_carrier :: "string option"
  dev_mccmnc :: "string option"
  dev_connectiontype :: "u32 option"
  dev_ifa :: "string option"
  dev_didsha1 :: "string option"
  dev_didmd5 :: "string option"
  dev_dpidsha1 :: "string option"
  dev_dpidmd5 :: "string option"
  dev_macsha1 :: "string option"
  dev_macmd5 :: "string option"
  dev_ext_value :: "json option"

record uid =
  uid_id :: string
  uid_atype :: "u32 option"
  uid_ext_value :: "json option"

record eid =
  eid_source :: string
  eid_uids :: "uid list"
  eid_ext_value :: "json option"

record user =
  user_id :: "string option"
  user_buyeruid :: "string option"
  user_yob :: "i32 option"
  user_gender :: "string option"
  user_keywords :: "string option"
  user_customdata :: "string option"
  user_geo :: "geo option"
  user_data :: "data list"
  user_eids :: "eid list option"
  user_ext_value :: "json option"

record source =
  source_fd :: "u8 option"
  source_tid :: "string option"
  source_pchain :: "string option"
  source_schain :: "json option"
  source_ext_value :: "json option"

record regs =
  regs_coppa :: "u8 option"
  regs_gdpr :: "u8 option"
  regs_us_privacy :: "string option"
  regs_gpp :: "string option"
  regs_gpp_sid :: "i32 list"
  regs_ext_value :: "json option"

record bid_request =
  req_id :: string
  req_imp :: "imp list"
  req_site :: "site option"
  req_app :: "app option"
  req_dooh :: "dooh option"
  req_device :: "device option"
  req_user :: "user option"
  req_at :: "auction_type option"
  req_tmax :: "u32 option"
  req_wseat :: "string list"
  req_bseat :: "string list"
  req_cur :: "string list option"
  req_wlang :: "string list"
  req_bcat :: "string list"
  req_badv :: "string list"
  req_bapp :: "string list"
  req_source :: "source option"
  req_regs :: "regs option"
  req_test :: u8
  req_ext_value :: "json option"

section \<open>The response\<close>

record bid =
  bid_id :: string
  bid_impid :: string
  bid_price :: flt
  bid_adid :: "string option"
  bid_nurl :: "string option"
  bid_burl :: "string option"
  bid_lurl :: "string option"
  bid_adm :: "string option"
  bid_adomain :: "string list option"
  bid_bundle :: "string option"
  bid_iurl :: "string option"
  bid_cid :: "string option"
  bid_crid :: "string option"
  bid_tactic :: "string option"
  bid_cat :: "string list"
  bid_attr :: "u32 list"
  bid_api :: "u32 option"
  bid_protocol :: "u32 option"
  bid_qagmediarating :: "u32 option"
  bid_language :: "string option"
  bid_dealid :: "string option"
  bid_w :: "i32 option"
  bid_h :: "i32 option"
  bid_wratio :: "i32 option"
  bid_hratio :: "i32 option"
  bid_exp :: "u32 option"
  bid_ext_value :: "json option"

record seat_bid =
  sb_bid :: "bid list"
  sb_seat :: "string option"
  sb_group :: u8
  sb_ext_value :: "json option"

record bid_response =
  resp_id :: string
  resp_seatbid :: "seat_bid list"
  resp_bidid :: "string option"
  resp_cur :: "string option"
  resp_customdata :: "string option"
  resp_nbr :: "no_bid_reason option"
  resp_ext_value :: "json option"

definition no_bid :: "string \<Rightarrow> no_bid_reason \<Rightarrow> bid_response" where
  "no_bid request_id reason =
     \<lparr>resp_id = request_id, resp_seatbid = [], resp_bidid = None, resp_cur = None,
      resp_customdata = None, resp_nbr = Some reason, resp_ext_value = None\<rparr>"

section \<open>Ad formats\<close>

datatype ad_format = Banner | Video | Audio | Native

definition from_imp :: "imp \<Rightarrow> ad_format option" where
  "from_imp i =
     (if imp_banner i \<noteq> None then Some Banner
      else if imp_video i \<noteq> None then Some Video
      else if imp_audio i \<noteq> None then Some Audio
      else if imp_native i \<noteq> None then Some Native
      else None)"

section \<open>Events\<close>

record bid_event =
  be_request_id :: string
  be_imp_id :: string
  be_campaign_id :: string
  be_bid_price :: flt
  be_timestamp_ms :: u64

record win_event =
  we_request_id :: string
  we_imp_id :: string
  we_campaign_id :: string
  we_clearing_price :: flt
  we_timestamp_ms :: u64

record impression_event =
  ie_request_id :: string
  ie_imp_id :: string
  ie_campaign_id :: string
  ie_timestamp_ms :: u64

record click_event =
  ce_request_id :: string
  ce_imp_id :: string
  ce_campaign_id :: string
  ce_timestamp_ms :: u64

record video_quartile_event =
  vqe_request_id :: string
  vqe_imp_id :: string
  vqe_campaign_id :: string
  vqe_quartile :: u8
  vqe_timestamp_ms :: u64

record conversion_event =
  cve_request_id :: string
  cve_imp_id :: string
  cve_campaign_id :: string
  cve_conversion_type :: string
  cve_timestamp_ms :: u64

record viewability_event =
  ve_request_id :: string
  ve_imp_id :: string
  ve_campaign_id :: string
  ve_viewable_fraction :: flt
  ve_timestamp_ms :: u64

datatype ad_event =
  BidEv bid_event
| WinEv win_event
| ImpressionEv impression_event
| ClickEv click_event
| VideoQuartileEv video_quartile_event
| ConversionEv conversion_event
| ViewabilityMeasuredEv viewability_event

section \<open>Candidates and winners\<close>

type_synonym campaign_id = u32
type_synonym creative_id = u32
type_synonym segment_id = u32

record ad_candidate =
  cand_campaign_id :: campaign_id
  cand_creative_id :: creative_id
  cand_bid_price_cents :: i32
  cand_score :: flt
  cand_daily_cap_imps :: u32
  cand_hourly_cap_imps :: u32

record imp_winner =
  win_imp_id :: string
  win_campaign_id :: campaign_id
  win_creative_id :: creative_id
  win_bid_price_cents :: i32
  win_score :: flt

end
