(* ===== verification/Catalog.thy ===== *)
theory Catalog
  imports OpenRTB_Model
begin

text \<open>
  The campaign catalog: \<open>catalog/types.rs\<close>, \<open>catalog/campaign_catalog.rs\<close> and the
  segment registry of \<open>targeting/mod.rs\<close>.

  The inverted indices of the code are roaring bitmaps, a third-party package: the record
  \<open>bitmap_ops\<close> holds the operations the code calls and the locale \<open>roaring\<close> the
  documented behaviour it relies on. The indices are polymorphic in the bitmap type. The locale
  is interpreted on sets of 32-bit words. The main lemma describes the bitmap that
  \<open>candidates_for\<close> returns by the conditions a campaign has to meet.
\<close>

section \<open>Types\<close>

datatype geo_kind = Country | Metro

record geo_key =
  gk_kind :: geo_kind
  gk_code :: string

datatype device_target_type = Desktop | Mobile | Tablet | Ctv | Other

definition from_openrtb :: "u8 \<Rightarrow> device_target_type" where
  "from_openrtb v =
     (if v = 1 \<or> v = 4 then Mobile
      else if v = 2 then Desktop
      else if v = 3 \<or> v = 6 \<or> v = 7 then Ctv
      else if v = 5 then Tablet
      else Other)"

record campaign =
  camp_id :: campaign_id
  camp_advertiser_id :: u64
  camp_bid_floor_cents :: i32
  camp_daily_budget_cents :: i64
  camp_hourly_budget_cents :: i64
  camp_daily_cap_imps :: u32
  camp_hourly_cap_imps :: u32

record creative =
  crea_id :: creative_id
  crea_campaign_id :: campaign_id
  crea_ad_format :: ad_format
  crea_click_url :: string
  crea_image_url :: "string option"
  crea_width :: "i32 option"
  crea_height :: "i32 option"

section \<open>Bitmaps\<close>

record 'b bitmap_ops =
  bm_new :: 'b
  bm_insert :: "u32 \<Rightarrow> 'b \<Rightarrow> 'b"
  bm_or :: "'b \<Rightarrow> 'b \<Rightarrow> 'b"
  bm_and :: "'b \<Rightarrow> 'b \<Rightarrow> 'b"
  bm_sub :: "'b \<Rightarrow> 'b \<Rightarrow> 'b"
  bm_is_empty :: "'b \<Rightarrow> bool"
  bm_iter :: "'b \<Rightarrow> u32 list"

text \<open>\<open>bits\<close> is the set of values a bitmap holds; iteration is in ascending order.\<close>

locale roaring =
  fixes B :: "'b bitmap_ops" and bits :: "'b \<Rightarrow> u32 set"
  assumes bits_new [simp]: "bits (bm_new B) = {}"
    and bits_insert [simp]: "bits (bm_insert B i b) = insert i (bits b)"
    and bits_or [simp]: "bits (bm_or B a b) = bits a \<union> bits b"
    and bits_and [simp]: "bits (bm_and B a b) = bits a \<inter> bits b"
    and bits_sub [simp]: "bits (bm_sub B a b) = bits a - bits b"
    and bits_is_empty [simp]: "bm_is_empty B b \<longleftrightarrow> bits b = {}"
    and bits_iter: "bm_iter B b = sorted_list_of_set (bits b)"

definition set_bitmap :: "u32 set bitmap_ops" where
  "set_bitmap = \<lparr>bm_new = {}, bm_insert = insert, bm_or = (\<union>), bm_and = (\<inter>), bm_sub = (-),
     bm_is_empty = (\<lambda>b. b = {}), bm_iter = sorted_list_of_set\<rparr>"

interpretation set_bm: roaring set_bitmap "\<lambda>b. b"
  by unfold_locales (simp_all add: set_bitmap_def)

section \<open>The catalog snapshot\<close>

record 'b campaign_catalog =
  cat_campaigns :: "(campaign_id, campaign) hmap"
  cat_creatives :: "(campaign_id, creative list) hmap"
  cat_segment_to_campaigns :: "(segment_id, 'b) hmap"
  cat_geo_to_campaigns :: "(geo_key, 'b) hmap"
  cat_device_to_campaigns :: "(device_target_type, 'b) hmap"
  cat_format_to_campaigns :: "(ad_format, 'b) hmap"
  cat_daypart_active_now :: 'b
  cat_all_campaigns :: 'b
  cat_device_unrestricted :: 'b
  cat_format_unrestricted :: 'b

record candidate_request =
  cr_segment_ids :: "segment_id list"
  cr_geo_keys :: "geo_key list option"
  cr_device_type :: "device_target_type option"
  cr_ad_format :: "ad_format option"

text \<open>The union of the index bitmaps of a list of keys; keys without an entry add nothing.\<close>

definition union_of :: "'b bitmap_ops \<Rightarrow> ('k, 'b) hmap \<Rightarrow> 'k list \<Rightarrow> 'b" where
  "union_of B idx ks =
     foldl (\<lambda>u k. case hm_get idx k of Some bm \<Rightarrow> bm_or B u bm | None \<Rightarrow> u) (bm_new B) ks"

text \<open>Narrow the lazy result: \<open>None\<close> means that no constraint was applied yet.\<close>

definition narrow :: "'b bitmap_ops \<Rightarrow> 'b option \<Rightarrow> 'b \<Rightarrow> 'b option" where
  "narrow B result x = Some (case result of Some r \<Rightarrow> bm_and B r x | None \<Rightarrow> x)"

definition eligible_for :: "'b bitmap_ops \<Rightarrow> 'b \<Rightarrow> ('k, 'b) hmap \<Rightarrow> 'k \<Rightarrow> 'b" where
  "eligible_for B unrestricted idx k =
     (case hm_get idx k of Some bm \<Rightarrow> bm_or B unrestricted bm | None \<Rightarrow> unrestricted)"

definition candidates_for :: "'b bitmap_ops \<Rightarrow> 'b campaign_catalog \<Rightarrow> candidate_request \<Rightarrow> 'b" where
  "candidates_for B C req =
     (if bm_is_empty B (cat_all_campaigns C) then bm_new B
      else
       (let r0 = (if cr_segment_ids req = [] then None
                  else Some (union_of B (cat_segment_to_campaigns C) (cr_segment_ids req)));
            r1 = (case cr_geo_keys req of
                    Some geo_keys \<Rightarrow>
                      (if geo_keys \<noteq> [] then narrow B r0 (union_of B (cat_geo_to_campaigns C) geo_keys)
                       else r0)
                  | None \<Rightarrow> r0);
            r2 = (case cr_device_type req of
                    Some device \<Rightarrow>
                      narrow B r1 (eligible_for B (cat_device_unrestricted C) (cat_device_to_campaigns C) device)
                  | None \<Rightarrow> r1);
            r3 = (case cr_ad_format req of
                    Some format \<Rightarrow>
                      narrow B r2 (eligible_for B (cat_format_unrestricted C) (cat_format_to_campaigns C) format)
                  | None \<Rightarrow> r2);
            r4 = (if \<not> bm_is_empty B (cat_daypart_active_now C)
                  then narrow B r3 (cat_daypart_active_now C) else r3)
        in (case r4 of Some r \<Rightarrow> r | None \<Rightarrow> cat_all_campaigns C)))"

definition campaign_of :: "'b campaign_catalog \<Rightarrow> campaign_id \<Rightarrow> campaign option" where
  "campaign_of C i = hm_get (cat_campaigns C) i"

definition creatives_for :: "'b campaign_catalog \<Rightarrow> campaign_id \<Rightarrow> creative list" where
  "creatives_for C i = (case hm_get (cat_creatives C) i of Some cs \<Rightarrow> cs | None \<Rightarrow> [])"

definition catalog_len :: "'b campaign_catalog \<Rightarrow> usize" where
  "catalog_len C = length (cat_campaigns C)"

definition catalog_is_empty :: "'b campaign_catalog \<Rightarrow> bool" where
  "catalog_is_empty C \<longleftrightarrow> cat_campaigns C = []"

definition budget_seeds :: "'b campaign_catalog \<Rightarrow> (campaign_id \<times> i64) list" where
  "budget_seeds C = map (\<lambda>(i, c). (i, camp_daily_budget_cents c)) (cat_campaigns C)"

definition union_values :: "'b bitmap_ops \<Rightarrow> ('k, 'b) hmap \<Rightarrow> 'b" where
  "union_values B idx = foldl (bm_or B) (bm_new B) (map snd idx)"

definition new_for_test ::
  "'b bitmap_ops \<Rightarrow> (campaign_id, campaign) hmap \<Rightarrow> (campaign_id, creative list) hmap
   \<Rightarrow> (segment_id, 'b) hmap \<Rightarrow> (geo_key, 'b) hmap \<Rightarrow> (device_target_type, 'b) hmap
   \<Rightarrow> (ad_format, 'b) hmap \<Rightarrow> 'b \<Rightarrow> 'b \<Rightarrow> 'b campaign_catalog" where
  "new_for_test B campaigns creatives segs geos devices formats daypart all =
     \<lparr>cat_campaigns = campaigns, cat_creatives = creatives, cat_segment_to_campaigns = segs,
      cat_geo_to_campaigns = geos, cat_device_to_campaigns = devices,
      cat_format_to_campaigns = formats, cat_daypart_active_now = daypart,
      cat_all_campaigns = all,
      cat_device_unrestricted = bm_sub B all (union_values B devices),
      cat_format_unrestricted = bm_sub B all (union_values B formats)\<rparr>"

section \<open>The segment registry\<close>

type_synonym segment_registry = "(string, segment_id) hmap"

definition registry_insert :: "string \<Rightarrow> segment_id \<Rightarrow> segment_registry \<Rightarrow> segment_registry" where
  "registry_insert name i reg = hm_insert name i reg"

definition resolve :: "segment_registry \<Rightarrow> string list \<Rightarrow> segment_id list" where
  "resolve reg names = List.map_filter (hm_get reg) names"

definition registry_len :: "segment_registry \<Rightarrow> usize" where
  "registry_len reg = length reg"

definition registry_is_empty :: "segment_registry \<Rightarrow> bool" where
  "registry_is_empty reg \<longleftrightarrow> reg = []"

section \<open>What candidate retrieval returns\<close>

text \<open>The campaigns an index lists under a key.\<close>

definition idx_bits :: "('b \<Rightarrow> u32 set) \<Rightarrow> ('k, 'b) hmap \<Rightarrow> 'k \<Rightarrow> u32 set" where
  "idx_bits bits idx k = (case hm_get idx k of Some bm \<Rightarrow> bits bm | None \<Rightarrow> {})"

text \<open>The conditions the request puts on a campaign.\<close>

definition matches :: "('b \<Rightarrow> u32 set) \<Rightarrow> 'b campaign_catalog \<Rightarrow> candidate_request \<Rightarrow> campaign_id \<Rightarrow> bool" where
  "matches bits C req c \<longleftrightarrow>
     (cr_segment_ids req = [] \<or>
        (\<exists>s \<in> set (cr_segment_ids req). c \<in> idx_bits bits (cat_segment_to_campaigns C) s)) \<and>
     (case cr_geo_keys req of None \<Rightarrow> True | Some ks \<Rightarrow>
        ks = [] \<or> (\<exists>k \<in> set ks. c \<in> idx_bits bits (cat_geo_to_campaigns C) k)) \<and>
     (case cr_device_type req of None \<Rightarrow> True | Some d \<Rightarrow>
        c \<in> bits (cat_device_unrestricted C) \<or> c \<in> idx_bits bits (cat_device_to_campaigns C) d) \<and>
     (case cr_ad_format req of None \<Rightarrow> True | Some f \<Rightarrow>
        c \<in> bits (cat_format_unrestricted C) \<or> c \<in> idx_bits bits (cat_format_to_campaigns C) f) \<and>
     (bits (cat_daypart_active_now C) = {} \<or> c \<in> bits (cat_daypart_active_now C))"

text \<open>A snapshot is consistent when every index lists loaded campaigns only.\<close>

definition wf_catalog :: "('b \<Rightarrow> u32 set) \<Rightarrow> 'b campaign_catalog \<Rightarrow> bool" where
  "wf_catalog bits C \<longleftrightarrow>
     bits (cat_all_campaigns C) = fst ` set (cat_campaigns C) \<and>
     hm_wf (cat_campaigns C) \<and>
     (\<forall>s. idx_bits bits (cat_segment_to_campaigns C) s \<subseteq> bits (cat_all_campaigns C)) \<and>
     (\<forall>k. idx_bits bits (cat_geo_to_campaigns C) k \<subseteq> bits (cat_all_campaigns C)) \<and>
     (\<forall>d. idx_bits bits (cat_device_to_campaigns C) d \<subseteq> bits (cat_all_campaigns C)) \<and>
     (\<forall>f. idx_bits bits (cat_format_to_campaigns C) f \<subseteq> bits (cat_all_campaigns C)) \<and>
     bits (cat_daypart_active_now C) \<subseteq> bits (cat_all_campaigns C) \<and>
     bits (cat_device_unrestricted C) \<subseteq> bits (cat_all_campaigns C) \<and>
     bits (cat_format_unrestricted C) \<subseteq> bits (cat_all_campaigns C)"

text \<open>The set a lazy result stands for inside a universe.\<close>

definition lazy_view :: "('b \<Rightarrow> u32 set) \<Rightarrow> u32 set \<Rightarrow> 'b option \<Rightarrow> u32 set" where
  "lazy_view bits U r = (case r of None \<Rightarrow> U | Some b \<Rightarrow> U \<inter> bits b)"

context roaring
begin

lemma bits_union_of [simp]: "bits (union_of B idx ks) = (\<Union>k \<in> set ks. idx_bits bits idx k)"
proof -
  have "bits (foldl (\<lambda>u k. case hm_get idx k of Some bm \<Rightarrow> bm_or B u bm | None \<Rightarrow> u) b ks)
      = bits b \<union> (\<Union>k \<in> set ks. idx_bits bits idx k)" for b
    by (induction ks arbitrary: b) (auto simp: idx_bits_def split: option.splits)
  then show ?thesis by (simp add: union_of_def)
qed

lemma bits_eligible_for [simp]: "bits (eligible_for B u idx k) = bits u \<union> idx_bits bits idx k"
  by (simp add: eligible_for_def idx_bits_def split: option.splits)

lemma bits_union_values [simp]: "bits (union_values B idx) = (\<Union>b \<in> snd ` set idx. bits b)"
proof -
  have "bits (foldl (bm_or B) b bs) = bits b \<union> (\<Union>x \<in> set bs. bits x)" for b bs
    by (induction bs arbitrary: b) auto
  then show ?thesis by (simp add: union_values_def)
qed

lemma lazy_view_simps [simp]:
  "lazy_view bits U None = U" "lazy_view bits U (Some b) = U \<inter> bits b" "lazy_view bits U (narrow B r x) = lazy_view bits U r \<inter> bits x"
  by (auto simp: lazy_view_def narrow_def split: option.splits)

lemma lazy_view_if_option:
  "lazy_view bits U (if c then x else y) = (if c then lazy_view bits U x else lazy_view bits U y)"
  "lazy_view bits U (case z of None \<Rightarrow> y | Some a \<Rightarrow> f a) = (case z of None \<Rightarrow> lazy_view bits U y | Some a \<Rightarrow> lazy_view bits U (f a))"
  by (simp_all split: option.splits)

lemma candidates_for_in_universe:
  "bits (candidates_for B C req) \<inter> bits (cat_all_campaigns C)
   = {c \<in> bits (cat_all_campaigns C). matches bits C req c}"
proof (cases "bits (cat_all_campaigns C) = {}")
  case True
  then show ?thesis by simp
next
  case False
  have final: "bits (case r of None \<Rightarrow> cat_all_campaigns C | Some b \<Rightarrow> b) \<inter> bits (cat_all_campaigns C)
      = lazy_view bits (bits (cat_all_campaigns C)) r" for r
    by (auto split: option.splits)
  show ?thesis
    unfolding candidates_for_def Let_def
    using False by (auto simp: final lazy_view_if_option matches_def split: option.splits)
qed

lemma matches_in_universe:
  assumes "wf_catalog bits C"
  shows "bits (candidates_for B C req) \<subseteq> bits (cat_all_campaigns C)"
proof -
  let ?U = "bits (cat_all_campaigns C)"
  define P where "P r \<longleftrightarrow> (\<forall>b. r = Some b \<longrightarrow> bits b \<subseteq> ?U)" for r
  have narrow: "P (narrow B r x)" if "bits x \<subseteq> ?U" for r x
    using that by (auto simp: P_def narrow_def split: option.splits)
  have Some: "P (Some x)" if "bits x \<subseteq> ?U" for x using that by (simp add: P_def)
  have None: "P None" by (simp add: P_def)
  have cond: "P (if c then x else y)" if "P x" "P y" for c x y using that by simp
  have opt: "P (case z of None \<Rightarrow> y | Some a \<Rightarrow> f a)" if "P y" "\<And>a. P (f a)" for z :: "'k option" and y f
    using that by (simp split: option.splits)
  have final: "bits (if e then bm_new B else case r of None \<Rightarrow> cat_all_campaigns C | Some b \<Rightarrow> b) \<subseteq> ?U"
    if "P r" for e r using that by (simp add: P_def split: option.splits)
  have seg: "bits (union_of B (cat_segment_to_campaigns C) ss) \<subseteq> ?U" for ss
    using assms unfolding wf_catalog_def bits_union_of by (meson UN_least)
  have geo: "bits (union_of B (cat_geo_to_campaigns C) ks) \<subseteq> ?U" for ks
    using assms unfolding wf_catalog_def bits_union_of by (meson UN_least)
  have dev: "bits (eligible_for B (cat_device_unrestricted C) (cat_device_to_campaigns C) d) \<subseteq> ?U" for d
    using assms unfolding wf_catalog_def bits_eligible_for by (meson Un_least)
  have form: "bits (eligible_for B (cat_format_unrestricted C) (cat_format_to_campaigns C) f) \<subseteq> ?U" for f
    using assms unfolding wf_catalog_def bits_eligible_for by (meson Un_least)
  have day: "bits (cat_daypart_active_now C) \<subseteq> ?U"
    using assms unfolding wf_catalog_def by meson
  show ?thesis
    unfolding candidates_for_def Let_def
    by (intro final cond opt narrow Some None geo dev form day seg)
qed

lemma candidates_for_bits:
  assumes "wf_catalog bits C"
  shows "bits (candidates_for B C req) = {c \<in> bits (cat_all_campaigns C). matches bits C req c}"
  using candidates_for_in_universe [of C req] matches_in_universe [OF assms, of req] by auto

end

end
