(* ===== verification/Circuit_Breaker.thy ===== *)
theory Circuit_Breaker
  imports Rust_Float
begin

text \<open>
  The circuit breaker of \<open>breaker/mod.rs\<close>. Instants and durations are nanoseconds; the
  readings of the clock are arguments. The record \<open>breaker\<close> holds the window counters and
  the state behind the lock. \<open>allow_request\<close> and \<open>record_outcome\<close> are given
  whole; their lock sections are also the steps of a relation in which any number of callers
  interleave, with the counter snapshot of \<open>record_outcome\<close> left arbitrary because it is
  taken outside the lock.
\<close>

section \<open>State\<close>

type_synonym instant = nat
type_synonym duration = nat

definition from_millis :: "nat \<Rightarrow> duration" where
  "from_millis ms = ms * 1000000"

definition from_secs :: "nat \<Rightarrow> duration" where
  "from_secs s = s * 1000000000"

datatype breaker_state = Closed | Open | HalfOpen

record breaker_config =
  br_name :: string
  br_min_calls :: u64
  br_error_rate_threshold :: flt
  br_slow_call_ratio_threshold :: flt
  br_slow_call_duration :: duration
  br_open_duration :: duration
  br_window_size :: u64

definition breaker_redis :: "string \<Rightarrow> breaker_config" where
  "breaker_redis name =
     \<lparr>br_name = name, br_min_calls = 20, br_error_rate_threshold = flt_lit binary64 5 10,
      br_slow_call_ratio_threshold = flt_lit binary64 5 10, br_slow_call_duration = from_millis 16,
      br_open_duration = from_secs 10, br_window_size = 100\<rparr>"

definition breaker_kafka :: "string \<Rightarrow> breaker_config" where
  "breaker_kafka name =
     \<lparr>br_name = name, br_min_calls = 10, br_error_rate_threshold = flt_lit binary64 5 10,
      br_slow_call_ratio_threshold = flt_lit binary64 8 10, br_slow_call_duration = from_millis 100,
      br_open_duration = from_secs 30, br_window_size = 100\<rparr>"

record window =
  w_calls :: u64
  w_errors :: u64
  w_slow_calls :: u64

definition window_new :: window where
  "window_new = \<lparr>w_calls = 0, w_errors = 0, w_slow_calls = 0\<rparr>"

definition window_record :: "window \<Rightarrow> bool \<Rightarrow> bool \<Rightarrow> window" where
  "window_record w error slow =
     (let w1 = w\<lparr>w_calls := u64_add (w_calls w) 1\<rparr>;
          w2 = (if error then w1\<lparr>w_errors := u64_add (w_errors w1) 1\<rparr> else w1)
      in if slow then w2\<lparr>w_slow_calls := u64_add (w_slow_calls w2) 1\<rparr> else w2)"

definition window_reset :: "window \<Rightarrow> window" where
  "window_reset w = w\<lparr>w_calls := 0, w_errors := 0, w_slow_calls := 0\<rparr>"

definition window_snapshot :: "window \<Rightarrow> u64 \<times> u64 \<times> u64" where
  "window_snapshot w = (w_calls w, w_errors w, w_slow_calls w)"

record breaker =
  br_window :: window
  br_state :: breaker_state
  br_opened_at :: "instant option"
  br_probe_in_flight :: bool

definition breaker_new :: breaker where
  "breaker_new =
     \<lparr>br_window = window_new, br_state = Closed, br_opened_at = None, br_probe_in_flight = False\<rparr>"

section \<open>Operations\<close>

text \<open>\<open>opened_at.map(|t| t.elapsed()).unwrap_or_default()\<close>.\<close>

definition open_elapsed :: "breaker \<Rightarrow> instant \<Rightarrow> duration" where
  "open_elapsed b now = (case br_opened_at b of Some t \<Rightarrow> now - t | None \<Rightarrow> 0)"

definition try_enter_half_open :: "breaker_config \<Rightarrow> instant \<Rightarrow> breaker \<Rightarrow> bool \<times> breaker" where
  "try_enter_half_open cfg now b =
     (let b1 = (if br_state b = Open \<and> br_open_duration cfg \<le> open_elapsed b now
                then b\<lparr>br_state := HalfOpen, br_probe_in_flight := False,
                       br_window := window_reset (br_window b)\<rparr>
                else b)
      in if br_state b1 = HalfOpen \<and> \<not> br_probe_in_flight b1
         then (True, b1\<lparr>br_probe_in_flight := True\<rparr>)
         else (False, b1))"

text \<open>The section under the read lock: an answer, or none to go on to the write lock.\<close>

definition allow_fast_path :: "breaker_config \<Rightarrow> instant \<Rightarrow> breaker \<Rightarrow> bool option" where
  "allow_fast_path cfg now b =
     (if br_state b = Closed then Some True
      else if br_state b = Open \<and> open_elapsed b now < br_open_duration cfg then Some False
      else None)"

definition allow_request :: "breaker_config \<Rightarrow> instant \<Rightarrow> breaker \<Rightarrow> bool \<times> breaker" where
  "allow_request cfg now b =
     (case allow_fast_path cfg now b of
        Some answer \<Rightarrow> (answer, b)
      | None \<Rightarrow> try_enter_half_open cfg now b)"

definition rate :: "u64 \<Rightarrow> u64 \<Rightarrow> flt" where
  "rate n calls = flt_div binary64 (flt_of_int binary64 (int n)) (flt_of_int binary64 (int calls))"

text \<open>The section of \<open>record_outcome\<close> under the write lock, for a given snapshot.\<close>

definition apply_outcome ::
  "breaker_config \<Rightarrow> instant \<Rightarrow> bool \<Rightarrow> bool \<Rightarrow> u64 \<times> u64 \<times> u64 \<Rightarrow> breaker \<Rightarrow> breaker" where
  "apply_outcome cfg now error slow snap b =
     (case snap of (calls, errors, slows) \<Rightarrow>
      case br_state b of
        Closed \<Rightarrow>
          (let b1 = (if br_window_size cfg \<le> calls then b\<lparr>br_window := window_reset (br_window b)\<rparr> else b)
           in if br_min_calls cfg \<le> calls \<and>
                 (flt_ge (rate errors calls) (br_error_rate_threshold cfg) \<or>
                  flt_ge (rate slows calls) (br_slow_call_ratio_threshold cfg))
              then b1\<lparr>br_state := Open, br_opened_at := Some now,
                      br_window := window_reset (br_window b1)\<rparr>
              else b1)
      | HalfOpen \<Rightarrow>
          (let b1 = b\<lparr>br_probe_in_flight := False\<rparr>
           in if error \<or> slow
              then b1\<lparr>br_state := Open, br_opened_at := Some now, br_window := window_reset (br_window b1)\<rparr>
              else b1\<lparr>br_state := Closed, br_window := window_reset (br_window b1)\<rparr>)
      | Open \<Rightarrow> b)"

definition is_slow :: "breaker_config \<Rightarrow> duration \<Rightarrow> bool" where
  "is_slow cfg d \<longleftrightarrow> br_slow_call_duration cfg \<le> d"

definition record_outcome :: "breaker_config \<Rightarrow> instant \<Rightarrow> bool \<Rightarrow> duration \<Rightarrow> breaker \<Rightarrow> breaker" where
  "record_outcome cfg now error d b =
     (let slow = is_slow cfg d; b1 = b\<lparr>br_window := window_record (br_window b) error slow\<rparr>
      in apply_outcome cfg now error slow (window_snapshot (br_window b1)) b1)"

text \<open>\<open>try_read\<close> may fail when a writer holds the lock: the argument says so.\<close>

definition is_closed_sync :: "bool \<Rightarrow> breaker \<Rightarrow> bool" where
  "is_closed_sync lock_free b \<longleftrightarrow> lock_free \<and> br_state b = Closed"

section \<open>Callers in any order\<close>

text \<open>
  One step per lock section. \<open>bs_probes\<close> counts the probes admitted since the breaker last
  left the half-open state or took an outcome there.
\<close>

record breaker_sys =
  bs_breaker :: breaker
  bs_probes :: nat

datatype breaker_event =
  EvTry instant
| EvOutcome instant bool bool "u64 \<times> u64 \<times> u64"
| EvRecord bool bool

inductive breaker_step :: "breaker_config \<Rightarrow> breaker_sys \<Rightarrow> breaker_event \<Rightarrow> bool \<Rightarrow> breaker_sys \<Rightarrow> bool"
  for cfg where
  admit: "try_enter_half_open cfg now (bs_breaker s) = (True, b') \<Longrightarrow>
    breaker_step cfg s (EvTry now) True \<lparr>bs_breaker = b',
      bs_probes = (if br_state (bs_breaker s) = Open then 1 else bs_probes s + 1)\<rparr>"
| refuse: "try_enter_half_open cfg now (bs_breaker s) = (False, b') \<Longrightarrow>
    breaker_step cfg s (EvTry now) False (s\<lparr>bs_breaker := b'\<rparr>)"
| outcome: "b' = apply_outcome cfg now error slow snap (bs_breaker s) \<Longrightarrow>
    breaker_step cfg s (EvOutcome now error slow snap) False \<lparr>bs_breaker = b',
      bs_probes = (if br_state (bs_breaker s) = HalfOpen then 0 else bs_probes s)\<rparr>"
| count: "breaker_step cfg s (EvRecord error slow) False
    (s\<lparr>bs_breaker := (bs_breaker s)\<lparr>br_window := window_record (br_window (bs_breaker s)) error slow\<rparr>\<rparr>)"

inductive breaker_reach :: "breaker_config \<Rightarrow> breaker_sys \<Rightarrow> bool" for cfg where
  init: "breaker_reach cfg \<lparr>bs_breaker = breaker_new, bs_probes = 0\<rparr>"
| step: "breaker_reach cfg s \<Longrightarrow> breaker_step cfg s ev r s' \<Longrightarrow> breaker_reach cfg s'"

inductive_cases breaker_stepE: "breaker_step cfg s ev r s'"

definition breaker_inv :: "breaker_sys \<Rightarrow> bool" where
  "breaker_inv s \<longleftrightarrow>
     bs_probes s = (if br_state (bs_breaker s) = HalfOpen \<and> br_probe_in_flight (bs_breaker s) then 1 else 0) \<and>
     (br_state (bs_breaker s) = Open \<longrightarrow> br_opened_at (bs_breaker s) \<noteq> None)"

section \<open>Lemmas\<close>

lemma try_enter_cases:
  "fst (try_enter_half_open cfg now b) \<longleftrightarrow>
     (br_state b = Open \<and> br_open_duration cfg \<le> open_elapsed b now) \<or>
     (br_state b = HalfOpen \<and> \<not> br_probe_in_flight b)"
  by (cases "br_state b") (auto simp: try_enter_half_open_def Let_def)

lemma try_enter_admits:
  "try_enter_half_open cfg now b = (True, b') \<Longrightarrow> br_state b' = HalfOpen \<and> br_probe_in_flight b'
     \<and> br_opened_at b' = br_opened_at b"
  by (auto simp: try_enter_half_open_def Let_def split: if_splits)

lemma try_enter_refuses:
  "try_enter_half_open cfg now b = (False, b') \<Longrightarrow> b' = b"
  by (auto simp: try_enter_half_open_def Let_def split: if_splits)

lemma breaker_step_inv:
  assumes "breaker_step cfg s ev r s'" "breaker_inv s"
  shows "breaker_inv s'"
  using assms
proof cases
  case (admit now b')
  then show ?thesis
    using try_enter_admits [of cfg now "bs_breaker s" b'] try_enter_cases [of cfg now "bs_breaker s"] assms(2)
    by (auto simp: breaker_inv_def)
next
  case (refuse now b')
  then show ?thesis using try_enter_refuses [of cfg now "bs_breaker s" b'] assms(2) by simp
next
  case (outcome b' now error slow snap)
  then show ?thesis using assms(2)
    by (cases "br_state (bs_breaker s)")
      (auto simp: breaker_inv_def apply_outcome_def Let_def split: prod.splits)
next
  case (count error slow)
  then show ?thesis using assms(2) by (auto simp: breaker_inv_def)
qed

lemma breaker_reach_inv: "breaker_reach cfg s \<Longrightarrow> breaker_inv s"
  by (induction rule: breaker_reach.induct)
    (auto simp: breaker_inv_def breaker_new_def dest: breaker_step_inv)

text \<open>The half of the rate thresholds: the rounded quotient reaches one half exactly when the
  fraction does.\<close>

lemma f64_int_exact: "\<bar>i\<bar> \<le> 2 ^ 53 \<Longrightarrow> flt_of_int binary64 i = mk_num i 0"
  by (rule flt_of_int_exact, rule wf_binary) (simp_all add: binary64_def)

lemma f64_half: "flt_lit binary64 5 10 = Num 1 (- 1)"
  by code_simp

lemma rate_rnd:
  assumes "0 < calls" "calls \<le> 2 ^ 53" "n \<le> 2 ^ 53"
  shows "\<exists>a d e. 0 < d \<and> rate n calls = rnd binary64 a d e \<and> exact a d e = of_nat n / of_nat calls"
proof -
  have n: "flt_of_int binary64 (int n) = mk_num (int n) 0"
    and c: "flt_of_int binary64 (int calls) = mk_num (int calls) 0"
    using assms by (simp_all add: f64_int_exact)
  show ?thesis
    using flt_div_rnd [of "mk_num (int n) 0" "mk_num (int calls) 0" binary64] assms(1)
    by (simp add: rate_def n c)
qed

lemma fkey_half: "fkey (Num 1 (- 1)) = (0, 1 / 2)"
  by (simp add: power_int_def)

lemma rate_ge_half:
  assumes "0 < calls" "calls \<le> 2 ^ 53" "n \<le> 2 ^ 53"
  shows "flt_ge (rate n calls) (flt_lit binary64 5 10) \<longleftrightarrow> calls \<le> 2 * n"
proof -
  obtain a d e where r: "0 < d" "rate n calls = rnd binary64 a d e" "exact a d e = of_nat n / of_nat calls"
    using rate_rnd [OF assms] by blast
  have half: "rnd binary64 1 1 (- 1) = Num 1 (- 1)" by code_simp
  have below: "rnd binary64 9007199254740991 1 (- 54) = Num 9007199254740991 (- 54)" by code_simp
  have e1: "exact 1 1 (- 1) = 1 / 2" by (simp add: exact_def power_int_def)
  have e2: "exact 9007199254740991 1 (- 54) = 9007199254740991 / 18014398509481984"
    by (simp add: exact_def power_int_def power_one_over)
  have key: "flt_ge (rate n calls) (flt_lit binary64 5 10) \<longleftrightarrow> (0, 1 / 2) \<le> fkey (rate n calls)"
    using r(2) by (simp add: flt_ge_fkey f64_half fkey_half)
  show ?thesis
  proof (cases "calls \<le> 2 * n")
    case True
    then have "(of_nat calls :: rat) \<le> of_nat (2 * n)" by (simp only: of_nat_le_iff)
    then have "exact 1 1 (- 1) \<le> exact a d e"
      using assms(1) by (simp add: r(3) e1 field_simps)
    then have "fkey (Num 1 (- 1)) \<le> fkey (rate n calls)"
      using rnd_mono [of binary64 1 d 1 "- 1" a e] r by (simp add: half)
    then show ?thesis using True key by (simp add: fkey_half)
  next
    case False
    then have "2 * n + 1 \<le> calls" by simp
    then have "(of_nat (2 * n + 1) :: rat) \<le> of_nat calls" by (simp only: of_nat_le_iff)
    moreover have "(of_nat calls :: rat) \<le> of_nat (2 ^ 53)" using assms(2) by (simp only: of_nat_le_iff)
    ultimately have "exact a d e \<le> exact 9007199254740991 1 (- 54)"
      using assms(1) by (simp add: r(3) e2 field_simps)
    then have "fkey (rate n calls) \<le> fkey (Num 9007199254740991 (- 54))"
      using rnd_mono [of binary64 d 1 a e 9007199254740991 "- 54"] r by (simp add: below)
    also have "\<dots> < (0, 1 / 2)" by (simp add: power_int_def power_one_over)
    finally show ?thesis using False key by simp
  qed
qed

section \<open>One caller at a time\<close>

datatype breaker_op = OpAllow instant | OpOutcome instant bool duration

definition breaker_do :: "breaker_config \<Rightarrow> breaker_op \<Rightarrow> breaker \<Rightarrow> breaker" where
  "breaker_do cfg op b =
     (case op of OpAllow now \<Rightarrow> snd (allow_request cfg now b)
      | OpOutcome now error d \<Rightarrow> record_outcome cfg now error d b)"

definition breaker_ops :: "breaker_config \<Rightarrow> breaker_op list \<Rightarrow> breaker" where
  "breaker_ops cfg ops = foldl (\<lambda>b op. breaker_do cfg op b) breaker_new ops"

definition window_ok :: "breaker_config \<Rightarrow> breaker \<Rightarrow> bool" where
  "window_ok cfg b \<longleftrightarrow>
     (br_state b = Closed \<longrightarrow>
        w_calls (br_window b) < br_window_size cfg \<and> w_errors (br_window b) \<le> w_calls (br_window b) \<and>
        w_slow_calls (br_window b) \<le> w_calls (br_window b))"

lemma allow_request_closed: "br_state b = Closed \<Longrightarrow> allow_request cfg now b = (True, b)"
  by (simp add: allow_request_def allow_fast_path_def)

lemma allow_request_not_closed: "br_state b \<noteq> Closed \<Longrightarrow> br_state (snd (allow_request cfg now b)) \<noteq> Closed"
  by (auto simp: allow_request_def allow_fast_path_def try_enter_half_open_def Let_def split: option.splits if_splits)

lemma window_ok_allow: "window_ok cfg b \<Longrightarrow> window_ok cfg (snd (allow_request cfg now b))"
  by (cases "br_state b = Closed")
    (auto simp: allow_request_closed window_ok_def dest: allow_request_not_closed)

lemma window_ok_outcome:
  assumes "window_ok cfg b" "0 < br_window_size cfg" "br_window_size cfg < 2 ^ 64"
  shows "window_ok cfg (record_outcome cfg now error d b)"
proof (cases "br_state b")
  case Closed
  then have b: "w_calls (br_window b) < br_window_size cfg" "w_errors (br_window b) \<le> w_calls (br_window b)"
    "w_slow_calls (br_window b) \<le> w_calls (br_window b)" "w_calls (br_window b) + 1 < 2 ^ 64"
    using assms by (simp_all add: window_ok_def)
  then have "u64_add (w_calls (br_window b)) 1 = w_calls (br_window b) + 1"
    "u64_add (w_errors (br_window b)) 1 = w_errors (br_window b) + 1"
    "u64_add (w_slow_calls (br_window b)) 1 = w_slow_calls (br_window b) + 1"
    by (simp_all add: u64_add_small)
  then show ?thesis
    using Closed b assms(2)
    by (auto simp: window_ok_def record_outcome_def apply_outcome_def window_record_def window_reset_def
        window_snapshot_def Let_def)
next
  case HalfOpen
  then show ?thesis
    using assms(2)
    by (simp add: window_ok_def record_outcome_def apply_outcome_def window_reset_def window_snapshot_def Let_def)
next
  case Open
  then show ?thesis
    by (simp add: window_ok_def record_outcome_def apply_outcome_def window_snapshot_def Let_def)
qed

lemma breaker_ops_window_ok:
  assumes "0 < br_window_size cfg" "br_window_size cfg < 2 ^ 64"
  shows "window_ok cfg (breaker_ops cfg ops)"
proof (induction ops rule: rev_induct)
  case Nil
  then show ?case using assms by (simp add: breaker_ops_def breaker_new_def window_ok_def window_new_def)
next
  case (snoc op ops)
  then show ?case
    using assms by (cases op) (simp_all add: breaker_ops_def breaker_do_def window_ok_allow window_ok_outcome)
qed

section \<open>Properties\<close>

text \<open>
  C28. One probe at a time: whatever callers interleave in whatever order, at most one probe is
  admitted between two outcomes in the half-open state, and while it is in flight every other
  caller is refused and changes nothing.
\<close>

theorem breaker_single_probe:
  assumes "breaker_reach cfg s"
  shows "bs_probes s \<le> 1 \<and>
    (bs_probes s = 1 \<longrightarrow> (\<forall>now. try_enter_half_open cfg now (bs_breaker s) = (False, bs_breaker s)))"
  using breaker_reach_inv [OF assms]
  by (auto simp: breaker_inv_def try_enter_half_open_def Let_def)

lemma breaker_probe_reachable:
  "\<exists>s. breaker_reach (breaker_redis ''r'') s \<and> bs_probes s = 1"
proof -
  let ?cfg = "breaker_redis ''r''"
  define s1 where "s1 = \<lparr>bs_breaker = apply_outcome ?cfg 0 True False (20, 20, 0) breaker_new, bs_probes = 0\<rparr>"
  have "breaker_step ?cfg \<lparr>bs_breaker = breaker_new, bs_probes = 0\<rparr> (EvOutcome 0 True False (20, 20, 0)) False s1"
    using breaker_step.outcome [OF refl, of ?cfg "\<lparr>bs_breaker = breaker_new, bs_probes = 0\<rparr>" 0 True False "(20, 20, 0)"]
    by (simp add: s1_def breaker_new_def)
  then have s1: "breaker_reach ?cfg s1" by (rule breaker_reach.step [OF breaker_reach.init])
  have open': "br_state (bs_breaker s1) = Open" "br_opened_at (bs_breaker s1) = Some 0"
    using rate_ge_half [of 20 20]
    by (simp_all add: s1_def apply_outcome_def breaker_new_def breaker_redis_def)
  obtain b' where "try_enter_half_open ?cfg (from_secs 10) (bs_breaker s1) = (True, b')"
    using try_enter_cases [of ?cfg "from_secs 10" "bs_breaker s1"] open'
    by (cases "try_enter_half_open ?cfg (from_secs 10) (bs_breaker s1)")
      (simp add: open_elapsed_def breaker_redis_def)
  then have "breaker_reach ?cfg \<lparr>bs_breaker = b', bs_probes = 1\<rparr>"
    using breaker_reach.step [OF s1 breaker_step.admit] open' by fastforce
  then show ?thesis by force
qed

theorem breaker_single_probe_witness:
  "\<exists>s. breaker_reach (breaker_redis ''r'') s \<and> bs_probes s = 1 \<and>
     try_enter_half_open (breaker_redis ''r'') 5 (bs_breaker s) = (False, bs_breaker s)"
  using breaker_probe_reachable breaker_single_probe by blast

text \<open>
  C29. The Redis breaker opens exactly at half: after any sequence of calls that left it closed,
  recording one more outcome opens it if and only if at least 20 calls are in the window and at
  least half of them failed or at least half of them were slow. The comparison on rounded
  \<open>f64\<close> rates decides the exact fractions.
\<close>

theorem breaker_redis_opens_iff:
  assumes "b = breaker_ops (breaker_redis name) ops" and "br_state b = Closed"
    and "w = window_record (br_window b) error (is_slow (breaker_redis name) d)"
  shows "br_state (record_outcome (breaker_redis name) now error d b) = Open \<longleftrightarrow>
    20 \<le> w_calls w \<and> (w_calls w \<le> 2 * w_errors w \<or> w_calls w \<le> 2 * w_slow_calls w)"
proof -
  have ok: "window_ok (breaker_redis name) b"
    using breaker_ops_window_ok [of "breaker_redis name" ops] by (simp add: assms(1) breaker_redis_def)
  then have small: "w_calls (br_window b) < 100" "w_errors (br_window b) \<le> w_calls (br_window b)"
    "w_slow_calls (br_window b) \<le> w_calls (br_window b)"
    using assms(2) by (simp_all add: window_ok_def breaker_redis_def)
  then have w: "0 < w_calls w" "w_calls w \<le> 100" "w_errors w \<le> 100" "w_slow_calls w \<le> 100"
    by (simp_all add: assms(3) window_record_def Let_def u64_add_def)
  have "flt_ge (rate (w_errors w) (w_calls w)) (flt_lit binary64 5 10) \<longleftrightarrow> w_calls w \<le> 2 * w_errors w"
    "flt_ge (rate (w_slow_calls w) (w_calls w)) (flt_lit binary64 5 10) \<longleftrightarrow> w_calls w \<le> 2 * w_slow_calls w"
    using w by (simp_all add: rate_ge_half)
  then show ?thesis
    using assms(2)
    by (simp add: record_outcome_def apply_outcome_def window_snapshot_def assms(3) [symmetric] Let_def)
      (simp add: breaker_redis_def)
qed

lemma breaker_errors_run:
  "n \<le> 19 \<Longrightarrow> breaker_ops (breaker_redis name) (replicate n (OpOutcome 0 True 0))
     = breaker_new\<lparr>br_window := \<lparr>w_calls = n, w_errors = n, w_slow_calls = 0\<rparr>\<rparr>"
proof (induction n)
  case 0
  then show ?case by (simp add: breaker_ops_def breaker_new_def window_new_def)
next
  case (Suc n)
  have "replicate (Suc n) (OpOutcome 0 True 0) = replicate n (OpOutcome 0 True 0) @ [OpOutcome 0 True 0]"
    by (metis replicate_Suc replicate_append_same)
  then show ?case
    using Suc
    by (simp add: breaker_ops_def breaker_do_def record_outcome_def apply_outcome_def window_record_def
        window_snapshot_def breaker_new_def breaker_redis_def is_slow_def from_millis_def u64_add_def Let_def)
qed

theorem breaker_redis_opens_iff_witness:
  "br_state (record_outcome (breaker_redis ''r'') 7 True 0
     (breaker_ops (breaker_redis ''r'') (replicate 19 (OpOutcome 0 True 0)))) = Open"
proof -
  let ?b = "breaker_ops (breaker_redis ''r'') (replicate 19 (OpOutcome 0 True 0))"
  have b: "br_state ?b = Closed" "br_window ?b = \<lparr>w_calls = 19, w_errors = 19, w_slow_calls = 0\<rparr>"
    by (simp_all add: breaker_errors_run breaker_new_def)
  have slow: "\<not> is_slow (breaker_redis ''r'') 0"
    by (simp add: is_slow_def breaker_redis_def from_millis_def)
  show ?thesis
    using breaker_redis_opens_iff [OF refl b(1) refl, where error = True and d = 0 and now = 7]
    by (simp add: b(2) slow window_record_def Let_def u64_add_def)
qed

text \<open>
  Recovery: an open breaker refuses every call until its open period has elapsed; the first
  call after it is admitted as the probe; a good probe closes the breaker, and a failed or slow
  one opens it again for a full period.
\<close>

theorem breaker_recovery:
  assumes "br_state b = Open" and "br_opened_at b = Some t"
  shows "(now < t + br_open_duration cfg \<and> 0 < br_open_duration cfg
      \<longrightarrow> allow_request cfg now b = (False, b))
    \<and> (t + br_open_duration cfg \<le> now \<longrightarrow>
        (\<exists>p. allow_request cfg now b = (True, p) \<and>
          (\<not> error \<and> \<not> is_slow cfg d \<longrightarrow>
             allow_request cfg now'' (record_outcome cfg now' error d p)
               = (True, record_outcome cfg now' error d p)) \<and>
          (error \<or> is_slow cfg d \<longrightarrow>
             br_state (record_outcome cfg now' error d p) = Open \<and>
             br_opened_at (record_outcome cfg now' error d p) = Some now')))"
proof (intro conjI impI)
  assume "now < t + br_open_duration cfg \<and> 0 < br_open_duration cfg"
  then have "now - t < br_open_duration cfg" by linarith
  then show "allow_request cfg now b = (False, b)"
    using assms by (simp add: allow_request_def allow_fast_path_def open_elapsed_def)
next
  assume "t + br_open_duration cfg \<le> now"
  then have "br_open_duration cfg \<le> now - t" by linarith
  then obtain p where p: "allow_request cfg now b = (True, p)" "br_state p = HalfOpen"
    using assms by (auto simp: allow_request_def allow_fast_path_def open_elapsed_def try_enter_half_open_def)
  show "\<exists>p. allow_request cfg now b = (True, p) \<and>
      (\<not> error \<and> \<not> is_slow cfg d \<longrightarrow>
         allow_request cfg now'' (record_outcome cfg now' error d p)
           = (True, record_outcome cfg now' error d p)) \<and>
      (error \<or> is_slow cfg d \<longrightarrow>
         br_state (record_outcome cfg now' error d p) = Open \<and>
         br_opened_at (record_outcome cfg now' error d p) = Some now')"
    using p
    by (intro exI [of _ p])
      (auto simp: record_outcome_def apply_outcome_def window_snapshot_def Let_def intro!: allow_request_closed)
qed

theorem breaker_recovery_witness:
  "\<exists>p. allow_request (breaker_redis ''r'') (from_secs 10)
         (breaker_new\<lparr>br_state := Open, br_opened_at := Some 0\<rparr>) = (True, p)"
  using breaker_recovery [of "breaker_new\<lparr>br_state := Open, br_opened_at := Some 0\<rparr>" 0 "from_secs 10" "breaker_redis ''r''" False 0 0 0]
  by (auto simp: breaker_redis_def)

end
