(* ===== verification/Bidder_Config.thy ===== *)
theory Bidder_Config
  imports Rust_Float
begin

text \<open>
  The configuration of \<open>config/mod.rs\<close>, one record per section, with the values serde uses
  for the fields that may be missing and the lookup of a stage's latency budget. Reading the file
  and the environment (\<open>Config::load\<close>) is the figment library's work and is not modelled; the
  socket addresses are strings.
\<close>

section \<open>The sections\<close>

record postgres_config =
  pg_url :: string
  pg_max_connections :: u32
  pg_min_connections :: u32
  pg_acquire_timeout_ms :: u64
  pg_idle_timeout_secs :: u64
  pg_max_lifetime_secs :: u64

record redis_config =
  rc_url :: string
  rc_pool_size :: usize
  rc_segment_cache_capacity :: u64
  rc_segment_cache_ttl_secs :: u64

record catalog_config =
  catc_refresh_interval_secs :: u64
  catc_max_consecutive_failures :: u32

record server_config =
  srv_bind :: string
  srv_max_concurrency :: usize
  srv_warmup_enabled :: bool

datatype log_format = LogJson | LogPretty

record telemetry_config =
  tel_otlp_endpoint :: string
  tel_success_sample_rate :: flt
  tel_log_format :: log_format
  tel_service_name :: string
  tel_tail_sampling_via_collector :: bool

record metrics_config =
  met_bind :: string

record latency_budget_config =
  http_parse_ms :: u64
  request_validate_ms :: u64
  user_enrichment_ms :: u64
  candidate_retrieval_ms :: u64
  candidate_limit_ms :: u64
  scoring_ms :: u64
  frequency_cap_ms :: u64
  ranking_ms :: u64
  budget_pacing_ms :: u64
  response_build_ms :: u64
  pipeline_deadline_ms :: u64
  http_timeout_ms :: u64
  win_timeout_ms :: u64

record pipeline_config =
  max_candidates_per_imp :: usize

record freq_cap_config =
  fcc_impression_workers :: usize
  fcc_in_process_enabled :: bool
  fcc_in_process_cap_capacity :: usize
  fcc_in_process_write_buffer_size :: usize
  fcc_in_process_flush_interval_ms :: u64

definition default_in_process_cap_capacity :: usize where
  "default_in_process_cap_capacity = 500000"

definition default_in_process_write_buffer_size :: usize where
  "default_in_process_write_buffer_size = 65536"

definition default_in_process_flush_interval_ms :: u64 where
  "default_in_process_flush_interval_ms = 1000"

datatype kafka_drop_policy = Newest | Oldest | RandomSample | IncidentMode

datatype scoring_kind = FeatureWeighted | Ml | Cascade | AbTest

record ml_config =
  mlc_model_path :: string
  mlc_parity_path :: "string option"
  mlc_input_tensor_name :: string
  mlc_output_tensor_name :: string
  mlc_pool_size :: usize
  mlc_max_batch :: usize
  mlc_batch_pad_to :: usize

definition default_input_tensor_name :: string where
  "default_input_tensor_name = ''features''"

definition default_output_tensor_name :: string where
  "default_output_tensor_name = ''pctr''"

definition default_pool_size :: usize where
  "default_pool_size = 2"

definition default_max_batch :: usize where
  "default_max_batch = 64"

definition default_batch_pad_to :: usize where
  "default_batch_pad_to = 8"

record cascade_config =
  csc_stage1 :: scoring_kind
  csc_stage2 :: scoring_kind
  csc_top_k :: usize
  csc_threshold :: flt

record ab_test_config =
  abc_control :: scoring_kind
  abc_treatment :: scoring_kind
  abc_treatment_share :: flt
  abc_hash_seed :: string

record scoring_config =
  scc_kind :: scoring_kind
  scc_ml :: "ml_config option"
  scc_cascade :: "cascade_config option"
  scc_ab_test :: "ab_test_config option"

record win_notice_config =
  wnc_require_auth :: bool
  wnc_secret :: string
  wnc_secrets :: "(string, string) hmap"
  wnc_dedup_ttl_secs :: u64
  wnc_notice_base_url :: string

record kafka_config =
  kc_brokers :: string
  kc_events_topic :: string
  kc_queue_capacity :: usize
  kc_send_timeout_ms :: u64
  kc_drop_policy :: kafka_drop_policy

record config =
  cfg_server :: server_config
  cfg_telemetry :: telemetry_config
  cfg_metrics :: metrics_config
  cfg_latency_budget :: latency_budget_config
  cfg_postgres :: postgres_config
  cfg_redis :: redis_config
  cfg_catalog :: catalog_config
  cfg_pipeline :: pipeline_config
  cfg_freq_cap :: freq_cap_config
  cfg_kafka :: kafka_config
  cfg_win_notice :: win_notice_config
  cfg_scoring :: scoring_config

section \<open>Stage budgets\<close>

definition budget_for_stage :: "latency_budget_config \<Rightarrow> string \<Rightarrow> u64 option" where
  "budget_for_stage b stage_name =
     (if stage_name = ''request_validation'' then Some (request_validate_ms b)
      else if stage_name = ''user_enrichment'' then Some (user_enrichment_ms b)
      else if stage_name = ''candidate_retrieval'' then Some (candidate_retrieval_ms b)
      else if stage_name = ''candidate_limit'' then Some (candidate_limit_ms b)
      else if stage_name = ''scoring'' then Some (scoring_ms b)
      else if stage_name = ''frequency_cap'' then Some (frequency_cap_ms b)
      else if stage_name = ''ranking'' then Some (ranking_ms b)
      else if stage_name = ''budget_pacing'' then Some (budget_pacing_ms b)
      else if stage_name = ''response_build'' then Some (response_build_ms b)
      else None)"

end
