(* ===== verification/Bid_Context.thy ===== *)
theory Bid_Context
  imports Catalog Circuit_Breaker Bidder_Config
begin

text \<open>
  The per-request context of \<open>model/context.rs\<close>, the stage trait of \<open>pipeline/stage.rs\<close> and
  the pipeline of \<open>pipeline/mod.rs\<close>. A stage is a name and a function on the context and on the
  state of the services the stages share. The clock is an argument: \<open>now i\<close> is the instant at
  which the deadline is checked before stage \<open>i\<close>. Tracing spans and metrics are left out.

  The locale \<open>pipeline_phases\<close> is the contract of the stages of a pipeline: what holds of context
  and services before each stage, and hence at the end of every run.
\<close>

section \<open>The context\<close>

datatype pipeline_outcome = Pending | NoBid no_bid_reason | Bid

record 'b bid_context =
  ctx_request :: bid_request
  ctx_started_at :: instant
  ctx_outcome :: pipeline_outcome
  ctx_segment_ids :: "segment_id list"
  ctx_catalog :: "'b campaign_catalog option"
  ctx_candidates :: "ad_candidate list list"
  ctx_winners :: "imp_winner list"
  ctx_freq_cap_results :: "(usize \<times> u32 \<times> bool) list"
  ctx_bid_response :: "bid_response option"

definition bid_context_new :: "bid_request \<Rightarrow> instant \<Rightarrow> 'b bid_context" where
  "bid_context_new request started =
     (let imp_count = length (req_imp request) in
      \<lparr>ctx_request = request, ctx_started_at = started, ctx_outcome = Pending,
       ctx_segment_ids = [], ctx_catalog = None,
       ctx_candidates = replicate (max imp_count 1) [], ctx_winners = [],
       ctx_freq_cap_results = [], ctx_bid_response = None\<rparr>)"

text \<open>\<open>Duration::as_secs_f64\<close>: whole seconds and the nanoseconds of the rest, each rounded.\<close>

definition as_secs_f64 :: "duration \<Rightarrow> flt" where
  "as_secs_f64 d =
     flt_add binary64 (flt_of_int binary64 (int (d div 1000000000)))
       (flt_div binary64 (flt_of_int binary64 (int (d mod 1000000000))) (flt_of_int binary64 1000000000))"

definition elapsed_ms :: "'b bid_context \<Rightarrow> instant \<Rightarrow> u64" where
  "elapsed_ms ctx now =
     flt_as_u64 (flt_mul binary64 (as_secs_f64 (now - ctx_started_at ctx)) (flt_of_int binary64 1000))"

text \<open>The user id of the request, \<open>user.as_ref().and_then(|u| u.id.as_deref())\<close>.\<close>

definition request_user_id :: "bid_request \<Rightarrow> string option" where
  "request_user_id req = Option.bind (req_user req) user_id"

text \<open>The device type of the request, if it names one.\<close>

definition request_device_type :: "bid_request \<Rightarrow> device_type option" where
  "request_device_type req = Option.bind (req_device req) dev_devicetype"

fun device_type_raw :: "device_type \<Rightarrow> u8" where
  "device_type_raw (DeviceType v) = v"

section \<open>Stages and the pipeline\<close>

record ('b, 'w) stage =
  st_name :: string
  st_execute :: "'b bid_context \<Rightarrow> 'w \<Rightarrow> unit anyhow \<times> 'b bid_context \<times> 'w"

fun is_no_bid :: "pipeline_outcome \<Rightarrow> bool" where
  "is_no_bid (NoBid r) = True"
| "is_no_bid p = False"

record ('b, 'w) pipeline =
  pl_stages :: "('b, 'w) stage list"
  pl_budget :: latency_budget_config

definition pipeline_new :: "latency_budget_config \<Rightarrow> ('b, 'w) pipeline" where
  "pipeline_new budget = \<lparr>pl_stages = [], pl_budget = budget\<rparr>"

definition add_stage :: "('b, 'w) stage \<Rightarrow> ('b, 'w) pipeline \<Rightarrow> ('b, 'w) pipeline" where
  "add_stage s p = p\<lparr>pl_stages := pl_stages p @ [s]\<rparr>"

text \<open>
  The loop over the stages from the one with index \<open>i\<close> on. An error of a stage is returned after
  its effects; a no-bid outcome ends the loop; a bid does not.
\<close>

fun execute_from ::
  "u64 \<Rightarrow> (nat \<Rightarrow> instant) \<Rightarrow> nat \<Rightarrow> ('b, 'w) stage list \<Rightarrow> 'b bid_context \<Rightarrow> 'w
   \<Rightarrow> unit anyhow \<times> 'b bid_context \<times> 'w" where
  "execute_from deadline_ms now i [] ctx w = (Inr (), ctx, w)"
| "execute_from deadline_ms now i (s # ss) ctx w =
     (if deadline_ms \<le> elapsed_ms ctx (now i)
      then (Inr (), ctx\<lparr>ctx_outcome := NoBid PIPELINE_DEADLINE\<rparr>, w)
      else
       (let (result, ctx1, w1) = st_execute s ctx w in
        case result of
          Inl e \<Rightarrow> (Inl e, ctx1, w1)
        | Inr _ \<Rightarrow>
            (if is_no_bid (ctx_outcome ctx1) then (Inr (), ctx1, w1)
             else execute_from deadline_ms now (Suc i) ss ctx1 w1)))"

definition pipeline_execute ::
  "(nat \<Rightarrow> instant) \<Rightarrow> ('b, 'w) pipeline \<Rightarrow> 'b bid_context \<Rightarrow> 'w \<Rightarrow> unit anyhow \<times> 'b bid_context \<times> 'w" where
  "pipeline_execute now p ctx w =
     execute_from (pipeline_deadline_ms (pl_budget p)) now 0 (pl_stages p) ctx w"

text \<open>The services the stages share, as states: the published catalog, the segment cache and
  repository, the scorer, the frequency capper and the pacer.\<close>

record ('b, 'r, 's, 'f, 'p) services =
  sv_catalog :: "'b campaign_catalog"
  sv_segments :: 'r
  sv_scorer :: 's
  sv_capper :: 'f
  sv_pacer :: 'p

section \<open>What a run keeps\<close>

lemma is_no_bid_iff: "is_no_bid p \<longleftrightarrow> (\<exists>r. p = NoBid r)"
  by (cases p) auto

text \<open>One stage of a run, for runs that are followed stage by stage.\<close>

lemma execute_from_cases:
  assumes "execute_from dl now i (s # ss) ctx w = (r, ctx', w')"
  obtains (dropped) "dl \<le> elapsed_ms ctx (now i)" "r = Inr ()" "w' = w"
      "ctx' = ctx\<lparr>ctx_outcome := NoBid PIPELINE_DEADLINE\<rparr>"
  | (failed) e where "elapsed_ms ctx (now i) < dl" "st_execute s ctx w = (Inl e, ctx', w')" "r = Inl e"
  | (stopped) reason where "elapsed_ms ctx (now i) < dl" "st_execute s ctx w = (Inr (), ctx', w')" "r = Inr ()"
      "ctx_outcome ctx' = NoBid reason"
  | (went_on) ctx1 w1 where "elapsed_ms ctx (now i) < dl" "st_execute s ctx w = (Inr (), ctx1, w1)"
      "\<not> is_no_bid (ctx_outcome ctx1)" "execute_from dl now (Suc i) ss ctx1 w1 = (r, ctx', w')"
proof -
  obtain r1 ctx1 w1 where s: "st_execute s ctx w = (r1, ctx1, w1)" by (cases "st_execute s ctx w")
  show thesis
  proof (cases "dl \<le> elapsed_ms ctx (now i)")
    case True
    then show ?thesis using assms by (intro dropped) auto
  next
    case False
    then show ?thesis
      using assms s stopped [of _] failed [of _] went_on [of ctx1 w1]
      by (cases r1) (auto simp: is_no_bid_iff not_le split: if_splits)
  qed
qed

text \<open>
  How a run can end when \<open>I k\<close> holds before stage \<open>k\<close>: after the last stage, at a deadline,
  with the error of a stage, or with a stage's decision not to bid.
\<close>

inductive run_ends ::
  "('b, 'w) stage list \<Rightarrow> (nat \<Rightarrow> 'b bid_context \<Rightarrow> 'w \<Rightarrow> bool) \<Rightarrow> unit anyhow \<Rightarrow> 'b bid_context \<Rightarrow> 'w \<Rightarrow> bool"
  for stages I where
  finished: "I (length stages) ctx w \<Longrightarrow> run_ends stages I (Inr ()) ctx w"
| dropped: "n < length stages \<Longrightarrow> I n ctx w \<Longrightarrow>
    run_ends stages I (Inr ()) (ctx\<lparr>ctx_outcome := NoBid PIPELINE_DEADLINE\<rparr>) w"
| failed: "n < length stages \<Longrightarrow> I n ctx w \<Longrightarrow> st_execute (stages ! n) ctx w = (Inl e, ctx', w') \<Longrightarrow>
    run_ends stages I (Inl e) ctx' w'"
| stopped: "n < length stages \<Longrightarrow> I n ctx w \<Longrightarrow> st_execute (stages ! n) ctx w = (Inr (), ctx', w') \<Longrightarrow>
    is_no_bid (ctx_outcome ctx') \<Longrightarrow> run_ends stages I (Inr ()) ctx' w'"

text \<open>
  The contract of a list of stages: every stage that lets the run go on establishes what the next
  one starts from.
\<close>

locale pipeline_phases =
  fixes stages :: "('b, 'w) stage list" and I :: "nat \<Rightarrow> 'b bid_context \<Rightarrow> 'w \<Rightarrow> bool"
  assumes phase: "k < length stages \<Longrightarrow> I k ctx w \<Longrightarrow> st_execute (stages ! k) ctx w = (Inr (), ctx', w') \<Longrightarrow>
    \<not> is_no_bid (ctx_outcome ctx') \<Longrightarrow> I (Suc k) ctx' w'"
begin

lemma execute_from_ends:
  assumes "execute_from dl now k (drop k stages) ctx w = (r, ctx', w')" "k \<le> length stages" "I k ctx w"
  shows "run_ends stages I r ctx' w'"
  using assms
proof (induction "length stages - k" arbitrary: k ctx w)
  case 0
  then have "k = length stages" by simp
  then show ?case using "0.prems" finished [of I stages ctx w] by simp
next
  case (Suc d)
  then have k: "k < length stages" "drop k stages = stages ! k # drop (Suc k) stages" by (auto simp: Cons_nth_drop_Suc)
  from Suc.prems(1) [unfolded k(2)] show ?case
  proof (cases rule: execute_from_cases)
    case (went_on ctx1 w1)
    have "d = length stages - Suc k" using Suc.hyps(2) by simp
    then show ?thesis using Suc.hyps(1) went_on(4) k(1) phase [OF k(1) Suc.prems(3) went_on(2,3)] by simp
  next
    case dropped
    then show ?thesis using run_ends.dropped [OF k(1), of I] Suc.prems(3) by simp
  next
    case (failed e)
    then show ?thesis using run_ends.failed [OF k(1), of I] Suc.prems(3) by simp
  next
    case (stopped reason)
    then show ?thesis using run_ends.stopped [OF k(1), of I] Suc.prems(3) by simp
  qed
qed

lemma pipeline_ends:
  assumes "pipeline_execute now p ctx w = (r, ctx', w')" "pl_stages p = stages" "I 0 ctx w"
  shows "run_ends stages I r ctx' w'"
  using execute_from_ends [of _ now 0] assms by (simp add: pipeline_execute_def)

end

end
