(* ===== verification/Hedging.thy ===== *)
theory Hedging
  imports Circuit_Breaker
begin

text \<open>
  Request hedging: the token bucket and \<open>hedged_call\<close> of \<open>hedge.rs\<close>, and the trackers
  and feedback loop of \<open>hedge_feedback.rs\<close>.

  The compare-and-exchange loop of \<open>try_consume\<close> runs against a list of values that other
  threads leave in the counter; the lemma after it says that it takes effect at one atomic
  decrement, which is what the sequential operation does. \<open>hedged_call\<close> is a function of
  the completion times of the two attempts; a caller that drops the future at its own deadline is
  the second function. The feedback loop is one function per tick.
\<close>

section \<open>The token bucket\<close>

record hedge_budget =
  hb_tokens :: u64
  hb_nominal :: u64
  hb_effective_cap :: u64

definition hedge_budget_new :: "u64 \<Rightarrow> hedge_budget" where
  "hedge_budget_new capacity = \<lparr>hb_tokens = capacity, hb_nominal = capacity, hb_effective_cap = capacity\<rparr>"

text \<open>
  Every attempt of the loop meets the shared value \<open>seen\<close> and may fail spuriously. The
  result is the answer and the value left in the counter; None when the list ends first.
\<close>

fun try_consume_loop :: "(u64 \<times> bool) list \<Rightarrow> u64 \<Rightarrow> (bool \<times> u64) option" where
  "try_consume_loop [] current = (if current = 0 then Some (False, current) else None)"
| "try_consume_loop ((seen, spurious) # rest) current =
     (if current = 0 then Some (False, current)
      else if seen = current \<and> \<not> spurious then Some (True, current - 1)
      else try_consume_loop rest seen)"

definition try_consume :: "hedge_budget \<Rightarrow> bool \<times> hedge_budget" where
  "try_consume b = (if hb_tokens b = 0 then (False, b) else (True, b\<lparr>hb_tokens := hb_tokens b - 1\<rparr>))"

definition restore :: "hedge_budget \<Rightarrow> hedge_budget" where
  "restore b =
     (let b1 = b\<lparr>hb_tokens := u64_add (hb_tokens b) 1\<rparr>;
          new = u64_add (hb_tokens b) 1; cap = hb_effective_cap b
      in if cap < new then b1\<lparr>hb_tokens := min (hb_tokens b1) cap\<rparr> else b1)"

definition effective_for :: "u64 \<Rightarrow> flt \<Rightarrow> u64" where
  "effective_for nominal shed_rate =
     (if flt_gt shed_rate (flt_lit binary64 5 100) then 0
      else if flt_gt shed_rate (flt_lit binary64 1 100)
      then flt_as_u64 (flt_mul binary64 (flt_of_int binary64 (int nominal)) (flt_lit binary64 2 10))
      else nominal)"

definition set_load_shed_rate :: "flt \<Rightarrow> hedge_budget \<Rightarrow> hedge_budget" where
  "set_load_shed_rate shed_rate b =
     (let effective = effective_for (hb_nominal b) shed_rate
      in b\<lparr>hb_effective_cap := effective, hb_tokens := min (hb_tokens b) effective\<rparr>)"

section \<open>Hedged calls\<close>

text \<open>
  \<open>r1\<close> is ready at \<open>t1\<close>, \<open>r2\<close> is ready \<open>t2\<close> after the hedge started; \<open>is_closed\<close>
  is what \<open>is_closed_sync\<close> returns at the trigger. The inner \<open>select!\<close> polls in random
  order: \<open>first_on_tie\<close> decides when both are ready. The result is the value, the time it is
  there, and the budget.
\<close>

definition hedged_call ::
  "'t \<Rightarrow> duration \<Rightarrow> 't \<Rightarrow> duration \<Rightarrow> duration \<Rightarrow> bool \<Rightarrow> bool \<Rightarrow> hedge_budget \<Rightarrow> 't \<times> duration \<times> hedge_budget" where
  "hedged_call r1 t1 r2 t2 trigger is_closed first_on_tie budget =
     (if t1 \<le> trigger then (r1, t1, budget)
      else
       (let (hedge_allowed, budget1) = (if is_closed then try_consume budget else (False, budget)) in
        if \<not> hedge_allowed then (r1, t1, budget1)
        else if t1 < trigger + t2 \<or> (t1 = trigger + t2 \<and> first_on_tie)
        then (r1, t1, restore budget1)
        else (r2, trigger + t2, restore budget1)))"

text \<open>The budget when the caller drops the call at time \<open>drop_at\<close>, before it has a result.\<close>

definition hedged_call_dropped :: "duration \<Rightarrow> duration \<Rightarrow> bool \<Rightarrow> hedge_budget \<Rightarrow> hedge_budget" where
  "hedged_call_dropped drop_at trigger is_closed budget =
     (if drop_at < trigger then budget
      else snd (if is_closed then try_consume budget else (False, budget)))"

record redis_hedge_state =
  rh_budget :: hedge_budget
  rh_p95_ms :: u64

definition redis_hedge_state_new :: "u64 \<Rightarrow> redis_hedge_state" where
  "redis_hedge_state_new nominal_budget_tokens =
     \<lparr>rh_budget = hedge_budget_new nominal_budget_tokens, rh_p95_ms = 0\<rparr>"

definition update_p95 :: "u64 \<Rightarrow> redis_hedge_state \<Rightarrow> redis_hedge_state" where
  "update_p95 ms h = h\<lparr>rh_p95_ms := ms\<rparr>"

definition hedge_trigger :: "redis_hedge_state \<Rightarrow> duration" where
  "hedge_trigger h = from_millis (max (rh_p95_ms h) 8)"

section \<open>Feedback\<close>

record load_shed_tracker =
  ls_requests_total :: u64
  ls_shed_total :: u64

definition record_request :: "load_shed_tracker \<Rightarrow> load_shed_tracker" where
  "record_request t = t\<lparr>ls_requests_total := u64_add (ls_requests_total t) 1\<rparr>"

definition record_shed :: "load_shed_tracker \<Rightarrow> load_shed_tracker" where
  "record_shed t = t\<lparr>ls_shed_total := u64_add (ls_shed_total t) 1\<rparr>"

definition shed_snapshot :: "load_shed_tracker \<Rightarrow> u64 \<times> u64" where
  "shed_snapshot t = (ls_requests_total t, ls_shed_total t)"

record redis_latency_tracker =
  rl_count :: u64
  rl_sum_us :: u64

definition latency_record :: "duration \<Rightarrow> redis_latency_tracker \<Rightarrow> redis_latency_tracker" where
  "latency_record d t =
     (let us = (d div 1000) mod 2 ^ 64
      in t\<lparr>rl_count := u64_add (rl_count t) 1, rl_sum_us := u64_add (rl_sum_us t) us\<rparr>)"

definition latency_drain :: "redis_latency_tracker \<Rightarrow> (u64 \<times> u64) \<times> redis_latency_tracker" where
  "latency_drain t = ((rl_count t, rl_sum_us t), t\<lparr>rl_count := 0, rl_sum_us := 0\<rparr>)"

record feedback_state =
  fb_prev_total :: u64
  fb_prev_shed :: u64
  fb_last_tick :: "instant option"
  fb_drift_log_counter :: u64

definition feedback_init :: feedback_state where
  "feedback_init = \<lparr>fb_prev_total = 0, fb_prev_shed = 0, fb_last_tick = None, fb_drift_log_counter = 0\<rparr>"

definition shed_rate_of :: "u64 \<Rightarrow> u64 \<Rightarrow> flt" where
  "shed_rate_of delta_shed delta_total = (if 0 < delta_total then rate delta_shed delta_total else flt_lit binary64 0 1)"

definition p95_of :: "u64 \<Rightarrow> u64 \<Rightarrow> u64" where
  "p95_of cnt sum_us =
     (let mean_us = rate sum_us cnt
      in flt_as_u64 (flt_ceil (flt_div binary64 (flt_mul binary64 mean_us (flt_lit binary64 17 10))
                                 (flt_of_int binary64 1000))))"

text \<open>
  One turn of the loop at time \<open>now\<close>; the drift threshold is computed before the loop.
\<close>

definition feedback_tick ::
  "duration \<Rightarrow> instant \<Rightarrow> load_shed_tracker \<Rightarrow> feedback_state \<times> redis_hedge_state \<times> redis_latency_tracker
   \<Rightarrow> feedback_state \<times> redis_hedge_state \<times> redis_latency_tracker" where
  "feedback_tick drift_threshold now shed st =
     (case st of (fb, hedge, lat) \<Rightarrow>
      let drifted = (case fb_last_tick fb of None \<Rightarrow> False | Some prev \<Rightarrow> drift_threshold < now - prev);
          fb1 = (if drifted then fb\<lparr>fb_drift_log_counter := u64_add (fb_drift_log_counter fb) 1\<rparr> else fb);
          fb2 = fb1\<lparr>fb_last_tick := Some now\<rparr>;
          (cur_total, cur_shed) = shed_snapshot shed;
          delta_total = cur_total - fb_prev_total fb2;
          delta_shed = cur_shed - fb_prev_shed fb2;
          fb3 = fb2\<lparr>fb_prev_total := cur_total, fb_prev_shed := cur_shed\<rparr>;
          hedge1 = hedge\<lparr>rh_budget := set_load_shed_rate (shed_rate_of delta_shed delta_total) (rh_budget hedge)\<rparr>;
          ((cnt, sum_us), lat1) = latency_drain lat
      in (fb3, if 0 < cnt then update_p95 (p95_of cnt sum_us) hedge1 else hedge1, lat1))"

section \<open>The bucket as callers use it\<close>

text \<open>
  A history of the bucket: a call that got a token gives it back once, or never if its future
  was dropped. \<open>hh_out\<close> counts the calls that hold a token and will give it back.
\<close>

record hedge_history =
  hh_budget :: hedge_budget
  hh_out :: nat

datatype hedge_event = HbConsume | HbRestore | HbDrop | HbRate flt

inductive hedge_step :: "hedge_history \<Rightarrow> hedge_event \<Rightarrow> hedge_history \<Rightarrow> bool" where
  grant: "try_consume (hh_budget s) = (True, b) \<Longrightarrow>
    hedge_step s HbConsume \<lparr>hh_budget = b, hh_out = hh_out s + 1\<rparr>"
| deny: "try_consume (hh_budget s) = (False, b) \<Longrightarrow>
    hedge_step s HbConsume (s\<lparr>hh_budget := b\<rparr>)"
| give_back: "0 < hh_out s \<Longrightarrow>
    hedge_step s HbRestore \<lparr>hh_budget = restore (hh_budget s), hh_out = hh_out s - 1\<rparr>"
| drop: "0 < hh_out s \<Longrightarrow> hedge_step s HbDrop (s\<lparr>hh_out := hh_out s - 1\<rparr>)"
| feedback: "hedge_step s (HbRate r) (s\<lparr>hh_budget := set_load_shed_rate r (hh_budget s)\<rparr>)"

inductive hedge_run :: "hedge_history \<Rightarrow> hedge_event list \<Rightarrow> hedge_history \<Rightarrow> bool" where
  start: "hedge_run s [] s"
| step: "hedge_run s evs s' \<Longrightarrow> hedge_step s' ev s'' \<Longrightarrow> hedge_run s (evs @ [ev]) s''"

definition hedge_inv :: "hedge_budget \<Rightarrow> bool" where
  "hedge_inv b \<longleftrightarrow> hb_tokens b \<le> hb_effective_cap b \<and> hb_effective_cap b \<le> hb_nominal b \<and> hb_nominal b \<le> 2 ^ 53"

section \<open>Lemmas\<close>

text \<open>The loop is linearised at its last attempt: it takes one token from the value it met there,
  or found the bucket empty.\<close>

lemma try_consume_loop_linear:
  assumes "try_consume_loop attempts current = Some (r, left)"
  shows "(r \<longrightarrow> left + 1 \<in> insert current (fst ` set attempts) \<and> (left + 1, False) \<in> set attempts)
    \<and> (\<not> r \<longrightarrow> left = 0 \<and> 0 \<in> insert current (fst ` set attempts))"
  using assms
  by (induction attempts current rule: try_consume_loop.induct) (fastforce split: if_splits)+

text \<open>Without interference the loop is the sequential operation.\<close>

lemma try_consume_loop_sequential:
  "try_consume_loop [(hb_tokens b, False)] (hb_tokens b)
     = Some (fst (try_consume b), hb_tokens (snd (try_consume b)))"
  by (simp add: try_consume_def)

lemma fifth_le_self:
  assumes "n \<le> 2 ^ 53"
  shows "flt_as_u64 (flt_mul binary64 (flt_of_int binary64 (int n)) (flt_lit binary64 2 10)) \<le> n"
proof -
  have n: "flt_of_int binary64 (int n) = mk_num (int n) 0" using assms by (simp add: f64_int_exact)
  have fifth: "flt_lit binary64 2 10 = Num 3602879701896397 (- 54)" by code_simp
  obtain m e where x: "flt_mul binary64 (mk_num (int n) 0) (Num 3602879701896397 (- 54)) = rnd binary64 m 1 e"
    "exact m 1 e = of_nat n * (3602879701896397 * 2 powi (- 54))"
    using flt_mul_rnd [of "mk_num (int n) 0" "Num 3602879701896397 (- 54)" binary64] by auto
  have c: "(3602879701896397 * 2 powi (- 54) :: rat) = 3602879701896397 / 18014398509481984"
    by (simp add: power_int_def power_one_over)
  have le: "exact m 1 e \<le> exact (int n) 1 0" and ge: "exact 0 1 0 \<le> exact m 1 e"
    unfolding x(2) c by (simp_all add: exact_def)
  have "rnd binary64 (int n) 1 0 = mk_num (int n) 0" using n by (simp add: flt_of_int_def)
  then have hi: "fkey (rnd binary64 m 1 e) \<le> (0, of_nat n)"
    using rnd_mono [OF wf_binary(2) _ _ le] by simp
  have lo: "(0, 0) \<le> fkey (rnd binary64 m 1 e)"
    using rnd_mono [OF wf_binary(2) _ _ ge] by (simp add: rnd_def)
  obtain m' e' where r: "rnd binary64 m 1 e = Num m' e'"
    using is_num_between(1) [OF _ lo hi] by (auto elim: is_numE)
  have v: "of_int m' * pow2 e' \<le> of_nat n" using hi by (simp add: r)
  have "(of_int (num_floor m' e') :: rat) \<le> of_int m' * pow2 e'"
  proof (cases "0 \<le> e'")
    case True
    then show ?thesis by (simp add: num_floor_def pow2_nat)
  next
    case False
    have "(of_int (m' div 2 ^ nat (- e')) :: rat) \<le> of_int m' / of_int (2 ^ nat (- e'))"
      using floor_divide_of_int_eq [of m' "2 ^ nat (- e')", where ?'a = rat] of_int_floor_le by metis
    then show ?thesis using False by (simp add: num_floor_def pow2_neg)
  qed
  then have "(of_int (num_floor m' e') :: rat) \<le> of_int (int n)" using v by simp
  then have "num_floor m' e' \<le> int n" by (simp only: of_int_le_iff)
  then show ?thesis by (simp add: n fifth x r min_le_iff_disj nat_le_iff)
qed

lemma effective_for_le: "nominal \<le> 2 ^ 53 \<Longrightarrow> effective_for nominal r \<le> nominal"
  using fifth_le_self [of nominal] by (simp add: effective_for_def)

lemma hedge_inv_ops:
  assumes "hedge_inv b"
  shows "hedge_inv (snd (try_consume b))" and "hedge_inv (restore b)" and "hedge_inv (set_load_shed_rate r b)"
proof -
  show "hedge_inv (snd (try_consume b))" using assms by (auto simp: hedge_inv_def try_consume_def)
  have "hb_tokens b + 1 < 2 ^ 64" using assms by (simp add: hedge_inv_def)
  then show "hedge_inv (restore b)"
    using assms by (simp add: hedge_inv_def restore_def Let_def u64_add_small)
  show "hedge_inv (set_load_shed_rate r b)"
    using assms effective_for_le [of "hb_nominal b" r]
    by (simp add: hedge_inv_def set_load_shed_rate_def Let_def)
qed

lemma hedge_inv_consume: "try_consume b = (r, b') \<Longrightarrow> hedge_inv b \<Longrightarrow> hedge_inv b'"
  by (metis hedge_inv_ops(1) snd_conv)

lemma hedge_step_inv:
  assumes "hedge_step s ev s'" "hedge_inv (hh_budget s)"
  shows "hedge_inv (hh_budget s')"
  using assms by cases (auto simp: hedge_inv_ops dest: hedge_inv_consume)

lemma hedge_run_inv: "hedge_run s evs s' \<Longrightarrow> hedge_inv (hh_budget s) \<Longrightarrow> hedge_inv (hh_budget s')"
  by (induction rule: hedge_run.induct) (auto dest: hedge_step_inv)

lemma restore_after_consume:
  assumes "hedge_inv b" "try_consume b = (True, b1)"
  shows "restore b1 = b"
  using assms by (auto simp: try_consume_def restore_def hedge_inv_def Let_def u64_add_small split: if_splits)

text \<open>Tokens in the bucket and tokens held by calls: no step makes their number grow.\<close>

lemma restore_tokens: "hb_tokens (restore b) \<le> hb_tokens b + 1"
  using mod_less_eq_dividend [of "hb_tokens b + 1" "2 ^ 64"] by (auto simp: restore_def Let_def u64_add_def)

lemma hedge_step_tokens:
  assumes "hedge_step s ev s'"
  shows "hb_tokens (hh_budget s') + hh_out s' \<le> hb_tokens (hh_budget s) + hh_out s"
  using assms
proof cases
  case give_back
  then show ?thesis using restore_tokens [of "hh_budget s"] by simp
qed (auto simp: try_consume_def set_load_shed_rate_def Let_def split: if_splits)

lemma hedge_run_tokens:
  assumes "hedge_run s evs s'"
  shows "hb_tokens (hh_budget s') + hh_out s' \<le> hb_tokens (hh_budget s) + hh_out s"
  using assms by (induction rule: hedge_run.induct) (auto dest: hedge_step_tokens)

lemma rate_gt_lit:
  assumes "0 < calls" "calls \<le> 2 ^ 53" "n \<le> 2 ^ 53" and "6 * calls \<le> 100 * n"
  shows "flt_gt (rate n calls) (flt_lit binary64 5 100)"
proof -
  obtain a d e where r: "0 < d" "rate n calls = rnd binary64 a d e" "exact a d e = of_nat n / of_nat calls"
    using rate_rnd [OF assms(1-3)] by blast
  have "(of_nat (6 * calls) :: rat) \<le> of_nat (100 * n)" using assms(4) by (simp only: of_nat_le_iff)
  then have "exact 6 100 0 \<le> exact a d e"
    using assms(1) by (simp add: r(3)) (simp add: exact_def field_simps)
  then have ge: "fkey (flt_lit binary64 6 100) \<le> fkey (rate n calls)"
    using rnd_mono [OF wf_binary(2), of 100 d 6 0 a e] r by (simp add: flt_lit_def)
  have "flt_gt (flt_lit binary64 6 100) (flt_lit binary64 5 100)" by code_simp
  then have "fkey (flt_lit binary64 5 100) < fkey (flt_lit binary64 6 100)"
    by (simp add: flt_gt_fkey flt_lit_def)
  then have "fkey (flt_lit binary64 5 100) < fkey (rate n calls)" using ge by (rule order_less_le_trans)
  then show ?thesis using r(2) by (simp add: flt_gt_fkey flt_lit_def)
qed

section \<open>Properties\<close>

text \<open>
  C30. Hedging never slows a call down and gives its token back: the result is there no later than
  the first attempt's; a hedge fires exactly when the trigger has passed, the breaker is closed and
  a token is left, and then the earlier of the two attempts is returned; the bucket is the same
  afterwards as before.
\<close>

theorem hedged_call_contract:
  assumes "hedge_inv budget"
    and "hedged_call r1 t1 r2 t2 trigger is_closed first_on_tie budget = (v, t, budget')"
  shows "t \<le> t1 \<and> budget' = budget \<and>
    (if trigger < t1 \<and> is_closed \<and> 0 < hb_tokens budget
     then t = min t1 (trigger + t2) \<and> (v = r1 \<and> t = t1 \<or> v = r2 \<and> t = trigger + t2)
     else v = r1 \<and> t = t1)"
proof (cases "trigger < t1 \<and> is_closed \<and> 0 < hb_tokens budget")
  case True
  obtain b1 where b1: "try_consume budget = (True, b1)"
    using True by (auto simp: try_consume_def)
  have "restore b1 = budget" using restore_after_consume [OF assms(1) b1] .
  then show ?thesis using True assms(2) b1 by (auto simp: hedged_call_def split: if_splits)
next
  case False
  then have "v = r1 \<and> t = t1 \<and> budget' = budget"
    using assms(2) by (auto simp: hedged_call_def try_consume_def split: if_splits)
  then show ?thesis using False by auto
qed

theorem hedged_call_contract_witness:
  "hedged_call ''slow'' 50 ''fast'' 3 8 True False (hedge_budget_new 2) = (''fast'', 11, hedge_budget_new 2)"
proof -
  have inv: "hedge_inv (hedge_budget_new 2)" by (simp add: hedge_inv_def hedge_budget_new_def)
  obtain v t b where c: "hedged_call ''slow'' 50 ''fast'' 3 8 True False (hedge_budget_new 2) = (v, t, b)"
    by (cases "hedged_call ''slow'' 50 ''fast'' 3 8 True False (hedge_budget_new 2)")
  show ?thesis
    using hedged_call_contract [OF inv c] c by (auto simp: hedge_budget_new_def)
qed

text \<open>
  The bucket stays within its capacity: after any history of grants, restores, dropped calls
  and feedback from a fresh bucket, the tokens are at most the effective capacity and the effective
  capacity is at most the nominal one.
\<close>

theorem hedge_budget_bounded:
  assumes "capacity \<le> 2 ^ 53" and "hedge_run \<lparr>hh_budget = hedge_budget_new capacity, hh_out = 0\<rparr> evs s"
  shows "hb_tokens (hh_budget s) \<le> hb_effective_cap (hh_budget s) \<and>
    hb_effective_cap (hh_budget s) \<le> hb_nominal (hh_budget s)"
proof -
  have "hedge_inv (hedge_budget_new capacity)" using assms(1) by (simp add: hedge_inv_def hedge_budget_new_def)
  then show ?thesis using hedge_run_inv [OF assms(2)] by (simp add: hedge_inv_def)
qed

lemma hedge_grant_run:
  "hedge_run \<lparr>hh_budget = hedge_budget_new 5, hh_out = 0\<rparr> [HbConsume]
     \<lparr>hh_budget = (hedge_budget_new 5)\<lparr>hb_tokens := 4\<rparr>, hh_out = 1\<rparr>"
proof -
  have "hedge_step \<lparr>hh_budget = hedge_budget_new 5, hh_out = 0\<rparr> HbConsume
      \<lparr>hh_budget = (hedge_budget_new 5)\<lparr>hb_tokens := 4\<rparr>, hh_out = 1\<rparr>"
    using hedge_step.grant [of "\<lparr>hh_budget = hedge_budget_new 5, hh_out = 0\<rparr>" "(hedge_budget_new 5)\<lparr>hb_tokens := 4\<rparr>"]
    by (simp add: try_consume_def hedge_budget_new_def)
  from hedge_run.step [OF hedge_run.start this] show ?thesis by simp
qed

theorem hedge_budget_bounded_witness:
  "\<exists>s. hedge_run \<lparr>hh_budget = hedge_budget_new 5, hh_out = 0\<rparr> [HbConsume] s \<and> hb_tokens (hh_budget s) \<le> 5"
  using hedge_budget_bounded [OF _ hedge_grant_run] hedge_grant_run by force

text \<open>
  C38. Hedging does not recover from load shedding. Take any tick of the feedback loop in whose
  interval at least 6 percent of the requests were shed, and let \<open>in_flight\<close> be the number of hedges
  in flight at that moment. In every later history of the bucket, whatever rates later ticks report,
  the tokens in the bucket and in use are together at most \<open>in_flight\<close>, where before they could
  be as many as the nominal capacity. If no hedge was in flight, no call ever gets a token again.
\<close>

theorem hedge_never_recovers:
  assumes "fb_prev_total fb < requests" and "requests - fb_prev_total fb \<le> 2 ^ 53" and "shed - fb_prev_shed fb \<le> 2 ^ 53"
    and "6 * (requests - fb_prev_total fb) \<le> 100 * (shed - fb_prev_shed fb)"
    and "feedback_tick thr now \<lparr>ls_requests_total = requests, ls_shed_total = shed\<rparr> (fb, h, lat) = (fb', h', lat')"
    and "hedge_run \<lparr>hh_budget = rh_budget h', hh_out = in_flight\<rparr> evs s"
  shows "hb_tokens (hh_budget s) + hh_out s \<le> in_flight \<and> (in_flight = 0 \<longrightarrow> fst (try_consume (hh_budget s)) = False)"
proof -
  have "flt_gt (shed_rate_of (shed - fb_prev_shed fb) (requests - fb_prev_total fb)) (flt_lit binary64 5 100)"
    using rate_gt_lit [of "requests - fb_prev_total fb" "shed - fb_prev_shed fb"] assms(1-4) by (simp add: shed_rate_of_def)
  then have "hb_tokens (rh_budget h') = 0"
    using assms(5)
    by (auto simp: feedback_tick_def shed_snapshot_def latency_drain_def update_p95_def
        set_load_shed_rate_def effective_for_def Let_def split: if_splits option.splits)
  then have "hb_tokens (hh_budget s) + hh_out s \<le> in_flight"
    using hedge_run_tokens [OF assms(6)] by simp
  then show ?thesis by (auto simp: try_consume_def)
qed

text \<open>The second tick sheds 10 of 100 requests; later ones report that nothing was shed.\<close>

theorem hedge_never_recovers_witness:
  "\<exists>fb h lat. feedback_tick 0 9 \<lparr>ls_requests_total = 300, ls_shed_total = 10\<rparr>
       (\<lparr>fb_prev_total = 200, fb_prev_shed = 0, fb_last_tick = Some 4, fb_drift_log_counter = 0\<rparr>, redis_hedge_state_new 5,
        \<lparr>rl_count = 0, rl_sum_us = 0\<rparr>) = (fb, h, lat) \<and>
     fst (try_consume (set_load_shed_rate (Num 0 0) (rh_budget h))) = False"
proof -
  let ?fb = "\<lparr>fb_prev_total = 200, fb_prev_shed = 0, fb_last_tick = Some 4, fb_drift_log_counter = 0\<rparr>"
  obtain fb h lat where t: "feedback_tick 0 9 \<lparr>ls_requests_total = 300, ls_shed_total = 10\<rparr>
       (?fb, redis_hedge_state_new 5, \<lparr>rl_count = 0, rl_sum_us = 0\<rparr>) = (fb, h, lat)"
    by (metis prod_cases3)
  have "hedge_run \<lparr>hh_budget = rh_budget h, hh_out = 0\<rparr> ([] @ [HbRate (Num 0 0)])
      (\<lparr>hh_budget = rh_budget h, hh_out = 0\<rparr>\<lparr>hh_budget := set_load_shed_rate (Num 0 0) (rh_budget h)\<rparr>)"
    using hedge_run.step [OF hedge_run.start hedge_step.feedback, of "\<lparr>hh_budget = rh_budget h, hh_out = 0\<rparr>" "Num 0 0"]
    by simp
  from hedge_never_recovers [OF _ _ _ _ t this] show ?thesis using t by simp
qed

text \<open>
  A hedged call that its caller drops after the hedge fired keeps its token: the bucket loses
  one token for good, so that as many dropped calls as there are tokens turn hedging off.
\<close>

theorem hedge_dropped_calls_leak:
  assumes "trigger \<le> drop_at"
  shows "hb_tokens ((hedged_call_dropped drop_at trigger True ^^ n) b) = hb_tokens b - n"
proof (induction n)
  case (Suc n)
  have "hb_tokens (hedged_call_dropped drop_at trigger True b') = hb_tokens b' - 1" for b'
    using assms by (simp add: hedged_call_dropped_def try_consume_def)
  then show ?case using Suc by simp
qed simp

theorem hedge_dropped_calls_leak_witness:
  "fst (try_consume ((hedged_call_dropped 10 8 True ^^ 3) (hedge_budget_new 3))) = False"
  using hedge_dropped_calls_leak [of 8 10 3 "hedge_budget_new 3"]
  by (simp add: try_consume_def hedge_budget_new_def)

end
