(* ===== verification/Frequency_Capping.thy ===== *)
theory Frequency_Capping
  imports OpenRTB_Model Hedging
begin

text \<open>
  Frequency capping: the trait and types of \<open>frequency/mod.rs\<close>, the impression recorder, the
  Redis capper and its writer of \<open>bidder-server/freq_cap.rs\<close>, the in-process capper of
  \<open>frequency/in_process.rs\<close> and the write-behind drain of \<open>main.rs\<close>.

  Redis is a service: the record \<open>redis_ops\<close> has the commands the code sends and the locale
  \<open>redis_counters\<close> what they do to counters; it is interpreted on a map from keys to values.
  The latencies and answers of the two MGET attempts are arguments (\<open>mget_env\<close>). The moka
  cache keeps a user's map for an hour from its insertion; an older entry is as good as absent, and
  inserting over it notifies the listener. moka may also evict any user at any time, for capacity:
  \<open>evict\<close> is a step of its own. The breaker that
  the in-process capper shares with its fallback is a field of the fallback's state, reached
  through the two access functions of \<open>fallback_ops\<close>.
\<close>

section \<open>Types\<close>

datatype cap_window = Hour | Day | Week

fun suffix :: "cap_window \<Rightarrow> string" where
  "suffix Hour = ''h''"
| "suffix Day = ''d''"
| "suffix Week = ''w''"

record cap_result =
  cap_campaign_id :: u32
  cap_capped :: bool
  cap_day_count :: "i64 option"
  cap_hour_count :: "i64 option"

datatype freq_cap_outcome = Checked "cap_result list" | SkippedTimeout | SkippedNoUser

text \<open>The trait object the pipeline stage holds.\<close>

record 'f capper_ops =
  fc_check :: "'f \<Rightarrow> string \<Rightarrow> ad_candidate list \<Rightarrow> u8 \<Rightarrow> u8 \<Rightarrow> freq_cap_outcome \<times> 'f"

section \<open>The impression recorder\<close>

record impression_record =
  ir_user_id :: string
  ir_campaign_id :: u32
  ir_creative_id :: u32
  ir_device_type :: u8
  ir_hour_of_day :: u8

type_synonym impression_recorder = "impression_record list"

definition recorder_capacity :: usize where
  "recorder_capacity = 65536"

definition recorder_new :: impression_recorder where
  "recorder_new = []"

definition try_record :: "impression_recorder \<Rightarrow> impression_record \<Rightarrow> bool \<times> impression_recorder" where
  "try_record chan event = (if length chan < recorder_capacity then (True, chan @ [event]) else (False, chan))"

section \<open>Redis counters\<close>

record 'r redis_ops =
  redis_incr :: "'r \<Rightarrow> string \<Rightarrow> i64 \<times> 'r"
  redis_expire :: "'r \<Rightarrow> string \<Rightarrow> nat \<Rightarrow> 'r"
  redis_mget :: "'r \<Rightarrow> string list \<Rightarrow> i64 option list"

text \<open>\<open>val\<close> is the counter under a key; a key that was never set counts from 0.\<close>

locale redis_counters =
  fixes R :: "'r redis_ops" and val :: "'r \<Rightarrow> string \<Rightarrow> i64 option"
  assumes incr_result: "redis_incr R s k = (n, s') \<Longrightarrow> n = (case val s k of None \<Rightarrow> 0 | Some v \<Rightarrow> v) + 1"
    and incr_val: "redis_incr R s k = (n, s') \<Longrightarrow> val s' = (val s)(k \<mapsto> n)"
    and expire_val: "val (redis_expire R s k ttl) = val s"
    and mget_val: "redis_mget R s ks = map (val s) ks"

text \<open>A map of values with the times to live that were set.\<close>

definition map_redis :: "((string \<rightharpoonup> i64) \<times> (string \<rightharpoonup> nat)) redis_ops" where
  "map_redis =
     \<lparr>redis_incr = (\<lambda>(m, ttls) k. let n = (case m k of None \<Rightarrow> 0 | Some v \<Rightarrow> v) + 1 in (n, (m(k \<mapsto> n), ttls))),
      redis_expire = (\<lambda>(m, ttls) k ttl. (m, ttls(k \<mapsto> ttl))),
      redis_mget = (\<lambda>(m, ttls) ks. map m ks)\<rparr>"

interpretation map_redis: redis_counters map_redis fst
  by unfold_locales (auto simp: map_redis_def Let_def)

definition fc_key :: "string \<Rightarrow> string \<Rightarrow> u32 \<Rightarrow> cap_window \<Rightarrow> string" where
  "fc_key uid dimension dimension_val window =
     ''v1:fc:{u:'' @ uid @ ''}:'' @ dimension @ '':'' @ u32_str dimension_val @ '':'' @ suffix window"

text \<open>The script sent with EVAL: the first increment sets the expiry.\<close>

definition incr_script :: "'r redis_ops \<Rightarrow> string \<Rightarrow> nat \<Rightarrow> 'r \<Rightarrow> 'r" where
  "incr_script R key ttl s =
     (let (current, s1) = redis_incr R s key
      in if current = 1 then redis_expire R s1 key ttl else s1)"

definition impression_key :: "impression_record \<Rightarrow> string \<Rightarrow> string" where
  "impression_key event window_suffix =
     ''v1:fc:{u:'' @ ir_user_id event @ ''}:c:'' @ u32_str (ir_campaign_id event) @ '':'' @ window_suffix"

text \<open>An EVAL that errs leaves Redis as it is; \<open>evals_ok\<close> says which of the two went through.\<close>

definition write_impression_counters :: "'r redis_ops \<Rightarrow> bool \<times> bool \<Rightarrow> impression_record \<Rightarrow> 'r \<Rightarrow> 'r" where
  "write_impression_counters R evals_ok event s =
     (let s1 = (if fst evals_ok then incr_script R (impression_key event ''h'') 3600 s else s)
      in if snd evals_ok then incr_script R (impression_key event ''d'') 86400 s1 else s1)"

section \<open>The Redis capper\<close>

record redis_capper =
  rc_breaker :: breaker
  rc_hedge :: hedge_budget
  rc_latency :: "redis_latency_tracker option"

record capper_cfg =
  cc_timeout_ms :: u64
  cc_breaker :: breaker_config

text \<open>
  One call's environment: the clock, latency of both attempts and the answer of each to the
  keys it is sent, and the clock when the
  caller goes on with the answer.
\<close>

record mget_env =
  me_now :: instant
  me_first_time :: duration
  me_first :: "string list \<Rightarrow> i64 option list anyhow"
  me_second_time :: duration
  me_second :: "string list \<Rightarrow> i64 option list anyhow"
  me_first_on_tie :: bool
  me_lock_free :: bool
  me_answered :: instant

definition cap_keys :: "string \<Rightarrow> ad_candidate list \<Rightarrow> string list" where
  "cap_keys uid candidates =
     concat (map (\<lambda>c. [fc_key uid ''c'' (cand_campaign_id c) Day,
                       fc_key uid ''c'' (cand_campaign_id c) Hour]) candidates)"

text \<open>\<open>values.get(i).copied().flatten().unwrap_or(0)\<close>.\<close>

definition count_at :: "i64 option list \<Rightarrow> nat \<Rightarrow> i64" where
  "count_at values i = (if i < length values then (case values ! i of Some v \<Rightarrow> v | None \<Rightarrow> 0) else 0)"

definition over_cap :: "ad_candidate \<Rightarrow> i64 \<Rightarrow> i64 \<Rightarrow> bool" where
  "over_cap c day_count hour_count \<longleftrightarrow>
     uint (cand_daily_cap_imps c) \<le> day_count \<or> uint (cand_hourly_cap_imps c) \<le> hour_count"

definition cap_verdict :: "i64 option list \<Rightarrow> nat \<times> ad_candidate \<Rightarrow> cap_result" where
  "cap_verdict values ic =
     (case ic of (i, c) \<Rightarrow>
      let day_count = count_at values (i * 2); hour_count = count_at values (i * 2 + 1)
      in \<lparr>cap_campaign_id = cand_campaign_id c, cap_capped = over_cap c day_count hour_count,
          cap_day_count = Some day_count, cap_hour_count = Some hour_count\<rparr>)"

definition redis_check ::
  "capper_cfg \<Rightarrow> mget_env \<Rightarrow> string \<Rightarrow> ad_candidate list \<Rightarrow> redis_capper \<Rightarrow> freq_cap_outcome \<times> redis_capper" where
  "redis_check cfg env uid candidates st =
     (if candidates = [] then (Checked [], st)
      else case allow_request (cc_breaker cfg) (me_now env) (rc_breaker st) of
        (False, b) \<Rightarrow> (SkippedTimeout, st\<lparr>rc_breaker := b\<rparr>)
      | (True, b) \<Rightarrow>
          (let keys = cap_keys uid candidates; limit = from_millis (cc_timeout_ms cfg); trigger = from_millis 8;
               is_closed = is_closed_sync (me_lock_free env) b;
               (answer, done_at, hedge_done) =
                 hedged_call (me_first env keys) (me_first_time env) (me_second env keys) (me_second_time env)
                   trigger is_closed (me_first_on_tie env) (rc_hedge st);
               timed_out = limit < done_at;
               elapsed = (if timed_out then limit else done_at);
               st1 = st\<lparr>rc_breaker := b,
                        rc_hedge := (if timed_out then hedged_call_dropped limit trigger is_closed (rc_hedge st)
                                     else hedge_done),
                        rc_latency := map_option (latency_record elapsed) (rc_latency st)\<rparr>;
               recorded = (\<lambda>error. st1\<lparr>rc_breaker := record_outcome (cc_breaker cfg) (me_now env + elapsed) error elapsed b\<rparr>)
           in if timed_out then (SkippedTimeout, recorded True)
              else case answer of
                Inl e \<Rightarrow> (SkippedTimeout, recorded True)
              | Inr values \<Rightarrow>
                  (Checked (map (cap_verdict values) (List.enumerate 0 candidates)), recorded False)))"

section \<open>The in-process capper\<close>

record write_behind_op =
  wb_user_id :: string
  wb_campaign_id :: u32
  wb_window :: cap_window

record in_process_config =
  ipc_cap_capacity :: usize
  ipc_write_buffer_size :: usize
  ipc_flush_interval :: duration

definition in_process_default :: in_process_config where
  "in_process_default =
     \<lparr>ipc_cap_capacity = 500000, ipc_write_buffer_size = 65536, ipc_flush_interval = from_secs 1\<rparr>"

type_synonym user_cap_map = "(u32, i64 \<times> i64) hmap"

text \<open>The cache has the user's map and the instant it was inserted at.\<close>

record in_process =
  ip_counters :: "(string, user_cap_map \<times> instant) hmap"
  ip_queue :: "write_behind_op list"
  ip_buffer_size :: usize

definition in_process_new :: "in_process_config \<Rightarrow> in_process" where
  "in_process_new cfg = \<lparr>ip_counters = [], ip_queue = [], ip_buffer_size = ipc_write_buffer_size cfg\<rparr>"

definition cap_ttl :: duration where
  "cap_ttl = from_secs 3600"

definition counter_incr :: "i64 \<Rightarrow> i64" where
  "counter_incr v = i64_wrap (v + 1)"

definition wb_try_send :: "write_behind_op \<Rightarrow> in_process \<Rightarrow> bool \<times> in_process" where
  "wb_try_send op ip =
     (if length (ip_queue ip) < ip_buffer_size ip then (True, ip\<lparr>ip_queue := ip_queue ip @ [op]\<rparr>) else (False, ip))"

definition wb_pair :: "string \<Rightarrow> u32 \<Rightarrow> in_process \<Rightarrow> bool \<times> in_process" where
  "wb_pair uid campaign ip =
     (let (day_ok, ip1) = wb_try_send \<lparr>wb_user_id = uid, wb_campaign_id = campaign, wb_window = Day\<rparr> ip;
          (hour_ok, ip2) = wb_try_send \<lparr>wb_user_id = uid, wb_campaign_id = campaign, wb_window = Hour\<rparr> ip1
      in (day_ok \<and> hour_ok, ip2))"

text \<open>The eviction listener, when moka drops a user.\<close>

definition evict :: "string \<Rightarrow> in_process \<Rightarrow> in_process" where
  "evict uid ip =
     (case hm_get (ip_counters ip) uid of
        None \<Rightarrow> ip
      | Some (user_map, created) \<Rightarrow>
          fold (\<lambda>(campaign, counts) ip'. snd (wb_pair uid campaign ip')) user_map
            (ip\<lparr>ip_counters := AList.delete uid (ip_counters ip)\<rparr>))"

text \<open>moka's \<open>get\<close>: an entry whose time to live has passed is not returned.\<close>

definition cache_get :: "in_process \<Rightarrow> instant \<Rightarrow> string \<Rightarrow> user_cap_map option" where
  "cache_get ip now uid =
     (case hm_get (ip_counters ip) uid of
        Some (user_map, created) \<Rightarrow> (if now < created + cap_ttl then Some user_map else None)
      | None \<Rightarrow> None)"

text \<open>moka's \<open>get_with_by_ref\<close>, with an empty map as the initial value.\<close>

definition get_with_by_ref :: "instant \<Rightarrow> string \<Rightarrow> in_process \<Rightarrow> in_process" where
  "get_with_by_ref now uid ip =
     (case cache_get ip now uid of
        Some user_map \<Rightarrow> ip
      | None \<Rightarrow> (let ip1 = evict uid ip
                 in ip1\<lparr>ip_counters := hm_insert uid ([], now) (ip_counters ip1)\<rparr>))"

text \<open>The map behind the shared pointer, and an update of one of its pairs: neither touches the entry's age.\<close>

definition user_map_of :: "in_process \<Rightarrow> string \<Rightarrow> user_cap_map" where
  "user_map_of ip uid = (case hm_get (ip_counters ip) uid of Some (m, created) \<Rightarrow> m | None \<Rightarrow> [])"

definition set_counts :: "string \<Rightarrow> u32 \<Rightarrow> i64 \<times> i64 \<Rightarrow> in_process \<Rightarrow> in_process" where
  "set_counts uid campaign counts ip =
     (case hm_get (ip_counters ip) uid of
        None \<Rightarrow> ip
      | Some (m, created) \<Rightarrow>
          ip\<lparr>ip_counters := hm_insert uid (hm_insert campaign counts m, created) (ip_counters ip)\<rparr>)"

definition record_impression :: "instant \<Rightarrow> string \<Rightarrow> u32 \<Rightarrow> in_process \<Rightarrow> bool \<times> in_process" where
  "record_impression now uid campaign ip =
     (let ip1 = get_with_by_ref now uid ip;
          (day, hour) = (case hm_get (user_map_of ip1 uid) campaign of Some c \<Rightarrow> c | None \<Rightarrow> (0, 0))
      in wb_pair uid campaign (set_counts uid campaign (counter_incr day, counter_incr hour) ip1))"

definition lookup :: "in_process \<Rightarrow> instant \<Rightarrow> string \<Rightarrow> u32 \<Rightarrow> (i64 \<times> i64) option" where
  "lookup ip now uid campaign =
     (case cache_get ip now uid of
        None \<Rightarrow> None
      | Some user_map \<Rightarrow> hm_get user_map campaign)"

definition warm_cache :: "instant \<Rightarrow> string \<Rightarrow> u32 \<Rightarrow> i64 \<Rightarrow> i64 \<Rightarrow> in_process \<Rightarrow> in_process" where
  "warm_cache now uid campaign day hour ip =
     (let ip1 = get_with_by_ref now uid ip;
          (d, h) = (case hm_get (user_map_of ip1 uid) campaign of Some c \<Rightarrow> c | None \<Rightarrow> (day, hour));
          d1 = (if d < day then day else d); h1 = (if h < hour then hour else h)
      in set_counts uid campaign (d1, h1) ip1)"

text \<open>The verdict from the cache; cold candidates get a placeholder and go to the fallback.\<close>

definition warm_verdict :: "in_process \<Rightarrow> instant \<Rightarrow> string \<Rightarrow> ad_candidate \<Rightarrow> cap_result" where
  "warm_verdict ip now uid c =
     (case lookup ip now uid (cand_campaign_id c) of
        Some (day, hour) \<Rightarrow>
          \<lparr>cap_campaign_id = cand_campaign_id c, cap_capped = over_cap c day hour,
           cap_day_count = Some day, cap_hour_count = Some hour\<rparr>
      | None \<Rightarrow>
          \<lparr>cap_campaign_id = cand_campaign_id c, cap_capped = False, cap_day_count = None,
           cap_hour_count = None\<rparr>)"

definition cold_candidates :: "in_process \<Rightarrow> instant \<Rightarrow> string \<Rightarrow> ad_candidate list \<Rightarrow> ad_candidate list" where
  "cold_candidates ip now uid candidates =
     filter (\<lambda>c. lookup ip now uid (cand_campaign_id c) = None) candidates"

text \<open>\<open>results.iter_mut().find(...)\<close>: the first slot of the campaign takes the verdict.\<close>

fun patch :: "cap_result \<Rightarrow> cap_result list \<Rightarrow> cap_result list" where
  "patch fb [] = []"
| "patch fb (r # rs) =
     (if cap_campaign_id r = cap_campaign_id fb
      then r\<lparr>cap_capped := cap_capped fb, cap_day_count := cap_day_count fb, cap_hour_count := cap_hour_count fb\<rparr> # rs
      else r # patch fb rs)"

fun apply_fallback :: "instant \<Rightarrow> string \<Rightarrow> cap_result list \<Rightarrow> cap_result list \<Rightarrow> in_process \<Rightarrow> cap_result list \<times> in_process" where
  "apply_fallback now uid [] results ip = (results, ip)"
| "apply_fallback now uid (fb # fbs) results ip =
     apply_fallback now uid fbs (patch fb results)
       (case (cap_day_count fb, cap_hour_count fb) of
          (Some day, Some hour) \<Rightarrow> warm_cache now uid (cap_campaign_id fb) day hour ip
        | _ \<Rightarrow> ip)"

text \<open>The fallback capper: its check for this call, when it has returned, and the breaker it shares.\<close>

record 'f fallback_ops =
  fo_check :: "string \<Rightarrow> ad_candidate list \<Rightarrow> u8 \<Rightarrow> u8 \<Rightarrow> 'f \<Rightarrow> freq_cap_outcome \<times> 'f"
  fo_answered :: instant
  fo_breaker :: "'f \<Rightarrow> breaker"
  fo_set_breaker :: "breaker \<Rightarrow> 'f \<Rightarrow> 'f"

definition in_process_check ::
  "'f fallback_ops \<Rightarrow> breaker_config \<Rightarrow> instant \<Rightarrow> string \<Rightarrow> ad_candidate list \<Rightarrow> u8 \<Rightarrow> u8
   \<Rightarrow> in_process \<times> 'f \<Rightarrow> freq_cap_outcome \<times> in_process \<times> 'f" where
  "in_process_check F bcfg now uid candidates device_type_val hour_of_day st =
     (case st of (ip, fb) \<Rightarrow>
      case allow_request bcfg now (fo_breaker F fb) of
        (False, b) \<Rightarrow> (SkippedTimeout, ip, fo_set_breaker F b fb)
      | (True, b) \<Rightarrow>
          (let fb1 = fo_set_breaker F b fb;
               results = map (warm_verdict ip now uid) candidates;
               cold = cold_candidates ip now uid candidates
           in if cold = [] then (Checked results, ip, fb1)
              else case fo_check F uid cold device_type_val hour_of_day fb1 of
                (Checked fallback_results, fb2) \<Rightarrow>
                  (case apply_fallback (fo_answered F) uid fallback_results results ip of
                     (results', ip') \<Rightarrow> (Checked results', ip', fb2))
              | (_, fb2) \<Rightarrow> (Checked results, ip, fb2)))"

text \<open>The Redis capper as the fallback of a call with a given environment.\<close>

definition redis_fallback :: "capper_cfg \<Rightarrow> mget_env \<Rightarrow> redis_capper fallback_ops" where
  "redis_fallback cfg env =
     \<lparr>fo_check = (\<lambda>uid candidates device hour st. redis_check cfg env uid candidates st),
      fo_answered = me_answered env, fo_breaker = rc_breaker, fo_set_breaker = (\<lambda>b st. st\<lparr>rc_breaker := b\<rparr>)\<rparr>"

section \<open>The write-behind drain\<close>

definition drain_event :: "write_behind_op \<Rightarrow> impression_record" where
  "drain_event op =
     \<lparr>ir_user_id = wb_user_id op, ir_campaign_id = wb_campaign_id op, ir_creative_id = 0,
      ir_device_type = 0, ir_hour_of_day = 0\<rparr>"

fun in_process_write_behind_drain :: "write_behind_op list \<Rightarrow> impression_recorder \<Rightarrow> impression_recorder" where
  "in_process_write_behind_drain [] recorder = recorder"
| "in_process_write_behind_drain (op # ops) recorder =
     (if wb_window op \<noteq> Day then in_process_write_behind_drain ops recorder
      else in_process_write_behind_drain ops (snd (try_record recorder (drain_event op))))"

section \<open>Keys\<close>

lemma suffix_inj: "suffix w = suffix w' \<longleftrightarrow> w = w'"
  by (cases w; cases w') simp_all

lemma suffix_length: "length (suffix w) = 1"
  by (cases w) simp_all

lemma u32_str_no_colon: "CHR '':'' \<notin> set (u32_str i)"
  using nat_str_digits [of "CHR '':''" "unat i"] by (auto simp: u32_str_def is_digit_def)

lemma fc_key_inj: "fc_key u ''c'' i w = fc_key u' ''c'' i' w' \<longleftrightarrow> u = u' \<and> i = i' \<and> w = w'"
proof
  assume "fc_key u ''c'' i w = fc_key u' ''c'' i' w'"
  then have "(u @ ''}:c:'' @ u32_str i @ '':'') @ suffix w = (u' @ ''}:c:'' @ u32_str i' @ '':'') @ suffix w'"
    by (simp add: fc_key_def)
  then have w: "suffix w = suffix w'" and "u @ ''}:c:'' @ u32_str i @ '':'' = u' @ ''}:c:'' @ u32_str i' @ '':''"
    using suffix_length [of w] suffix_length [of w'] append_eq_append_conv by metis+
  then have "rev (u @ ''}:c:'' @ u32_str i) = rev (u' @ ''}:c:'' @ u32_str i')" by simp
  then have "rev (u32_str i) @ CHR '':'' # (''c:}'' @ rev u) = rev (u32_str i') @ CHR '':'' # (''c:}'' @ rev u')"
    by simp
  then have "rev (u32_str i) = rev (u32_str i') \<and> ''c:}'' @ rev u = ''c:}'' @ rev u'"
    using u32_str_no_colon by (intro join_sep_inj) simp_all
  then show "u = u' \<and> i = i' \<and> w = w'" using w by (simp add: suffix_inj)
qed simp

lemma impression_key_fc_key:
  "impression_key ev ''h'' = fc_key (ir_user_id ev) ''c'' (ir_campaign_id ev) Hour"
  "impression_key ev ''d'' = fc_key (ir_user_id ev) ''c'' (ir_campaign_id ev) Day"
  by (simp_all add: impression_key_def fc_key_def)

definition count0 :: "i64 option \<Rightarrow> i64" where
  "count0 v = (case v of None \<Rightarrow> 0 | Some n \<Rightarrow> n)"

lemma count0_simps [simp]: "count0 None = 0" "count0 (Some n) = n"
  by (simp_all add: count0_def)

context redis_counters
begin

lemma incr_script_val: "val (incr_script R k ttl s) = (val s)(k \<mapsto> count0 (val s k) + 1)"
proof -
  obtain n s1 where s1: "redis_incr R s k = (n, s1)" by (cases "redis_incr R s k")
  then have "n = count0 (val s k) + 1" "val s1 = (val s)(k \<mapsto> n)"
    using incr_result incr_val by (auto simp: count0_def)
  then show ?thesis by (simp add: incr_script_def s1 expire_val)
qed

lemma write_counters_val:
  assumes "w \<noteq> Week"
  shows "count0 (val (write_impression_counters R (True, True) ev s) (fc_key u ''c'' i w))
    = count0 (val s (fc_key u ''c'' i w))
      + (if u = ir_user_id ev \<and> i = ir_campaign_id ev then 1 else 0)"
  using assms
  by (cases w) (auto simp: write_impression_counters_def incr_script_val impression_key_fc_key fc_key_inj)

end

section \<open>The Redis verdict\<close>

lemma length_cap_keys [simp]: "length (cap_keys u cs) = 2 * length cs"
  by (induction cs) (simp_all add: cap_keys_def)


text \<open>The verdict that the counters call for.\<close>

definition counts_verdict :: "i64 \<Rightarrow> i64 \<Rightarrow> ad_candidate \<Rightarrow> cap_result" where
  "counts_verdict day hour c =
     \<lparr>cap_campaign_id = cand_campaign_id c, cap_capped = over_cap c day hour,
      cap_day_count = Some day, cap_hour_count = Some hour\<rparr>"

definition redis_verdict :: "(string \<Rightarrow> i64 option) \<Rightarrow> string \<Rightarrow> ad_candidate \<Rightarrow> cap_result" where
  "redis_verdict v u c =
     counts_verdict (count0 (v (fc_key u ''c'' (cand_campaign_id c) Day)))
       (count0 (v (fc_key u ''c'' (cand_campaign_id c) Hour))) c"



lemma hedged_call_answer:
  "fst (hedged_call r t1 r t2 trigger is_closed tie budget) = r"
  by (simp add: hedged_call_def split: prod.splits)

lemma redis_check_answer:
  assumes "me_first env (cap_keys u cs) = Inr vs" "me_second env (cap_keys u cs) = Inr vs"
    and "redis_check cfg env u cs st = (Checked rs, st')"
  shows "rs = map (cap_verdict vs) (List.enumerate 0 cs)"
proof (cases "cs = []")
  case True
  then show ?thesis using assms(3) by (simp add: redis_check_def)
next
  case False
  obtain ok b where a: "allow_request (cc_breaker cfg) (me_now env) (rc_breaker st) = (ok, b)"
    by (cases "allow_request (cc_breaker cfg) (me_now env) (rc_breaker st)")
  have ok using assms(3) False a by (cases ok) (auto simp: redis_check_def)
  obtain ans t h where c: "hedged_call (me_first env (cap_keys u cs)) (me_first_time env) (me_second env (cap_keys u cs)) (me_second_time env)
      (from_millis 8) (is_closed_sync (me_lock_free env) b) (me_first_on_tie env) (rc_hedge st) = (ans, t, h)"
    by (metis prod_cases3)
  then have "ans = Inr vs" using assms(1,2) by (metis fst_conv hedged_call_answer)
  then show ?thesis
    using assms(3) False \<open>ok\<close> by (auto simp: redis_check_def a c Let_def split: if_splits)
qed

section \<open>The cache\<close>

text \<open>When the user's entry was inserted.\<close>

definition created :: "in_process \<Rightarrow> string \<Rightarrow> instant option" where
  "created ip u = map_option snd (hm_get (ip_counters ip) u)"

lemma cache_get_created:
  "cache_get ip now u =
     (case created ip u of None \<Rightarrow> None | Some t \<Rightarrow> if now < t + cap_ttl then Some (user_map_of ip u) else None)"
  by (simp add: cache_get_def created_def user_map_of_def split: option.splits)

lemma lookup_created:
  "lookup ip now u c =
     (case created ip u of None \<Rightarrow> None | Some t \<Rightarrow> if now < t + cap_ttl then hm_get (user_map_of ip u) c else None)"
  by (simp add: lookup_def cache_get_created split: option.splits)

lemma queue_keeps_counters [simp]: "ip_counters (snd (wb_pair u c ip)) = ip_counters ip"
  by (simp add: wb_pair_def wb_try_send_def Let_def)

lemma evict_counters [simp]: "ip_counters (evict u ip) = AList.delete u (ip_counters ip)"
proof -
  have "ip_counters (fold (\<lambda>(campaign, counts) ip'. snd (wb_pair u campaign ip')) m ip') = ip_counters ip'"
    for m :: user_cap_map and ip'
    by (induction m arbitrary: ip') auto
  then show ?thesis
    by (auto simp: evict_def hm_get_def map_of_eq_None_iff delete_id split: option.splits)
qed

lemma get_with_by_ref_entry:
  "created (get_with_by_ref now u ip) u' =
     (if u' = u \<and> cache_get ip now u = None then Some now else created ip u')"
  "user_map_of (get_with_by_ref now u ip) u' =
     (if u' = u \<and> cache_get ip now u = None then [] else user_map_of ip u')"
  by (auto simp: get_with_by_ref_def created_def user_map_of_def hm_get_def hm_insert_def update_conv'
      delete_conv' Let_def split: option.splits)

lemma cap_ttl_pos [simp]: "0 < cap_ttl"
  by (simp add: cap_ttl_def from_secs_def)

lemma lookup_get_with_by_ref [simp]:
  "lookup (get_with_by_ref now u ip) now u' c = lookup ip now u' c"
  by (auto simp: lookup_created get_with_by_ref_entry cache_get_created hm_get_def split: option.splits if_splits)

lemma set_counts_entry:
  "created (set_counts u c x ip) u' = created ip u'"
  "created ip u \<noteq> None \<Longrightarrow> hm_get (user_map_of (set_counts u c x ip) u') c'
     = (if u' = u \<and> c' = c then Some x else hm_get (user_map_of ip u') c')"
  by (auto simp: set_counts_def created_def user_map_of_def hm_get_def hm_insert_def update_conv'
      split: option.splits)

lemma get_with_by_ref_live:
  "\<exists>t. created (get_with_by_ref now u ip) u = Some t \<and> now < t + cap_ttl"
  by (auto simp: get_with_by_ref_entry cache_get_created split: option.splits if_splits)

lemma lookup_set_counts:
  "lookup (set_counts u c x (get_with_by_ref now u ip)) now u' c' =
     (if u' = u \<and> c' = c then Some x else lookup ip now u' c')"
proof -
  obtain t where t: "created (get_with_by_ref now u ip) u = Some t" "now < t + cap_ttl"
    using get_with_by_ref_live by blast
  have "lookup (set_counts u c x (get_with_by_ref now u ip)) now u' c'
      = (if u' = u \<and> c' = c then Some x else lookup (get_with_by_ref now u ip) now u' c')"
    using t by (auto simp: lookup_created set_counts_entry split: option.splits)
  then show ?thesis by simp
qed

lemma live_map: "hm_get (user_map_of (get_with_by_ref now u ip) u) c = lookup ip now u c"
proof -
  obtain t where "created (get_with_by_ref now u ip) u = Some t" "now < t + cap_ttl"
    using get_with_by_ref_live by blast
  then have "hm_get (user_map_of (get_with_by_ref now u ip) u) c = lookup (get_with_by_ref now u ip) now u c"
    by (simp add: lookup_created)
  then show ?thesis by simp
qed

lemma lookup_warm_cache:
  "lookup (warm_cache now u c d h ip) now u' c' =
     (if u' = u \<and> c' = c
      then (case lookup ip now u c of None \<Rightarrow> Some (d, h) | Some (d0, h0) \<Rightarrow> Some (max d0 d, max h0 h))
      else lookup ip now u' c')"
  by (auto simp: warm_cache_def lookup_set_counts live_map max_def Let_def split: option.splits prod.splits)

lemma created_warm_cache:
  "created (warm_cache now u c d h ip) u = (if cache_get ip now u = None then Some now else created ip u)"
  by (simp add: warm_cache_def set_counts_entry get_with_by_ref_entry Let_def split: prod.splits)

lemma lookup_record_impression:
  "lookup (snd (record_impression now u c ip)) now u' c' =
     (if u' = u \<and> c' = c
      then (case lookup ip now u c of None \<Rightarrow> Some (1, 1) | Some (d, h) \<Rightarrow> Some (i64_wrap (d + 1), i64_wrap (h + 1)))
      else lookup ip now u' c')"
proof -
  have pair: "lookup (snd (wb_pair u c ip')) now x y = lookup ip' now x y" for ip' x y
    by (simp add: lookup_def cache_get_def)
  have "i64_wrap 1 = 1" by (simp add: i64_wrap_def)
  then show ?thesis
    by (auto simp: record_impression_def pair lookup_set_counts live_map counter_incr_def Let_def
        split: option.splits prod.splits)
qed

lemma apply_fallback_results: "fst (apply_fallback now u fbs rs ip) = fold patch fbs rs"
  by (induction now u fbs rs ip rule: apply_fallback.induct) simp_all

lemma patch_head: "cap_campaign_id r = cap_campaign_id fb \<Longrightarrow> patch fb (r # rs) = fb # rs"
  by simp

lemma fold_patch_skip:
  "cap_campaign_id r \<notin> cap_campaign_id ` set fbs \<Longrightarrow> fold patch fbs (r # rs) = r # fold patch fbs rs"
  by (induction fbs arbitrary: rs) auto

lemma fold_patch_same:
  assumes "map cap_campaign_id rs = map cap_campaign_id fbs" "distinct (map cap_campaign_id fbs)"
  shows "fold patch fbs rs = fbs"
  using assms
proof (induction fbs arbitrary: rs)
  case (Cons fb fbs)
  then obtain r rs' where rs: "rs = r # rs'" by (cases rs) auto
  have "fold patch (fb # fbs) rs = fold patch fbs (fb # rs')"
    using Cons.prems rs patch_head [of r fb rs'] by (simp del: patch.simps)
  also have "\<dots> = fb # fold patch fbs rs'"
    using Cons.prems by (intro fold_patch_skip) auto
  finally show ?case using Cons rs by simp
qed simp

lemma apply_fallback_lookup:
  assumes "distinct (map cap_campaign_id fbs)"
    and "\<forall>fb \<in> set fbs. \<exists>d h. cap_day_count fb = Some d \<and> cap_hour_count fb = Some h"
    and "\<forall>fb \<in> set fbs. lookup ip now u (cap_campaign_id fb) = None"
  shows "(\<forall>fb \<in> set fbs. lookup (snd (apply_fallback now u fbs rs ip)) now u (cap_campaign_id fb)
      = Some (the (cap_day_count fb), the (cap_hour_count fb)))
    \<and> (\<forall>c. c \<notin> cap_campaign_id ` set fbs \<longrightarrow> lookup (snd (apply_fallback now u fbs rs ip)) now u c = lookup ip now u c)"
  using assms
proof (induction fbs arbitrary: rs ip)
  case (Cons fb fbs)
  then obtain d h where dh: "cap_day_count fb = Some d" "cap_hour_count fb = Some h" by auto
  let ?ip = "warm_cache now u (cap_campaign_id fb) d h ip"
  have "\<forall>x \<in> set fbs. lookup ?ip now u (cap_campaign_id x) = None"
  proof
    fix x assume x: "x \<in> set fbs"
    then have "cap_campaign_id x \<noteq> cap_campaign_id fb" using Cons.prems(1) by (auto simp: image_iff)
    then show "lookup ?ip now u (cap_campaign_id x) = None" using Cons.prems(3) x by (simp add: lookup_warm_cache)
  qed
  note IH = Cons.IH [OF _ _ this, of "patch fb rs"]
  have fb: "cap_campaign_id fb \<notin> cap_campaign_id ` set fbs" using Cons.prems(1) by auto
  have "lookup ?ip now u (cap_campaign_id fb) = Some (d, h)"
    using Cons.prems(3) by (simp add: lookup_warm_cache)
  then show ?case using IH Cons.prems fb dh by (auto simp: lookup_warm_cache)
qed simp

text \<open>The answers keep a live entry and its age; otherwise they make a new one.\<close>

lemma apply_fallback_created:
  assumes "\<forall>fb \<in> set fbs. \<exists>d h. cap_day_count fb = Some d \<and> cap_hour_count fb = Some h"
  shows "created (snd (apply_fallback now u fbs rs ip)) u =
     (if fbs \<noteq> [] \<and> cache_get ip now u = None then Some now else created ip u)"
  using assms
proof (induction fbs arbitrary: rs ip)
  case (Cons fb fbs)
  then obtain d h where dh: "cap_day_count fb = Some d" "cap_hour_count fb = Some h" by auto
  let ?ip = "warm_cache now u (cap_campaign_id fb) d h ip"
  have "cache_get ?ip now u \<noteq> None"
    by (auto simp: cache_get_created [of ?ip] created_warm_cache cache_get_created split: option.splits if_splits)
  then show ?case using Cons.IH [of "patch fb rs" ?ip] Cons.prems dh by (auto simp: created_warm_cache)
qed simp

section \<open>Checks on the shared breaker\<close>

lemma allow_request_probe_taken:
  "br_state b = HalfOpen \<Longrightarrow> br_probe_in_flight b \<Longrightarrow> allow_request cfg now b = (False, b)"
  by (simp add: allow_request_def allow_fast_path_def try_enter_half_open_def)

lemma redis_capper_set_same [simp]: "rc_breaker st = b \<Longrightarrow> st\<lparr>rc_breaker := b\<rparr> = st"
  by (cases st) simp

lemma in_process_refused:
  assumes "br_state (rc_breaker fb) = HalfOpen" "br_probe_in_flight (rc_breaker fb)"
  shows "in_process_check (redis_fallback cfg env) bcfg now u cs dev hour (ip, fb) = (SkippedTimeout, ip, fb)"
  using allow_request_probe_taken [OF assms, of bcfg now] by (simp add: in_process_check_def redis_fallback_def)

text \<open>The check that claims the probe never reports its outcome.\<close>

lemma in_process_takes_probe:
  assumes "br_state (rc_breaker fb) = Open" "br_opened_at (rc_breaker fb) = Some t"
    and "t + br_open_duration bcfg \<le> now" "cc_breaker cfg = bcfg"
  shows "\<exists>out ip' fb'. in_process_check (redis_fallback cfg env) bcfg now u cs dev hour (ip, fb) = (out, ip', fb')
    \<and> br_state (rc_breaker fb') = HalfOpen \<and> br_probe_in_flight (rc_breaker fb')"
proof -
  have "br_open_duration bcfg \<le> now - t" using assms(3) by linarith
  then obtain b where b: "allow_request bcfg now (rc_breaker fb) = (True, b)" "br_state b = HalfOpen" "br_probe_in_flight b"
    using assms(1,2) by (auto simp: allow_request_def allow_fast_path_def open_elapsed_def try_enter_half_open_def)
  let ?fb = "fb\<lparr>rc_breaker := b\<rparr>"
  have redis: "redis_check cfg env u cold ?fb = (SkippedTimeout, ?fb)" if "cold \<noteq> []" for cold
    using that b allow_request_probe_taken [OF b(2,3), of bcfg "me_now env"] assms(4) by (simp add: redis_check_def)
  show ?thesis
    using b redis by (cases "cold_candidates ip now u cs = []")
      (auto simp: in_process_check_def redis_fallback_def Let_def)
qed

text \<open>A sequence of checks, each with its own environment.\<close>

fun in_process_checks ::
  "capper_cfg \<Rightarrow> (mget_env \<times> instant \<times> string \<times> ad_candidate list) list \<Rightarrow> in_process \<times> redis_capper
   \<Rightarrow> freq_cap_outcome list" where
  "in_process_checks cfg [] st = []"
| "in_process_checks cfg ((env, now, u, cs) # calls) st =
     (case in_process_check (redis_fallback cfg env) (cc_breaker cfg) now u cs 0 0 st of
        (out, st') \<Rightarrow> out # in_process_checks cfg calls st')"

lemma in_process_checks_refused:
  assumes "br_state (rc_breaker fb) = HalfOpen" "br_probe_in_flight (rc_breaker fb)"
  shows "in_process_checks cfg calls (ip, fb) = map (\<lambda>_. SkippedTimeout) calls"
  by (induction calls) (auto simp: in_process_refused [OF assms])

section \<open>Evictions\<close>

lemma wb_pair_room:
  "length (ip_queue ip) + 1 < ip_buffer_size ip \<Longrightarrow>
   wb_pair u c ip = (True, ip\<lparr>ip_queue := ip_queue ip @
     [\<lparr>wb_user_id = u, wb_campaign_id = c, wb_window = Day\<rparr>, \<lparr>wb_user_id = u, wb_campaign_id = c, wb_window = Hour\<rparr>]\<rparr>)"
  by (simp add: wb_pair_def wb_try_send_def)

lemma drain_append: "in_process_write_behind_drain (xs @ ys) r
   = in_process_write_behind_drain ys (in_process_write_behind_drain xs r)"
  by (induction xs arbitrary: r) simp_all

lemma drain_room:
  "length r + length (filter (\<lambda>op. wb_window op = Day) ops) \<le> recorder_capacity \<Longrightarrow>
   in_process_write_behind_drain ops r = r @ map drain_event (filter (\<lambda>op. wb_window op = Day) ops)"
  by (induction ops arbitrary: r) (auto simp: try_record_def)

definition impressions :: "instant \<Rightarrow> nat \<Rightarrow> string \<Rightarrow> u32 \<Rightarrow> in_process \<Rightarrow> in_process" where
  "impressions now n u c ip = ((\<lambda>ip. snd (record_impression now u c ip)) ^^ n) ip"

lemma impressions_state:
  assumes "2 * n \<le> ipc_write_buffer_size cfg" "Suc n' \<le> n"
  shows "\<exists>counts. impressions now (Suc n') u c (in_process_new cfg)
      = \<lparr>ip_counters = [(u, [(c, counts)], now)],
         ip_queue = concat (replicate (Suc n') [\<lparr>wb_user_id = u, wb_campaign_id = c, wb_window = Day\<rparr>,
                                              \<lparr>wb_user_id = u, wb_campaign_id = c, wb_window = Hour\<rparr>]),
         ip_buffer_size = ipc_write_buffer_size cfg\<rparr>"
  using assms(2)
proof (induction n')
  case 0
  then show ?case
    using assms(1)
    by (simp add: impressions_def record_impression_def get_with_by_ref_def cache_get_def evict_def user_map_of_def in_process_new_def set_counts_def
        hm_get_def hm_insert_def wb_pair_def wb_try_send_def)
next
  case (Suc n')
  let ?ops = "[\<lparr>wb_user_id = u, wb_campaign_id = c, wb_window = Day\<rparr>, \<lparr>wb_user_id = u, wb_campaign_id = c, wb_window = Hour\<rparr>]"
  obtain counts where IH: "impressions now (Suc n') u c (in_process_new cfg)
      = \<lparr>ip_counters = [(u, [(c, counts)], now)], ip_queue = concat (replicate (Suc n') ?ops),
         ip_buffer_size = ipc_write_buffer_size cfg\<rparr>"
    using Suc by auto
  have len: "length (concat (replicate k ?ops)) = 2 * k" for k by (induction k) simp_all
  have room: "length (concat (replicate (Suc n') ?ops)) + 1 < ipc_write_buffer_size cfg"
    unfolding len using Suc.prems assms(1) by arith
  have "concat (replicate (Suc n') ?ops) @ ?ops = concat (replicate (Suc (Suc n')) ?ops)"
    by (metis append.right_neutral concat.simps concat_append replicate_Suc replicate_append_same)
  moreover have "impressions now (Suc (Suc n')) u c (in_process_new cfg)
      = snd (record_impression now u c (impressions now (Suc n') u c (in_process_new cfg)))"
    by (simp add: impressions_def)
  ultimately show ?case
    using room wb_pair_room
    by (simp add: IH record_impression_def get_with_by_ref_def cache_get_def evict_def user_map_of_def set_counts_def hm_get_def hm_insert_def split_def Let_def
        del: replicate_Suc concat_replicate_trivial)
qed

section \<open>Properties\<close>

definition ex_candidate :: "u32 \<Rightarrow> ad_candidate" where
  "ex_candidate i = \<lparr>cand_campaign_id = i, cand_creative_id = 1, cand_bid_price_cents = 100,
     cand_score = Num 0 0, cand_daily_cap_imps = 10, cand_hourly_cap_imps = 3\<rparr>"

definition ex_impression :: impression_record where
  "ex_impression = \<lparr>ir_user_id = ''u1'', ir_campaign_id = 7, ir_creative_id = 0, ir_device_type = 0, ir_hour_of_day = 0\<rparr>"

definition ex_env :: "(string list \<Rightarrow> i64 option list) \<Rightarrow> mget_env" where
  "ex_env reply = \<lparr>me_now = 0, me_first_time = 0, me_first = Inr \<circ> reply, me_second_time = 0, me_second = Inr \<circ> reply,
     me_first_on_tie = True, me_lock_free = True, me_answered = 0\<rparr>"

definition ex_cfg :: capper_cfg where
  "ex_cfg = \<lparr>cc_timeout_ms = 8, cc_breaker = breaker_redis ''freq_cap''\<rparr>"

definition ex_capper :: redis_capper where
  "ex_capper = \<lparr>rc_breaker = breaker_new, rc_hedge = hedge_budget_new 10, rc_latency = None\<rparr>"

lemma ex_redis_check:
  "\<exists>st'. redis_check ex_cfg (ex_env reply) u [ex_candidate 7] ex_capper
     = (Checked [cap_verdict (reply (cap_keys u [ex_candidate 7])) (0, ex_candidate 7)], st')"
  by (simp add: redis_check_def allow_request_closed ex_capper_def breaker_new_def hedged_call_def ex_env_def
      Let_def)

text \<open>
  Recorded impressions are the ones that are read back: after the writer has processed an
  impression, the counters that the capper reads for the hour and the day are one higher for that
  user and campaign, and those of every other user and campaign are as before (the keys never
  collide, whatever characters a user id has).
\<close>

theorem impression_counted:
  assumes "redis_counters R val" and "w \<noteq> Week"
  shows "count0 (val (write_impression_counters R (True, True) ev s) (fc_key u ''c'' i w))
    = count0 (val s (fc_key u ''c'' i w))
      + (if u = ir_user_id ev \<and> i = ir_campaign_id ev then 1 else 0)"
  using redis_counters.write_counters_val [OF assms] .

theorem impression_counted_witness:
  "count0 (fst (write_impression_counters map_redis (True, True) ex_impression (Map.empty, Map.empty))
     (fc_key ''u1'' ''c'' 7 Day)) = 1"
  using impression_counted [OF map_redis.redis_counters_axioms, of Day ex_impression "(Map.empty, Map.empty)" "''u1''" 7]
  by (simp add: ex_impression_def)



text \<open>
  A cap of zero blocks a campaign before its first impression: with no counter stored at all
  the candidate is already capped, while the catalog and the schema say that a cap of 0 blocks
  after the first impression.
\<close>

theorem cap_zero_blocks_first:
  assumes "cand_daily_cap_imps c = 0 \<or> cand_hourly_cap_imps c = 0"
  shows "cap_capped (redis_verdict Map.empty u c)"
  using assms by (auto simp: redis_verdict_def counts_verdict_def over_cap_def)

theorem cap_zero_blocks_first_witness:
  "cap_capped (redis_verdict Map.empty ''u1'' (ex_candidate 7\<lparr>cand_daily_cap_imps := 0\<rparr>))"
  by (rule cap_zero_blocks_first) simp

text \<open>
  A lookup that reached Redis leaves the cache with the counts Redis reported, so that the cache
  alone gives the same verdicts afterwards.
\<close>

lemma lookup_stays_cold: "lookup ip now u c = None \<Longrightarrow> now \<le> later \<Longrightarrow> lookup ip later u c = None"
  by (auto simp: lookup_created split: option.splits if_splits)

lemma lookup_live:
  "created ip u = Some t \<Longrightarrow> now < t + cap_ttl \<Longrightarrow> later < t + cap_ttl \<Longrightarrow> lookup ip later u c = lookup ip now u c"
  by (simp add: lookup_created)

lemma fallback_fills:
  assumes "distinct (map cand_campaign_id cs)" "cs \<noteq> []" "\<forall>c \<in> set cs. lookup ip a u (cand_campaign_id c) = None"
    and rs: "rs = map (cap_verdict vs) (List.enumerate 0 cs)"
  obtains ip' t where "apply_fallback a u rs (map (warm_verdict ip now u) cs) ip = (rs, ip')"
    "\<And>i. i < length cs \<Longrightarrow> lookup ip' a u (cand_campaign_id (cs ! i))
       = Some (the (cap_day_count (rs ! i)), the (cap_hour_count (rs ! i)))"
    "created ip' u = Some t" "a < t + cap_ttl" "t = a \<or> created ip u = Some t"
proof -
  have ids: "map cap_campaign_id rs = map cand_campaign_id cs"
    unfolding rs by (rule nth_equalityI) (simp_all add: nth_enumerate_eq cap_verdict_def Let_def)
  have counts: "\<forall>r \<in> set rs. \<exists>d h. cap_day_count r = Some d \<and> cap_hour_count r = Some h"
    by (auto simp: rs cap_verdict_def Let_def)
  have "\<forall>i \<in> set (map cand_campaign_id cs). lookup ip a u i = None" using assms(3) by simp
  then have cold: "\<forall>r \<in> set rs. lookup ip a u (cap_campaign_id r) = None"
    unfolding ids [symmetric] by simp
  let ?ws = "map (warm_verdict ip now u) cs"
  define ip' where "ip' = snd (apply_fallback a u rs ?ws ip)"
  have placeholders: "map cap_campaign_id ?ws = map cap_campaign_id rs"
    using ids by (simp add: warm_verdict_def o_def split: option.splits prod.splits)
  have patched: "apply_fallback a u rs ?ws ip = (rs, ip')"
    using apply_fallback_results [of a u rs ?ws ip]
      fold_patch_same [OF placeholders] ids assms(1) by (simp add: ip'_def prod_eq_iff)
  have look: "lookup ip' a u (cap_campaign_id r) = Some (the (cap_day_count r), the (cap_hour_count r))" if "r \<in> set rs" for r
    using apply_fallback_lookup [OF _ counts cold, of ?ws] ids assms(1) that
    by (simp add: ip'_def)
  have len: "length rs = length cs" by (simp add: rs)
  have looks: "lookup ip' a u (cand_campaign_id (cs ! i)) = Some (the (cap_day_count (rs ! i)), the (cap_hour_count (rs ! i)))"
    if "i < length cs" for i
    using look ids len that by (metis nth_map nth_mem)
  have "created ip' u = (if cache_get ip a u = None then Some a else created ip u)"
    using apply_fallback_created [OF counts, of a u ?ws ip] len assms(2) by (auto simp: ip'_def)
  then obtain t where "created ip' u = Some t" "a < t + cap_ttl" "t = a \<or> created ip u = Some t"
    by (auto simp: cache_get_created split: option.splits if_splits)
  then show thesis using that patched looks by blast
qed

lemma warm_verdicts:
  assumes rs: "rs = map (cap_verdict vs) (List.enumerate 0 cs)"
    and look: "\<And>i. i < length cs \<Longrightarrow> lookup ip now u (cand_campaign_id (cs ! i))
       = Some (the (cap_day_count (rs ! i)), the (cap_hour_count (rs ! i)))"
  shows "map (warm_verdict ip now u) cs = rs" and "cold_candidates ip now u cs = []"
proof -
  have "warm_verdict ip now u (cs ! i) = rs ! i" if "i < length cs" for i
    using look [OF that] that
    by (simp add: warm_verdict_def rs nth_enumerate_eq cap_verdict_def counts_verdict_def Let_def)
  then show "map (warm_verdict ip now u) cs = rs" by (intro nth_equalityI) (simp_all add: rs)
  show "cold_candidates ip now u cs = []"
    using look by (auto simp: cold_candidates_def filter_empty_conv in_set_conv_nth)
qed

lemma evict_cold: "lookup (evict u ip) now u c = None"
  by (simp add: lookup_created created_def hm_get_def delete_conv')

lemma all_cold: "cold_candidates ip now u cs = cs \<longleftrightarrow> (\<forall>c \<in> set cs. lookup ip now u (cand_campaign_id c) = None)"
  by (simp add: cold_candidates_def filter_id_conv)

text \<open>
  C25. A cold check fills the cache for an hour: if the user was cold for all candidates and Redis
  answered, the in-process check returns the Redis verdicts and leaves an entry that was inserted
  when the answer came, or before it if the user was cached for other campaigns. Until an hour after
  the insertion a check of the same candidates with a closed breaker returns the same verdicts from
  the cache alone, whatever Redis would have said and whatever impressions it has counted since. From
  then on, and as soon as moka has evicted the user, every candidate is cold again and goes to Redis.
\<close>

theorem cold_miss_then_hit:
  assumes "br_state (rc_breaker fb) = Closed" and "cs \<noteq> []"
    and "distinct (map cand_campaign_id cs)" and "\<forall>c \<in> set cs. lookup ip now u (cand_campaign_id c) = None"
    and "me_first env (cap_keys u cs) = Inr vs" and "me_second env (cap_keys u cs) = Inr vs" and "now \<le> me_answered env"
    and "redis_check cfg env u cs fb = (Checked rs, fb')"
    and "br_state (rc_breaker fb2) = Closed"
  shows "\<exists>ip' t. in_process_check (redis_fallback cfg env) bcfg now u cs dev hour (ip, fb) = (Checked rs, ip', fb')
    \<and> created ip' u = Some t \<and> (t = me_answered env \<or> created ip u = Some t)
    \<and> (now2 < t + from_secs 3600 \<longrightarrow>
         in_process_check (redis_fallback cfg env2) bcfg now2 u cs dev hour (ip', fb2) = (Checked rs, ip', fb2))
    \<and> (t + from_secs 3600 \<le> now2 \<longrightarrow> cold_candidates ip' now2 u cs = cs)
    \<and> cold_candidates (evict u ip') now2 u cs = cs"
proof -
  let ?a = "me_answered env"
  have rs: "rs = map (cap_verdict vs) (List.enumerate 0 cs)"
    using redis_check_answer [OF assms(5,6,8)] .
  have "\<forall>c \<in> set cs. lookup ip ?a u (cand_campaign_id c) = None"
    using assms(4,7) lookup_stays_cold by blast
  then obtain ip' t where patched: "apply_fallback ?a u rs (map (warm_verdict ip now u) cs) ip = (rs, ip')"
    and look: "\<And>i. i < length cs \<Longrightarrow> lookup ip' ?a u (cand_campaign_id (cs ! i))
       = Some (the (cap_day_count (rs ! i)), the (cap_hour_count (rs ! i)))"
    and t: "created ip' u = Some t" "?a < t + cap_ttl" "t = ?a \<or> created ip u = Some t"
    using fallback_fills [OF assms(3,2) _ rs] by metis
  have "in_process_check (redis_fallback cfg env) bcfg now u cs dev hour (ip, fb) = (Checked rs, ip', fb')"
    using assms(1,2,8) all_cold [THEN iffD2, OF assms(4)]
    by (simp add: in_process_check_def redis_fallback_def allow_request_closed patched)
  moreover have "in_process_check (redis_fallback cfg env2) bcfg now2 u cs dev hour (ip', fb2) = (Checked rs, ip', fb2)"
    if "now2 < t + cap_ttl"
  proof -
    have "\<And>i. i < length cs \<Longrightarrow> lookup ip' now2 u (cand_campaign_id (cs ! i))
       = Some (the (cap_day_count (rs ! i)), the (cap_hour_count (rs ! i)))"
      using look lookup_live [OF t(1,2) that] by simp
    from warm_verdicts [OF rs this] show ?thesis
      using assms(9) by (simp add: in_process_check_def redis_fallback_def allow_request_closed)
  qed
  moreover have "cold_candidates ip' now2 u cs = cs" if "t + cap_ttl \<le> now2"
    using that t(1) by (simp add: all_cold lookup_created)
  moreover have "cold_candidates (evict u ip') now2 u cs = cs"
    by (simp add: all_cold evict_cold)
  ultimately show ?thesis using t unfolding cap_ttl_def by blast
qed

theorem cold_miss_then_hit_witness:
  "\<exists>ip' fb'. in_process_check (redis_fallback ex_cfg (ex_env (\<lambda>_. [Some 2, Some 1]))) (breaker_redis ''f'') 0 ''u1''
       [ex_candidate 7] 0 0 (in_process_new in_process_default, ex_capper)
       = (Checked [cap_verdict [Some 2, Some 1] (0, ex_candidate 7)], ip', fb')
     \<and> in_process_check (redis_fallback ex_cfg (ex_env (\<lambda>_. [Some 99, Some 99]))) (breaker_redis ''f'') (from_secs 3599) ''u1''
       [ex_candidate 7] 0 0 (ip', ex_capper)
       = (Checked [cap_verdict [Some 2, Some 1] (0, ex_candidate 7)], ip', ex_capper)"
proof -
  obtain fb' where c: "redis_check ex_cfg (ex_env (\<lambda>_. [Some 2, Some 1])) ''u1'' [ex_candidate 7] ex_capper
      = (Checked [cap_verdict [Some 2, Some 1] (0, ex_candidate 7)], fb')"
    using ex_redis_check by blast
  have b: "br_state (rc_breaker ex_capper) = Closed" by (simp add: ex_capper_def breaker_new_def)
  let ?ip = "in_process_new in_process_default"
  have cold: "\<forall>c \<in> set [ex_candidate 7]. lookup ?ip 0 ''u1'' (cand_campaign_id c) = None"
    by (simp add: lookup_def cache_get_def in_process_new_def)
  obtain ip' t where *: "in_process_check (redis_fallback ex_cfg (ex_env (\<lambda>_. [Some 2, Some 1]))) (breaker_redis ''f'') 0 ''u1''
       [ex_candidate 7] 0 0 (?ip, ex_capper) = (Checked [cap_verdict [Some 2, Some 1] (0, ex_candidate 7)], ip', fb')"
    and t: "t = 0 \<or> created ?ip ''u1'' = Some t"
    and hit: "from_secs 3599 < t + from_secs 3600 \<longrightarrow>
       in_process_check (redis_fallback ex_cfg (ex_env (\<lambda>_. [Some 99, Some 99]))) (breaker_redis ''f'') (from_secs 3599) ''u1''
         [ex_candidate 7] 0 0 (ip', ex_capper) = (Checked [cap_verdict [Some 2, Some 1] (0, ex_candidate 7)], ip', ex_capper)"
    using cold_miss_then_hit [OF b _ _ cold _ _ _ c b, of "[Some 2, Some 1]" "breaker_redis ''f''" 0 0 "from_secs 3599"
        "ex_env (\<lambda>_. [Some 99, Some 99])"]
    by (auto simp: ex_env_def)
  have "from_secs 3599 < t + from_secs 3600" by (simp add: from_secs_def)
  with * hit show ?thesis by blast
qed

text \<open>
  C39. The in-process capper can wedge the shared breaker: when the open period has elapsed, the
  first check (whatever its candidates) claims the half-open probe and never reports its outcome,
  also because the fallback is then refused by the same breaker; every later check is skipped, so
  caps are not enforced any more.
\<close>

theorem in_process_wedges_breaker:
  assumes "br_state (rc_breaker fb) = Open" and "br_opened_at (rc_breaker fb) = Some t"
    and "t + br_open_duration (cc_breaker cfg) \<le> now"
  shows "\<exists>out. in_process_checks cfg ((env, now, u, cs) # calls) (ip, fb) = out # map (\<lambda>_. SkippedTimeout) calls"
proof -
  obtain out ip' fb' where c: "in_process_check (redis_fallback cfg env) (cc_breaker cfg) now u cs 0 0 (ip, fb) = (out, ip', fb')"
    "br_state (rc_breaker fb') = HalfOpen" "br_probe_in_flight (rc_breaker fb')"
    using in_process_takes_probe [OF assms refl, of env u cs 0 0 ip] by blast
  show ?thesis using in_process_checks_refused [OF c(2,3)] by (simp add: c(1))
qed

theorem in_process_wedges_breaker_witness:
  "\<exists>out. in_process_checks ex_cfg
     [(ex_env (\<lambda>_. []), from_secs 10, ''u1'', []), (ex_env (\<lambda>_. []), from_secs 9999, ''u2'', [ex_candidate 7])]
     (in_process_new in_process_default, ex_capper\<lparr>rc_breaker := breaker_new\<lparr>br_state := Open, br_opened_at := Some 0\<rparr>\<rparr>)
     = [out, SkippedTimeout]"
  using in_process_wedges_breaker [of "ex_capper\<lparr>rc_breaker := breaker_new\<lparr>br_state := Open, br_opened_at := Some 0\<rparr>\<rparr>"
      0 ex_cfg "from_secs 10" "ex_env (\<lambda>_. [])" "''u1''" "[]" "[(ex_env (\<lambda>_. []), from_secs 9999, ''u2'', [ex_candidate 7])]"
      "in_process_new in_process_default"]
  by (simp add: ex_cfg_def breaker_redis_def)

text \<open>
  Evictions count impressions that never happened: after \<open>n\<close> recorded impressions of
  one user and campaign the write-behind queue stands for \<open>n\<close> increments in Redis, but once
  moka evicts the user it stands for \<open>n + 1\<close>.
\<close>

theorem eviction_counts_phantom:
  assumes "2 * (n + 2) \<le> ipc_write_buffer_size cfg" and "n + 2 \<le> recorder_capacity"
  shows "length (in_process_write_behind_drain (ip_queue (impressions now (n + 1) u c (in_process_new cfg))) recorder_new) = n + 1
    \<and> length (in_process_write_behind_drain (ip_queue (evict u (impressions now (n + 1) u c (in_process_new cfg)))) recorder_new) = n + 2"
proof -
  let ?ops = "[\<lparr>wb_user_id = u, wb_campaign_id = c, wb_window = Day\<rparr>, \<lparr>wb_user_id = u, wb_campaign_id = c, wb_window = Hour\<rparr>]"
  obtain counts where st: "impressions now (Suc n) u c (in_process_new cfg)
      = \<lparr>ip_counters = [(u, [(c, counts)], now)], ip_queue = concat (replicate (Suc n) ?ops),
         ip_buffer_size = ipc_write_buffer_size cfg\<rparr>"
    using impressions_state [of "n + 2" cfg n now u c] assms(1) by auto
  have len: "length (concat (replicate k ?ops)) = 2 * k" for k by (induction k) simp_all
  have days: "filter (\<lambda>op. wb_window op = Day) (concat (replicate k ?ops)) = replicate k (hd ?ops)" for k
    by (induction k) simp_all
  have q: "ip_queue (evict u (impressions now (Suc n) u c (in_process_new cfg))) = concat (replicate (Suc n) ?ops) @ ?ops"
    using assms(1) wb_pair_room len [of "Suc n"]
    by (simp add: st evict_def hm_get_def del: replicate_Suc)
  show ?thesis
    using assms(2) drain_room [of recorder_new "concat (replicate (Suc n) ?ops)"]
      drain_room [of recorder_new "concat (replicate (Suc n) ?ops) @ ?ops"] days [of "Suc n"] st q
    by (simp add: recorder_new_def del: replicate_Suc)
qed

theorem eviction_counts_phantom_witness:
  "length (in_process_write_behind_drain (ip_queue (evict ''u1'' (impressions 0 (2 + 1) ''u1'' 7
     (in_process_new in_process_default)))) recorder_new) = 4"
  using eviction_counts_phantom [of 2 in_process_default 0 "''u1''" 7]
  by (simp add: in_process_default_def recorder_capacity_def)

end
