(* ===== verification/Budget_Pacing.thy ===== *)
theory Budget_Pacing
  imports OpenRTB_Model
begin

text \<open>
  Budget pacing: the trait of \<open>pacing/mod.rs\<close> and the in-process pacer of
  \<open>pacing/local.rs\<close>.

  A pacer is a state with three operations, the record \<open>budget_pacer_ops\<close>; the locale
  \<open>budget_pacer\<close> is the contract the pipeline stages rely on, over the remaining budget of
  each campaign. The local pacer keeps one \<open>AtomicI64\<close> per campaign; it is interpreted as
  a budget pacer. Its operations are several atomic accesses, and the last section runs them in
  any interleaving: the read lock excludes \<open>reload\<close> in between, other threads may act
  between the decrement and the restoring increment.
\<close>

section \<open>The pacer interface\<close>

datatype pace_decision = HasBudget | Exhausted

record 'p budget_pacer_ops =
  pc_check_and_reserve :: "'p \<Rightarrow> campaign_id \<Rightarrow> i32 \<Rightarrow> pace_decision \<times> 'p"
  pc_release :: "'p \<Rightarrow> campaign_id \<Rightarrow> i32 \<Rightarrow> 'p"
  pc_reload :: "'p \<Rightarrow> (campaign_id \<times> i64) list \<Rightarrow> 'p"

section \<open>The local pacer\<close>

type_synonym local_pacer = "campaign_id \<rightharpoonup> i64"

definition local_pacer_new :: local_pacer where
  "local_pacer_new = Map.empty"

text \<open>
  \<open>fetch_sub\<close> and \<open>fetch_add\<close> return the previous value and wrap around.
\<close>

definition counter_fetch_sub :: "i64 \<Rightarrow> i64 \<Rightarrow> i64 \<times> i64" where
  "counter_fetch_sub counter x = (counter, i64_wrap (counter - x))"

definition counter_fetch_add :: "i64 \<Rightarrow> i64 \<Rightarrow> i64 \<times> i64" where
  "counter_fetch_add counter x = (counter, i64_wrap (counter + x))"

definition check_and_reserve :: "local_pacer \<Rightarrow> campaign_id \<Rightarrow> i32 \<Rightarrow> pace_decision \<times> local_pacer" where
  "check_and_reserve counters campaign bid_cents =
     (case counters campaign of
        None \<Rightarrow> (Exhausted, counters)
      | Some counter \<Rightarrow>
          (let (prev, counter1) = counter_fetch_sub counter bid_cents in
           if prev \<le> 0
           then (let (_, counter2) = counter_fetch_add counter1 bid_cents
                 in (Exhausted, counters(campaign \<mapsto> counter2)))
           else (HasBudget, counters(campaign \<mapsto> counter1))))"

definition release :: "local_pacer \<Rightarrow> campaign_id \<Rightarrow> i32 \<Rightarrow> local_pacer" where
  "release counters campaign bid_cents =
     (case counters campaign of
        None \<Rightarrow> counters
      | Some counter \<Rightarrow> counters(campaign \<mapsto> snd (counter_fetch_add counter bid_cents)))"

fun reload :: "local_pacer \<Rightarrow> (campaign_id \<times> i64) list \<Rightarrow> local_pacer" where
  "reload counters [] = counters"
| "reload counters ((i, budget_cents) # budgets) = reload (counters(i \<mapsto> budget_cents)) budgets"

definition LocalBudgetPacer :: "local_pacer budget_pacer_ops" where
  "LocalBudgetPacer =
     \<lparr>pc_check_and_reserve = check_and_reserve, pc_release = release, pc_reload = reload\<rparr>"

section \<open>The contract\<close>

text \<open>
  \<open>spend f r\<close> takes the amount \<open>f c\<close> from the remaining budget of every campaign.
\<close>

definition spend :: "(campaign_id \<Rightarrow> int) \<Rightarrow> (campaign_id \<rightharpoonup> i64) \<Rightarrow> (campaign_id \<rightharpoonup> i64)" where
  "spend f r = (\<lambda>c. map_option (\<lambda>b. i64_wrap (b - f c)) (r c))"

definition only :: "campaign_id \<Rightarrow> int \<Rightarrow> campaign_id \<Rightarrow> int" where
  "only c x = (\<lambda>d. if d = c then x else 0)"

definition balances_ok :: "(campaign_id \<rightharpoonup> i64) \<Rightarrow> bool" where
  "balances_ok r \<longleftrightarrow> (\<forall>c b. r c = Some b \<longrightarrow> in_i64 b)"

lemma spend_spend [simp]: "spend g (spend f r) = spend (\<lambda>c. f c + g c) r"
  by (rule ext) (simp add: spend_def option.map_comp o_def algebra_simps)

lemma spend_zero: "balances_ok r \<Longrightarrow> spend (\<lambda>c. 0) r = r"
  by (rule ext) (auto simp: spend_def balances_ok_def i64_wrap_id map_option_case split: option.splits)

lemma spend_zero_at: "balances_ok r \<Longrightarrow> f c = 0 \<Longrightarrow> spend f r c = r c"
  by (auto simp: spend_def balances_ok_def i64_wrap_id map_option_case split: option.splits)

lemma balances_ok_spend [simp]: "balances_ok (spend f r)"
  by (auto simp: balances_ok_def spend_def)

lemma dom_spend [simp]: "dom (spend f r) = dom r"
  by (auto simp: dom_def spend_def)

lemma spend_only: "balances_ok r \<Longrightarrow>
  spend (only c x) r = (case r c of None \<Rightarrow> r | Some b \<Rightarrow> r(c \<mapsto> i64_wrap (b - x)))"
  by (rule ext) (auto simp: spend_def only_def balances_ok_def i64_wrap_id map_option_case split: option.splits)

locale budget_pacer =
  fixes P :: "'p budget_pacer_ops" and remaining :: "'p \<Rightarrow> (campaign_id \<rightharpoonup> i64)"
    and invar :: "'p \<Rightarrow> bool"
  assumes invar_balances: "invar s \<Longrightarrow> balances_ok (remaining s)"
    and check_decision: "invar s \<Longrightarrow> pc_check_and_reserve P s c bid = (d, s') \<Longrightarrow>
          d = HasBudget \<longleftrightarrow> (\<exists>b > 0. remaining s c = Some b)"
    and check_remaining: "invar s \<Longrightarrow> pc_check_and_reserve P s c bid = (d, s') \<Longrightarrow>
          remaining s' = spend (only c (if d = HasBudget then bid else 0)) (remaining s)"
    and check_invar: "invar s \<Longrightarrow> pc_check_and_reserve P s c bid = (d, s') \<Longrightarrow> invar s'"
    and release_remaining: "invar s \<Longrightarrow>
          remaining (pc_release P s c bid) = spend (only c (- bid)) (remaining s)"
    and release_invar: "invar s \<Longrightarrow> invar (pc_release P s c bid)"
    and reload_remaining: "invar s \<Longrightarrow>
          remaining (pc_reload P s bs) = remaining s ++ map_of (rev bs)"
    and reload_invar: "invar s \<Longrightarrow> \<forall>b \<in> snd ` set bs. in_i64 b \<Longrightarrow> invar (pc_reload P s bs)"

lemma reload_map: "reload counters bs = counters ++ map_of (rev bs)"
proof (induction bs arbitrary: counters)
  case (Cons b bs)
  then show ?case
    by (cases b) (auto simp: fun_eq_iff map_add_def split: option.splits)
qed simp

lemma check_and_reserve_cases:
  assumes "balances_ok counters" "check_and_reserve counters c bid = (d, counters')"
  shows "d = HasBudget \<longleftrightarrow> (\<exists>b > 0. counters c = Some b)"
    and "counters' = spend (only c (if d = HasBudget then bid else 0)) counters"
proof -
  have wrap: "i64_wrap b = b" if "counters c = Some b" for b
    using assms(1) that by (auto simp: balances_ok_def i64_wrap_id)
  show "d = HasBudget \<longleftrightarrow> (\<exists>b > 0. counters c = Some b)"
    using assms(2)
    by (auto simp: check_and_reserve_def counter_fetch_sub_def counter_fetch_add_def split: option.splits if_splits)
  show "counters' = spend (only c (if d = HasBudget then bid else 0)) counters"
    using assms(2) wrap
    by (auto simp: check_and_reserve_def counter_fetch_sub_def counter_fetch_add_def
        spend_only [OF assms(1)] split: option.splits if_splits)
qed

lemma release_spend: "balances_ok counters \<Longrightarrow> release counters c bid = spend (only c (- bid)) counters"
  by (simp add: release_def counter_fetch_add_def spend_only split: option.splits)

lemma reload_balances:
  assumes "balances_ok counters" "\<forall>b \<in> snd ` set bs. in_i64 b"
  shows "balances_ok (reload counters bs)"
proof -
  have "in_i64 b" if "map_of (rev bs) c = Some b" for c b
    using map_of_SomeD [OF that] assms(2) by force
  then show ?thesis
    using assms(1) by (auto simp: balances_ok_def reload_map map_add_def split: option.splits)
qed

interpretation local_bp: budget_pacer LocalBudgetPacer "\<lambda>s. s" balances_ok
proof (unfold_locales, goal_cases)
  case (1 s)
  then show ?case .
next
  case (2 s c bid d s')
  then show ?case using check_and_reserve_cases(1) [of s c bid d s'] by (simp add: LocalBudgetPacer_def)
next
  case (3 s c bid d s')
  then show ?case using check_and_reserve_cases(2) [of s c bid d s'] by (simp add: LocalBudgetPacer_def)
next
  case (4 s c bid d s')
  then show ?case using check_and_reserve_cases(2) [of s c bid d s'] by (simp add: LocalBudgetPacer_def)
next
  case (5 s c bid)
  then show ?case by (simp add: LocalBudgetPacer_def release_spend)
next
  case (6 s c bid)
  then show ?case by (simp add: LocalBudgetPacer_def release_spend)
next
  case (7 s bs)
  then show ?case by (simp add: LocalBudgetPacer_def reload_map)
next
  case (8 s bs)
  then show ?case by (simp add: LocalBudgetPacer_def reload_balances)
qed

section \<open>Interleavings\<close>

text \<open>
  Threads act on shared counters. A thread whose \<open>fetch_sub\<close> saw no budget is recorded in
  \<open>ps_pending\<close> until its restoring \<open>fetch_add\<close>. The ledgers \<open>ps_granted\<close> and
  \<open>ps_released\<close> record what the calls told their callers.
\<close>

record pacer_sys =
  ps_counters :: local_pacer
  ps_pending :: "(campaign_id \<times> i32) multiset"
  ps_granted :: "campaign_id \<Rightarrow> int"
  ps_released :: "campaign_id \<Rightarrow> int"

datatype pacer_event =
  EvReserve campaign_id i32
| EvRestore campaign_id i32
| EvRelease campaign_id i32

inductive pacer_step :: "pacer_sys \<Rightarrow> pacer_event \<Rightarrow> pacer_sys \<Rightarrow> bool" where
  missing: "ps_counters s c = None \<Longrightarrow> pacer_step s (EvReserve c x) s"
| reserve: "ps_counters s c = Some v \<Longrightarrow> counter_fetch_sub v x = (prev, v') \<Longrightarrow> \<not> prev \<le> 0 \<Longrightarrow>
    pacer_step s (EvReserve c x)
      (s\<lparr>ps_counters := (ps_counters s)(c \<mapsto> v'),
         ps_granted := (ps_granted s)(c := ps_granted s c + x)\<rparr>)"
| reject: "ps_counters s c = Some v \<Longrightarrow> counter_fetch_sub v x = (prev, v') \<Longrightarrow> prev \<le> 0 \<Longrightarrow>
    pacer_step s (EvReserve c x)
      (s\<lparr>ps_counters := (ps_counters s)(c \<mapsto> v'), ps_pending := add_mset (c, x) (ps_pending s)\<rparr>)"
| restore: "(c, x) \<in># ps_pending s \<Longrightarrow> ps_counters s c = Some v \<Longrightarrow> counter_fetch_add v x = (prev, v') \<Longrightarrow>
    pacer_step s (EvRestore c x)
      (s\<lparr>ps_counters := (ps_counters s)(c \<mapsto> v'), ps_pending := ps_pending s - {#(c, x)#}\<rparr>)"
| give_back: "ps_counters s c = Some v \<Longrightarrow> counter_fetch_add v x = (prev, v') \<Longrightarrow>
    pacer_step s (EvRelease c x)
      (s\<lparr>ps_counters := (ps_counters s)(c \<mapsto> v'),
         ps_released := (ps_released s)(c := ps_released s c + x)\<rparr>)"
| give_back_missing: "ps_counters s c = None \<Longrightarrow> pacer_step s (EvRelease c x) s"

inductive pacer_run :: "pacer_sys \<Rightarrow> pacer_event list \<Rightarrow> pacer_sys \<Rightarrow> bool" where
  start: "pacer_run s [] s"
| step: "pacer_run s evs s' \<Longrightarrow> pacer_step s' ev s'' \<Longrightarrow> pacer_run s (evs @ [ev]) s''"

definition pacer_start :: "local_pacer \<Rightarrow> pacer_sys" where
  "pacer_start counters =
     \<lparr>ps_counters = counters, ps_pending = {#}, ps_granted = (\<lambda>c. 0), ps_released = (\<lambda>c. 0)\<rparr>"

text \<open>What the restoring threads still owe to a campaign.\<close>

definition owed :: "campaign_id \<Rightarrow> (campaign_id \<times> i32) multiset \<Rightarrow> int" where
  "owed c M = (\<Sum>(d, x) \<in># M. if d = c then x else 0)"

lemma owed_simps [simp]:
  "owed c {#} = 0"
  "owed c (add_mset (d, x) M) = (if d = c then x else 0) + owed c M"
  by (simp_all add: owed_def)

lemma owed_remove: "(d, x) \<in># M \<Longrightarrow> owed c (M - {#(d, x)#}) = owed c M - (if d = c then x else 0)"
  by (auto dest!: multi_member_split)

text \<open>The value a counter holds, before wrap-around.\<close>

definition ledger :: "int \<Rightarrow> pacer_sys \<Rightarrow> campaign_id \<Rightarrow> int" where
  "ledger b0 s c = b0 - ps_granted s c + ps_released s c - owed c (ps_pending s)"

inductive_cases pacer_stepE: "pacer_step s ev s'"

lemma pacer_step_ledger:
  assumes "pacer_step s ev s'"
    and "ps_counters s c = map_option (\<lambda>b. i64_wrap (ledger b s c)) (counters c)"
  shows "ps_counters s' c = map_option (\<lambda>b. i64_wrap (ledger b s' c)) (counters c)"
  using assms
proof cases
  case (reserve d v x prev v')
  then show ?thesis using assms(2)
    by (auto simp: ledger_def counter_fetch_sub_def map_option_case algebra_simps split: option.splits)
next
  case (reject d v x prev v')
  then show ?thesis using assms(2)
    by (auto simp: ledger_def counter_fetch_sub_def map_option_case algebra_simps split: option.splits)
next
  case (restore d x v prev v')
  then show ?thesis using assms(2)
    by (auto simp: ledger_def counter_fetch_add_def owed_remove map_option_case algebra_simps split: option.splits)
next
  case (give_back d v x prev v')
  then show ?thesis using assms(2)
    by (auto simp: ledger_def counter_fetch_add_def map_option_case algebra_simps split: option.splits)
qed (use assms(2) in simp_all)

lemma pacer_run_ledger:
  assumes "pacer_run (pacer_start counters) evs s" "balances_ok counters"
  shows "ps_counters s c = map_option (\<lambda>b. i64_wrap (ledger b s c)) (counters c)"
  using assms
proof (induction "pacer_start counters" evs s rule: pacer_run.induct)
  case start
  then show ?case
    by (auto simp: pacer_start_def ledger_def balances_ok_def i64_wrap_id map_option_case split: option.splits)
next
  case (step evs s ev s')
  then show ?case using pacer_step_ledger by blast
qed

fun amount :: "pacer_event \<Rightarrow> i32" where
  "amount (EvReserve c x) = x"
| "amount (EvRestore c x) = x"
| "amount (EvRelease c x) = x"

definition pending_nonneg :: "pacer_sys \<Rightarrow> bool" where
  "pending_nonneg s \<longleftrightarrow> (\<forall>(d, x) \<in># ps_pending s. 0 \<le> x)"

lemma pacer_step_pending:
  assumes "pacer_step s ev s'" "0 \<le> amount ev" "pending_nonneg s"
  shows "pending_nonneg s'"
  using assms by cases (auto simp: pending_nonneg_def dest: in_diffD)

lemma owed_nonneg:
  assumes "pending_nonneg s"
  shows "0 \<le> owed c (ps_pending s)"
proof -
  have "(\<forall>(d, x) \<in># M. 0 \<le> x) \<Longrightarrow> 0 \<le> owed c M" for M
    by (induction M) (auto split: prod.splits)
  then show ?thesis using assms by (simp add: pending_nonneg_def)
qed

lemma pacer_step_drift:
  assumes "pacer_step s ev s'" "0 \<le> amount ev" "amount ev \<le> M"
  shows "\<bar>ledger b s' c - ledger b s c\<bar> \<le> M"
  using assms by cases (auto simp: ledger_def owed_remove)

text \<open>A successful reservation needs a positive counter, so the net reservation exceeds the
  budget by less than the reserved amount.\<close>

lemma pacer_step_net:
  assumes "pacer_step s ev s'" "0 \<le> amount ev" "amount ev \<le> M" "pending_nonneg s"
    and "ps_counters s c = Some (ledger b s c)" "ps_granted s c - ps_released s c \<le> b + M"
  shows "ps_granted s' c - ps_released s' c \<le> b + M"
  using assms
proof cases
  case (reserve d v x prev v')
  show ?thesis
  proof (cases "d = c")
    case True
    then have "0 < ledger b s c" using reserve assms(5) by (simp add: counter_fetch_sub_def)
    then have "ps_granted s c - ps_released s c < b"
      using owed_nonneg [OF assms(4), of c] by (simp add: ledger_def)
    then show ?thesis using reserve True assms(3) by simp
  next
    case False
    then show ?thesis using reserve assms(6) by simp
  qed
qed (use assms in \<open>auto simp: fun_upd_def\<close>)

lemma pacer_run_bounded:
  assumes "pacer_run (pacer_start counters) evs s" "balances_ok counters"
    and b: "counters c = Some b" "0 \<le> b" "b \<le> 2 ^ 62"
    and M: "0 \<le> M" "M < 2 ^ 31" "\<forall>ev \<in> set evs. 0 \<le> amount ev \<and> amount ev \<le> M"
    and len: "int (length evs) \<le> 2 ^ 31"
  shows "\<bar>ledger b s c - b\<bar> \<le> int (length evs) * M \<and> pending_nonneg s \<and>
    ps_granted s c - ps_released s c \<le> b + M"
  using assms
proof (induction "pacer_start counters" evs s rule: pacer_run.induct)
  case start
  then show ?case by (simp add: pacer_start_def ledger_def pending_nonneg_def)
next
  case (step evs s ev s')
  have IH: "\<bar>ledger b s c - b\<bar> \<le> int (length evs) * M" "pending_nonneg s"
    "ps_granted s c - ps_released s c \<le> b + M"
    using step by simp_all
  have ev: "0 \<le> amount ev" "amount ev \<le> M" using step.prems by simp_all
  have "int (length evs) * M \<le> 2 ^ 31 * (2 ^ 31 - 1)"
    using step.prems by (intro mult_mono) simp_all
  then have "in_i64 (ledger b s c)"
    using IH(1) b by (simp add: in_i64_def abs_le_iff)
  then have c: "ps_counters s c = Some (ledger b s c)"
    using pacer_run_ledger [OF step.hyps(1) step.prems(1), of c] b by (simp add: i64_wrap_id)
  have "int (length (evs @ [ev])) * M = int (length evs) * M + M" by (simp add: algebra_simps)
  then have "\<bar>ledger b s' c - b\<bar> \<le> int (length (evs @ [ev])) * M"
    using pacer_step_drift [OF step.hyps(3) ev, of b c] IH(1) by linarith
  then show ?case
    using pacer_step_pending [OF step.hyps(3) ev(1) IH(2)] pacer_step_net [OF step.hyps(3) ev IH(2) c IH(3)]
    by blast
qed

text \<open>The sequential operations are runs of these events.\<close>

lemma pacer_run_one: "pacer_step s e s' \<Longrightarrow> pacer_run s [e] s'"
  using pacer_run.step [OF pacer_run.start] by fastforce

lemma pacer_run_two: "pacer_step s e s' \<Longrightarrow> pacer_step s' e' s'' \<Longrightarrow> pacer_run s [e, e'] s''"
  using pacer_run.step [OF pacer_run_one] by fastforce

lemma rejected_run:
  assumes "ps_counters s c = Some v" "v \<le> 0"
  shows "pacer_run s [EvReserve c x, EvRestore c x] (s\<lparr>ps_counters := (ps_counters s)(c \<mapsto> i64_wrap (i64_wrap (v - x) + x))\<rparr>)"
proof -
  let ?s = "s\<lparr>ps_counters := (ps_counters s)(c \<mapsto> i64_wrap (v - x)), ps_pending := add_mset (c, x) (ps_pending s)\<rparr>"
  have "pacer_step s (EvReserve c x) ?s"
    by (rule pacer_step.reject [OF assms(1) _ assms(2)]) (simp add: counter_fetch_sub_def)
  moreover have "pacer_step ?s (EvRestore c x) (?s\<lparr>ps_counters := (ps_counters ?s)(c \<mapsto> i64_wrap (i64_wrap (v - x) + x)),
      ps_pending := ps_pending ?s - {#(c, x)#}\<rparr>)"
    by (rule pacer_step.restore [of _ _ _ "i64_wrap (v - x)" "i64_wrap (v - x)"]) (simp_all add: counter_fetch_add_def)
  ultimately show ?thesis using pacer_run_two by fastforce
qed

lemma granted_run:
  assumes "ps_counters s c = Some v" "\<not> v \<le> 0"
  shows "pacer_run s [EvReserve c x] (s\<lparr>ps_counters := (ps_counters s)(c \<mapsto> i64_wrap (v - x)),
    ps_granted := (ps_granted s)(c := ps_granted s c + x)\<rparr>)"
  by (rule pacer_run_one, rule pacer_step.reserve [OF assms(1) _ assms(2)]) (simp add: counter_fetch_sub_def)

lemma check_and_reserve_run:
  assumes "check_and_reserve (ps_counters s) c x = (d, counters')"
  shows "\<exists>evs s'. pacer_run s evs s' \<and> ps_counters s' = counters' \<and> ps_pending s' = ps_pending s
    \<and> ps_granted s' = (ps_granted s)(c := ps_granted s c + (if d = HasBudget then x else 0))"
proof (cases "ps_counters s c")
  case None
  then show ?thesis
    using assms pacer_run_one [OF pacer_step.missing [OF None]]
    by (intro exI [of _ "[EvReserve c x]"] exI [of _ s]) (simp add: check_and_reserve_def)
next
  case (Some v)
  show ?thesis
  proof (cases "v \<le> 0")
    case True
    show ?thesis
      by (intro exI conjI, rule rejected_run [OF Some True])
        (use Some True assms in \<open>auto simp: check_and_reserve_def counter_fetch_sub_def counter_fetch_add_def\<close>)
  next
    case False
    show ?thesis
      by (intro exI conjI, rule granted_run [OF Some False])
        (use Some False assms in \<open>auto simp: check_and_reserve_def counter_fetch_sub_def\<close>)
  qed
qed

text \<open>An executable form of the step relation, for runs on concrete inputs.\<close>

definition pacer_exec :: "pacer_event \<Rightarrow> pacer_sys \<Rightarrow> pacer_sys option" where
  "pacer_exec ev s =
     (case ev of
        EvReserve c x \<Rightarrow>
          (case ps_counters s c of
             None \<Rightarrow> Some s
           | Some v \<Rightarrow>
               (let (prev, v') = counter_fetch_sub v x in
                if prev \<le> 0
                then Some (s\<lparr>ps_counters := (ps_counters s)(c \<mapsto> v'),
                             ps_pending := add_mset (c, x) (ps_pending s)\<rparr>)
                else Some (s\<lparr>ps_counters := (ps_counters s)(c \<mapsto> v'),
                             ps_granted := (ps_granted s)(c := ps_granted s c + x)\<rparr>)))
      | EvRestore c x \<Rightarrow>
          (case ps_counters s c of
             None \<Rightarrow> None
           | Some v \<Rightarrow>
               if (c, x) \<in># ps_pending s
               then Some (s\<lparr>ps_counters := (ps_counters s)(c \<mapsto> snd (counter_fetch_add v x)),
                            ps_pending := ps_pending s - {#(c, x)#}\<rparr>)
               else None)
      | EvRelease c x \<Rightarrow>
          (case ps_counters s c of
             None \<Rightarrow> Some s
           | Some v \<Rightarrow> Some (s\<lparr>ps_counters := (ps_counters s)(c \<mapsto> snd (counter_fetch_add v x)),
                                 ps_released := (ps_released s)(c := ps_released s c + x)\<rparr>)))"

lemma pacer_exec_step: "pacer_exec ev s = Some s' \<Longrightarrow> pacer_step s ev s'"
  by (cases ev)
    (auto simp: pacer_exec_def counter_fetch_sub_def counter_fetch_add_def
      intro: pacer_step.intros split: option.splits if_splits)

fun pacer_execs :: "pacer_event list \<Rightarrow> pacer_sys \<Rightarrow> pacer_sys option" where
  "pacer_execs [] s = Some s"
| "pacer_execs (ev # evs) s = (case pacer_exec ev s of None \<Rightarrow> None | Some s' \<Rightarrow> pacer_execs evs s')"

lemma pacer_run_append:
  assumes "pacer_run s2 evs2 s3" "pacer_run s1 evs1 s2"
  shows "pacer_run s1 (evs1 @ evs2) s3"
  using assms
proof (induction s2 evs2 s3 rule: pacer_run.induct)
  case (step s evs s' ev s'')
  then have "pacer_run s1 ((evs1 @ evs) @ [ev]) s''" by (blast intro: pacer_run.step)
  then show ?case by simp
qed simp

lemma pacer_execs_run: "pacer_execs evs s = Some s' \<Longrightarrow> pacer_run s evs s'"
proof (induction evs arbitrary: s)
  case (Cons ev evs)
  then obtain s1 where "pacer_exec ev s = Some s1" "pacer_execs evs s1 = Some s'"
    by (auto split: option.splits)
  then have "pacer_run s ([] @ [ev]) s1" "pacer_run s1 evs s'"
    using Cons.IH pacer_exec_step pacer_run.step [OF pacer_run.start] by blast+
  then show ?case using pacer_run_append by fastforce
qed (simp add: pacer_run.start)

section \<open>Properties\<close>

text \<open>
  C11. Conservation under concurrency: in every interleaving of reserving, restoring and releasing
  threads that has come to rest (no thread is between its decrement and its restore), the counter
  of every campaign is its starting budget minus what was granted plus what was released, modulo
  the 64-bit wrap-around; no update is lost and a rejected reservation leaves no trace.
\<close>

theorem pacer_conservation:
  assumes "balances_ok counters" and "pacer_run (pacer_start counters) evs s" and "ps_pending s = {#}"
  shows "ps_counters s = spend (\<lambda>c. ps_granted s c - ps_released s c) counters"
proof (rule ext)
  fix c
  show "ps_counters s c = spend (\<lambda>c. ps_granted s c - ps_released s c) counters c"
    using pacer_run_ledger [OF assms(2,1), of c] assms(3)
    by (simp add: spend_def ledger_def algebra_simps)
qed

definition demo_run :: "pacer_event list" where
  "demo_run = [EvReserve 1 60, EvReserve 1 60, EvReserve 1 10, EvRelease 1 60, EvRestore 1 10]"

lemma demo_run_exec:
  "\<exists>s. pacer_run (pacer_start [1 \<mapsto> 100]) demo_run s \<and> ps_pending s = {#} \<and> ps_granted s 1 = 120
     \<and> ps_released s 1 = 60"
proof -
  have "\<exists>s. pacer_execs demo_run (pacer_start [1 \<mapsto> 100]) = Some s \<and> ps_pending s = {#}
      \<and> ps_granted s 1 = 120 \<and> ps_released s 1 = 60"
    by (simp add: demo_run_def pacer_exec_def pacer_start_def counter_fetch_sub_def
        counter_fetch_add_def i64_wrap_def)
  then show ?thesis using pacer_execs_run by blast
qed

theorem pacer_conservation_witness:
  "\<exists>s. pacer_run (pacer_start [1 \<mapsto> 100]) demo_run s \<and> ps_counters s 1 = Some 40"
proof -
  obtain s where s: "pacer_run (pacer_start [1 \<mapsto> 100]) demo_run s" "ps_pending s = {#}"
    "ps_granted s 1 = 120" "ps_released s 1 = 60"
    using demo_run_exec by blast
  have "balances_ok [1 \<mapsto> 100]" by (simp add: balances_ok_def in_i64_def)
  then have "ps_counters s 1 = spend (\<lambda>c. ps_granted s c - ps_released s c) [1 \<mapsto> 100] 1"
    using pacer_conservation [OF _ s(1,2)] by simp
  then show ?thesis using s by (auto simp: spend_def i64_wrap_def)
qed

text \<open>
  C5. Bounded overspend: whatever the interleaving, the net amount reserved for a campaign exceeds
  its budget by at most one bid. (Budgets up to 2^62 cents, bids that are non-negative 32-bit
  amounts of at most \<open>M\<close>, and up to 2^31 accesses between two reloads, so that the
  counter cannot wrap around.)
\<close>

theorem pacer_overspend_bound:
  assumes "balances_ok counters" and "pacer_run (pacer_start counters) evs s"
    and "counters c = Some b" and "0 \<le> b" and "b \<le> 2 ^ 62"
    and "0 \<le> M" and "M < 2 ^ 31" and "\<forall>ev \<in> set evs. 0 \<le> amount ev \<and> amount ev \<le> M"
    and "int (length evs) \<le> 2 ^ 31"
  shows "ps_granted s c - ps_released s c \<le> b + M"
  using pacer_run_bounded [OF assms(2,1,3-9)] by blast

theorem pacer_overspend_bound_witness:
  "\<exists>s. pacer_run (pacer_start [1 \<mapsto> 100]) demo_run s \<and> ps_granted s 1 - ps_released s 1 \<le> 160"
proof -
  obtain s where s: "pacer_run (pacer_start [1 \<mapsto> 100]) demo_run s"
    using demo_run_exec by blast
  have "ps_granted s 1 - ps_released s 1 \<le> 100 + 60"
    by (rule pacer_overspend_bound [OF _ s]) (simp_all add: balances_ok_def in_i64_def demo_run_def)
  then show ?thesis using s by auto
qed

end
