(* ===== verification/Clock.thy ===== *)
theory Clock
  imports Bidder_Prelude
begin

text \<open>
  The UTC calendar helpers of \<open>clock.rs\<close> and the hour-of-week of
  \<open>catalog/loader.rs\<close>. The clock reading, seconds since the Unix epoch, is an argument. The
  lemmas give the ranges of the results and relate the hour of the week that selects the daypart
  bit to the day and hour the scorer sees.
\<close>

definition current_hour_of_day :: "u64 \<Rightarrow> u8" where
  "current_hour_of_day secs = of_nat ((secs mod 86400) div 3600)"

definition current_day_of_week_utc :: "u64 \<Rightarrow> u8" where
  "current_day_of_week_utc secs = (let day_count = secs div 86400 in of_nat ((day_count + 3) mod 7))"

definition is_weekend_utc :: "u64 \<Rightarrow> bool" where
  "is_weekend_utc secs \<longleftrightarrow> current_day_of_week_utc secs = 5 \<or> current_day_of_week_utc secs = 6"

definition day_and_hour_from_unix :: "u64 \<Rightarrow> u8 \<times> u8" where
  "day_and_hour_from_unix secs =
     (let day_count = secs div 86400; dow = of_nat ((day_count + 3) mod 7);
          hour = of_nat ((secs mod 86400) div 3600)
      in (dow, hour))"

definition current_hour_of_week :: "u64 \<Rightarrow> i32" where
  "current_hour_of_week secs =
     (let day_of_week = (secs div 86400 + 3) mod 7; hour_of_day = (secs mod 86400) div 3600
      in int (day_of_week * 24 + hour_of_day))"

lemma hour_lt_24: "(secs mod 86400) div 3600 < (24 :: nat)"
proof -
  have "secs mod 86400 < 24 * 3600" by simp
  then show ?thesis by (simp only: less_mult_imp_div_less)
qed

lemma unat_u8_small: "n < 256 \<Longrightarrow> unat (of_nat n :: u8) = n"
  by (simp add: unat_of_nat)

lemma current_hour_of_day_unat: "unat (current_hour_of_day secs) = (secs mod 86400) div 3600"
  using hour_lt_24 [of secs] by (simp add: current_hour_of_day_def unat_u8_small)

lemma current_day_of_week_unat: "unat (current_day_of_week_utc secs) = (secs div 86400 + 3) mod 7"
proof -
  have "(secs div 86400 + 3) mod 7 < 7" by (rule mod_less_divisor) simp
  then have "(secs div 86400 + 3) mod 7 < 256" by linarith
  then show ?thesis unfolding current_day_of_week_utc_def Let_def by (rule unat_u8_small)
qed

lemma day_and_hour_agree:
  "day_and_hour_from_unix secs = (current_day_of_week_utc secs, current_hour_of_day secs)"
  by (simp add: day_and_hour_from_unix_def current_day_of_week_utc_def current_hour_of_day_def Let_def)

lemma current_hour_of_week_eq:
  "current_hour_of_week secs =
     24 * int (unat (current_day_of_week_utc secs)) + int (unat (current_hour_of_day secs))"
  by (simp add: current_hour_of_week_def current_day_of_week_unat current_hour_of_day_unat Let_def)

lemma current_hour_of_week_range: "0 \<le> current_hour_of_week secs" "current_hour_of_week secs < 168"
proof -
  have "(secs div 86400 + 3) mod 7 < 7" by (rule mod_less_divisor) simp
  then have "(secs div 86400 + 3) mod 7 * 24 + (secs mod 86400) div 3600 < 168"
    using hour_lt_24 [of secs] by linarith
  then show "current_hour_of_week secs < 168"
    unfolding current_hour_of_week_def Let_def by linarith
  show "0 \<le> current_hour_of_week secs"
    unfolding current_hour_of_week_def Let_def by (rule of_nat_0_le_iff)
qed

text \<open>One week later every reading is the same.\<close>

lemma week_shift_day: "(secs + 604800) div 86400 = secs div 86400 + (7 :: nat)"
  using div_mult_self1 [of 86400 secs 7] by simp

lemma week_shift_second: "(secs + 604800) mod 86400 = secs mod (86400 :: nat)"
  using mod_mult_self1 [of secs 7 86400] by simp

lemma current_hour_of_week_periodic: "current_hour_of_week (secs + 604800) = current_hour_of_week secs"
proof -
  have "(secs div 86400 + 7 + 3) mod 7 = (secs div 86400 + 3) mod (7 :: nat)"
    using mod_add_self2 [of "secs div 86400 + 3" 7] by (simp add: add.assoc add.commute)
  then show ?thesis
    by (simp only: current_hour_of_week_def Let_def week_shift_day week_shift_second)
qed

end
