(* ===== verification/Auction_Stages.thy ===== *)
theory Auction_Stages
  imports Bid_Context Frequency_Capping Budget_Pacing Clock
begin

text \<open>
  The stages that decide the auction: \<open>freq_cap.rs\<close>, \<open>budget_pacing.rs\<close> and
  \<open>ranking.rs\<close> of \<open>pipeline/stages\<close>, over the interfaces \<open>capper_ops\<close> and
  \<open>budget_pacer_ops\<close>. The lemmas on budgets are proved in the locale \<open>budget_pacer\<close> and used
  through its interpretation on the local pacer.
\<close>

section \<open>Frequency capping\<close>

definition capped_ids :: "cap_result list \<Rightarrow> u32 set" where
  "capped_ids results = cap_campaign_id ` set (filter cap_capped results)"

definition cap_imp ::
  "'f capper_ops \<Rightarrow> string \<Rightarrow> u8 \<Rightarrow> u8 \<Rightarrow> nat \<Rightarrow> ad_candidate list
   \<Rightarrow> (usize \<times> u32 \<times> bool) list \<times> 'f \<Rightarrow> ad_candidate list \<times> (usize \<times> u32 \<times> bool) list \<times> 'f" where
  "cap_imp F uid device_type_val hour imp_idx cs st =
     (case st of (recorded, f) \<Rightarrow>
      if cs = [] then (cs, recorded, f)
      else
       (case fc_check F f uid cs device_type_val hour of
          (Checked results, f1) \<Rightarrow>
            (filter (\<lambda>c. cand_campaign_id c \<notin> capped_ids results) cs,
             recorded @ map (\<lambda>r. (imp_idx, cap_campaign_id r, cap_capped r)) results, f1)
        | (_, f1) \<Rightarrow> (cs, recorded, f1)))"

definition freq_cap_stage :: "'f capper_ops \<Rightarrow> u64 \<Rightarrow> ('b, ('b, 'r, 's, 'f, 'p) services) stage" where
  "freq_cap_stage F unix_secs =
     \<lparr>st_name = ''frequency_cap'',
      st_execute = (\<lambda>ctx w.
        case request_user_id (ctx_request ctx) of
          None \<Rightarrow> (Inr (), ctx, w)
        | Some uid \<Rightarrow>
            (let device_type_val = (case request_device_type (ctx_request ctx) of
                                      Some dt \<Rightarrow> device_type_raw dt | None \<Rightarrow> 0);
                 (cands, recorded, f) =
                   mapi_state (cap_imp F uid device_type_val (current_hour_of_day unix_secs)) 0
                     (ctx_candidates ctx) (ctx_freq_cap_results ctx, sv_capper w)
             in (Inr (), ctx\<lparr>ctx_candidates := cands, ctx_freq_cap_results := recorded\<rparr>, w\<lparr>sv_capper := f\<rparr>)))\<rparr>"

section \<open>Budget pacing\<close>

fun reserve_all :: "'p budget_pacer_ops \<Rightarrow> ad_candidate list \<Rightarrow> 'p \<Rightarrow> u32 list \<times> 'p" where
  "reserve_all P [] p = ([], p)"
| "reserve_all P (c # cs) p =
     (let (decision, p1) = pc_check_and_reserve P p (cand_campaign_id c) (cand_bid_price_cents c);
          (exhausted_ids, p2) = reserve_all P cs p1
      in (if decision = Exhausted then cand_campaign_id c # exhausted_ids else exhausted_ids, p2))"

definition pace_imp :: "'p budget_pacer_ops \<Rightarrow> nat \<Rightarrow> ad_candidate list \<Rightarrow> 'p \<Rightarrow> ad_candidate list \<times> 'p" where
  "pace_imp P imp_idx cs p =
     (if cs = [] then (cs, p)
      else
       (let (exhausted_ids, p1) = reserve_all P cs p
        in (filter (\<lambda>c. cand_campaign_id c \<notin> set exhausted_ids) cs, p1)))"

definition budget_pacing_stage :: "'p budget_pacer_ops \<Rightarrow> ('b, ('b, 'r, 's, 'f, 'p) services) stage" where
  "budget_pacing_stage P =
     \<lparr>st_name = ''budget_pacing'',
      st_execute = (\<lambda>ctx w.
        let (cands, p) = mapi_state (pace_imp P) 0 (ctx_candidates ctx) (sv_pacer w);
            ctx1 = ctx\<lparr>ctx_candidates := cands\<rparr>
        in (Inr (), if \<forall>cs \<in> set cands. cs = [] then ctx1\<lparr>ctx_outcome := NoBid NO_ELIGIBLE_BIDS\<rparr> else ctx1,
            w\<lparr>sv_pacer := p\<rparr>))\<rparr>"

section \<open>Ranking\<close>

definition rank_cmp :: "ad_candidate \<Rightarrow> ad_candidate \<Rightarrow> ordering" where
  "rank_cmp a b =
     ord_then (case partial_cmp (cand_score a) (cand_score b) of Some r \<Rightarrow> r | None \<Rightarrow> Equal)
       (cmp (cand_bid_price_cents a) (cand_bid_price_cents b))"

definition winner_imp_id :: "bid_request \<Rightarrow> nat \<Rightarrow> string" where
  "winner_imp_id req idx = (if idx < length (req_imp req) then imp_id (req_imp req ! idx) else nat_str idx)"

definition release_all :: "'p budget_pacer_ops \<Rightarrow> ad_candidate list \<Rightarrow> 'p \<Rightarrow> 'p" where
  "release_all P cs p = foldl (\<lambda>p c. pc_release P p (cand_campaign_id c) (cand_bid_price_cents c)) p cs"

definition rank_imp :: "'p budget_pacer_ops \<Rightarrow> bid_request \<Rightarrow> nat \<Rightarrow> ad_candidate list \<Rightarrow> 'p \<Rightarrow> imp_winner option \<times> 'p" where
  "rank_imp P req idx cs p =
     (case max_by rank_cmp cs of
        None \<Rightarrow> (None, p)
      | Some w \<Rightarrow>
          (Some \<lparr>win_imp_id = winner_imp_id req idx, win_campaign_id = cand_campaign_id w, win_creative_id = cand_creative_id w,
                 win_bid_price_cents = cand_bid_price_cents w, win_score = cand_score w\<rparr>,
           release_all P (filter (\<lambda>c. cand_campaign_id c \<noteq> cand_campaign_id w) cs) p))"

text \<open>The winners of the impressions that have one.\<close>

fun somes :: "'a option list \<Rightarrow> 'a list" where
  "somes [] = []"
| "somes (None # xs) = somes xs"
| "somes (Some x # xs) = x # somes xs"

definition ranking_stage :: "'p budget_pacer_ops \<Rightarrow> ('b, ('b, 'r, 's, 'f, 'p) services) stage" where
  "ranking_stage P =
     \<lparr>st_name = ''ranking'',
      st_execute = (\<lambda>ctx w.
        let (ws, p) = mapi_state (rank_imp P (ctx_request ctx)) 0 (ctx_candidates ctx) (sv_pacer w);
            winners = ctx_winners ctx @ somes ws
        in (Inr (), ctx\<lparr>ctx_winners := winners,
                        ctx_outcome := (if winners = [] then NoBid NO_ELIGIBLE_BIDS else Bid)\<rparr>,
            w\<lparr>sv_pacer := p\<rparr>))\<rparr>"

section \<open>Budgets\<close>

text \<open>What a list of candidates reserves from a campaign, and what the winners cost it.\<close>

definition held :: "ad_candidate list \<Rightarrow> campaign_id \<Rightarrow> int" where
  "held cs c = (\<Sum>a \<leftarrow> cs. if cand_campaign_id a = c then cand_bid_price_cents a else 0)"

definition sold :: "imp_winner list \<Rightarrow> campaign_id \<Rightarrow> int" where
  "sold ws c = (\<Sum>a \<leftarrow> ws. if win_campaign_id a = c then win_bid_price_cents a else 0)"

lemma held_simps [simp]:
  "held [] = (\<lambda>c. 0)"
  "held (a # cs) c = (if cand_campaign_id a = c then cand_bid_price_cents a else 0) + held cs c"
  "held (as @ bs) c = held as c + held bs c"
  by (auto simp: held_def)

lemma sold_simps [simp]:
  "sold [] = (\<lambda>c. 0)"
  "sold (a # ws) c = (if win_campaign_id a = c then win_bid_price_cents a else 0) + sold ws c"
  "sold (us @ vs) c = sold us c + sold vs c"
  by (auto simp: sold_def)

definition distinct_campaigns :: "ad_candidate list \<Rightarrow> bool" where
  "distinct_campaigns cs \<longleftrightarrow> distinct (map cand_campaign_id cs)"

lemma held_other: "c \<notin> cand_campaign_id ` set cs \<Longrightarrow> held cs c = 0"
  by (induction cs) auto

lemma held_winner:
  assumes "distinct_campaigns cs" "w \<in> set cs"
  shows "held (filter (\<lambda>a. cand_campaign_id a \<noteq> cand_campaign_id w) cs) c =
    held cs c - (if cand_campaign_id w = c then cand_bid_price_cents w else 0)"
  using assms
proof (induction cs)
  case (Cons a cs)
  have rest: "held (filter (\<lambda>a. cand_campaign_id a \<noteq> d) cs) c = held cs c" if "d \<notin> cand_campaign_id ` set cs" for d
  proof -
    have "filter (\<lambda>a. cand_campaign_id a \<noteq> d) cs = cs" using that by (auto simp: filter_id_conv)
    then show ?thesis by simp
  qed
  show ?case
  proof (cases "w = a")
    case True
    then show ?thesis using Cons.prems rest by (auto simp: distinct_campaigns_def)
  next
    case False
    then have "w \<in> set cs" "cand_campaign_id a \<noteq> cand_campaign_id w"
      using Cons.prems by (auto simp: distinct_campaigns_def)
    then show ?thesis using Cons by (simp add: distinct_campaigns_def)
  qed
qed simp

context budget_pacer
begin

lemma reserve_all_remaining:
  assumes "invar p" "distinct_campaigns cs" "reserve_all P cs p = (ex, p')"
  shows "invar p' \<and> set ex \<subseteq> cand_campaign_id ` set cs \<and>
    remaining p' = spend (held (filter (\<lambda>c. cand_campaign_id c \<notin> set ex) cs)) (remaining p)"
  using assms
proof (induction cs arbitrary: p ex p')
  case Nil
  then show ?case using spend_zero [OF invar_balances] by simp
next
  case (Cons a cs)
  obtain d p1 where check: "pc_check_and_reserve P p (cand_campaign_id a) (cand_bid_price_cents a) = (d, p1)"
    by (cases "pc_check_and_reserve P p (cand_campaign_id a) (cand_bid_price_cents a)")
  obtain ex1 p2 where rest: "reserve_all P cs p1 = (ex1, p2)" by (cases "reserve_all P cs p1")
  have p1: "invar p1" "remaining p1 = spend (only (cand_campaign_id a) (if d = HasBudget then cand_bid_price_cents a else 0)) (remaining p)"
    using check_invar [OF Cons.prems(1) check] check_remaining [OF Cons.prems(1) check] by simp_all
  have IH: "invar p2" "set ex1 \<subseteq> cand_campaign_id ` set cs"
      "remaining p2 = spend (held (filter (\<lambda>c. cand_campaign_id c \<notin> set ex1) cs)) (remaining p1)"
    using Cons.IH [OF p1(1) _ rest] Cons.prems(2) by (auto simp: distinct_campaigns_def)
  have fresh: "cand_campaign_id a \<notin> cand_campaign_id ` set cs" using Cons.prems(2) by (simp add: distinct_campaigns_def)
  have eq: "ex = (if d = Exhausted then cand_campaign_id a # ex1 else ex1)" "p' = p2"
    using Cons.prems(3) check rest by auto
  have kept: "filter (\<lambda>c. cand_campaign_id c \<notin> set ex) cs = filter (\<lambda>c. cand_campaign_id c \<notin> set ex1) cs"
    using fresh eq(1) by (intro filter_cong) (auto simp: image_iff split: if_splits)
  have "(\<lambda>c. only (cand_campaign_id a) (if d = HasBudget then cand_bid_price_cents a else 0) c
            + held (filter (\<lambda>c. cand_campaign_id c \<notin> set ex1) cs) c)
      = held (filter (\<lambda>c. cand_campaign_id c \<notin> set ex) (a # cs))"
    using fresh IH(2) eq(1) kept by (cases d) (auto simp: only_def fun_eq_iff)
  then show ?case using IH eq p1(2) by (auto simp: algebra_simps)
qed

lemma pace_imp_remaining:
  assumes "invar p" "distinct_campaigns cs" "pace_imp P i cs p = (cs', p')"
  shows "invar p' \<and> remaining p' = spend (held cs') (remaining p) \<and> set cs' \<subseteq> set cs \<and> distinct_campaigns cs'"
proof (cases "cs = []")
  case True
  then show ?thesis using assms spend_zero [OF invar_balances] by (auto simp: pace_imp_def)
next
  case False
  then show ?thesis
    using assms reserve_all_remaining [OF assms(1,2)]
    by (auto simp: pace_imp_def distinct_campaigns_def distinct_map_filter split: prod.splits)
qed

lemma release_all_remaining:
  assumes "invar p"
  shows "invar (release_all P cs p) \<and> remaining (release_all P cs p) = spend (\<lambda>c. - held cs c) (remaining p)"
  using assms
proof (induction cs arbitrary: p)
  case Nil
  then show ?case using spend_zero [OF invar_balances] by (simp add: release_all_def)
next
  case (Cons a cs)
  let ?p = "pc_release P p (cand_campaign_id a) (cand_bid_price_cents a)"
  have p: "invar ?p" "remaining ?p = spend (only (cand_campaign_id a) (- cand_bid_price_cents a)) (remaining p)"
    using Cons.prems by (simp_all add: release_invar release_remaining)
  have "(\<lambda>c. only (cand_campaign_id a) (- cand_bid_price_cents a) c + - held cs c) = (\<lambda>c. - held (a # cs) c)"
    by (auto simp: only_def fun_eq_iff)
  then show ?case using Cons.IH [OF p(1)] p(2) by (simp add: release_all_def)
qed

lemma rank_imp_remaining:
  assumes "invar p" "distinct_campaigns cs" "rank_imp P req i cs p = (ow, p')"
  shows "invar p' \<and> remaining p' = spend (\<lambda>c. sold (somes [ow]) c - held cs c) (remaining p)"
proof (cases "max_by rank_cmp cs")
  case None
  then have "cs = []" by simp
  then show ?thesis
    using assms spend_zero [OF invar_balances] by (auto simp: rank_imp_def max_by_def)
next
  case (Some w)
  have "(\<lambda>c. - held (filter (\<lambda>a. cand_campaign_id a \<noteq> cand_campaign_id w) cs) c) =
      (\<lambda>c. (if cand_campaign_id w = c then cand_bid_price_cents w else 0) - held cs c)"
    using held_winner [OF assms(2) max_by_in [OF Some]] by auto
  then show ?thesis
    using Some assms release_all_remaining [OF assms(1)] by (auto simp: rank_imp_def cong: if_cong)
qed

lemma pace_all_remaining:
  assumes "invar p" "\<forall>cs \<in> set css. distinct_campaigns cs" "mapi_state (pace_imp P) i css p = (css', p')"
  shows "invar p' \<and> remaining p' = spend (held (concat css')) (remaining p) \<and>
    list_all2 (\<lambda>cs' cs. set cs' \<subseteq> set cs \<and> distinct_campaigns cs') css' css"
  using assms
proof (induction css arbitrary: i p css' p')
  case Nil
  then show ?case using spend_zero [OF invar_balances] by auto
next
  case (Cons cs css)
  obtain cs1 p1 where one: "pace_imp P i cs p = (cs1, p1)" by (cases "pace_imp P i cs p")
  obtain rest p2 where more: "mapi_state (pace_imp P) (Suc i) css p1 = (rest, p2)"
    by (cases "mapi_state (pace_imp P) (Suc i) css p1")
  have p1: "invar p1" "remaining p1 = spend (held cs1) (remaining p)" "set cs1 \<subseteq> set cs" "distinct_campaigns cs1"
    using pace_imp_remaining [OF Cons.prems(1) _ one] Cons.prems(2) by simp_all
  have "(\<lambda>c. held cs1 c + held (concat rest) c) = held (concat (cs1 # rest))" by auto
  then show ?case using Cons.IH [OF p1(1) _ more] Cons.prems one more p1 by auto
qed

lemma rank_all_remaining:
  assumes "invar p" "\<forall>cs \<in> set css. distinct_campaigns cs" "mapi_state (rank_imp P req) i css p = (ws, p')"
  shows "invar p' \<and> remaining p' = spend (\<lambda>c. sold (somes ws) c - held (concat css) c) (remaining p)"
  using assms
proof (induction css arbitrary: i p ws p')
  case Nil
  then show ?case using spend_zero [OF invar_balances] by auto
next
  case (Cons cs css)
  obtain w1 p1 where one: "rank_imp P req i cs p = (w1, p1)" by (cases "rank_imp P req i cs p")
  obtain rest p2 where more: "mapi_state (rank_imp P req) (Suc i) css p1 = (rest, p2)"
    by (cases "mapi_state (rank_imp P req) (Suc i) css p1")
  have p1: "invar p1" "remaining p1 = spend (\<lambda>c. sold (somes [w1]) c - held cs c) (remaining p)"
    using rank_imp_remaining [OF Cons.prems(1) _ one] Cons.prems(2) by simp_all
  have IH: "invar p2" "remaining p2 = spend (\<lambda>c. sold (somes rest) c - held (concat css) c) (remaining p1)"
    using Cons.IH [OF p1(1) _ more] Cons.prems(2) by simp_all
  have sum: "(\<lambda>c. sold (somes [w1]) c - held cs c + (sold (somes rest) c - held (concat css) c))
      = (\<lambda>c. sold (somes (w1 # rest)) c - held (concat (cs # css)) c)"
    by (cases w1) auto
  have "ws = w1 # rest" "p' = p2" using Cons.prems(3) one more by simp_all
  moreover have "remaining p2 = spend (\<lambda>c. sold (somes (w1 # rest)) c - held (concat (cs # css)) c) (remaining p)"
    by (simp only: IH(2) p1(2) spend_spend sum)
  ultimately show ?case using IH(1) by simp
qed

lemma settle_remaining:
  assumes "invar p" "\<forall>cs \<in> set css. distinct_campaigns cs" "mapi_state (pace_imp P) 0 css p = (kept, p1)"
    and "mapi_state (rank_imp P req) 0 kept p1 = (ws, p2)"
  shows "invar p2 \<and> remaining p2 = spend (sold (somes ws)) (remaining p)"
proof -
  have pace: "invar p1" "remaining p1 = spend (held (concat kept)) (remaining p)" "\<forall>cs \<in> set kept. distinct_campaigns cs"
    using pace_all_remaining [OF assms(1-3)] by (auto simp: list_all2_conv_all_nth in_set_conv_nth)
  have "(\<lambda>c. held (concat kept) c + (sold (somes ws) c - held (concat kept) c)) = sold (somes ws)"
    by simp
  then show ?thesis using rank_all_remaining [OF pace(1,3) assms(4)] pace(2) by simp
qed

end

text \<open>
  After pacing and ranking, the budget of every campaign is what it was before less the prices of
  the impressions it won: every other reservation pacing made has been released. When pacing leaves
  no candidate at all, and the pipeline stops there, no budget has changed.
\<close>

theorem auction_settles_budget:
  fixes w :: "('b, 'r, 's, 'f, local_pacer) services"
  assumes "balances_ok (sv_pacer w)" "\<forall>cs \<in> set (ctx_candidates ctx). distinct_campaigns cs" "ctx_winners ctx = []"
    and pacing: "st_execute (budget_pacing_stage LocalBudgetPacer) ctx w = (r1, ctx1, w1)"
    and ranking: "st_execute (ranking_stage LocalBudgetPacer) ctx1 w1 = (r2, ctx2, w2)"
  shows "sv_pacer w2 = spend (sold (ctx_winners ctx2)) (sv_pacer w) \<and>
    ((\<forall>cs \<in> set (ctx_candidates ctx1). cs = []) \<longrightarrow> sv_pacer w1 = sv_pacer w)"
proof -
  obtain kept p1 where pace: "mapi_state (pace_imp LocalBudgetPacer) 0 (ctx_candidates ctx) (sv_pacer w) = (kept, p1)"
    by (cases "mapi_state (pace_imp LocalBudgetPacer) 0 (ctx_candidates ctx) (sv_pacer w)")
  have c1: "ctx_candidates ctx1 = kept" "ctx_winners ctx1 = []" "sv_pacer w1 = p1"
    using pacing pace assms(3) by (auto simp: budget_pacing_stage_def Let_def split: if_splits)
  obtain ws p2 where rank: "mapi_state (rank_imp LocalBudgetPacer (ctx_request ctx1)) 0 kept p1 = (ws, p2)"
    by (cases "mapi_state (rank_imp LocalBudgetPacer (ctx_request ctx1)) 0 kept p1")
  have c2: "ctx_winners ctx2 = somes ws" "sv_pacer w2 = p2"
    using ranking rank c1 by (auto simp: ranking_stage_def Let_def)
  have "p1 = spend (held (concat kept)) (sv_pacer w)"
    using local_bp.pace_all_remaining [OF assms(1,2) pace] by simp
  moreover have "held (concat kept) = (\<lambda>c. 0)" if "\<forall>cs \<in> set kept. cs = []"
    using that by (metis concat_eq_Nil_conv held_simps(1))
  ultimately show ?thesis
    using local_bp.settle_remaining [OF assms(1,2) pace rank] c1 c2 spend_zero [OF assms(1)] by auto
qed

text \<open>
  When the deadline passes between pacing and ranking, the request ends without a bid and without
  a winner, and every reservation pacing made for it stays taken from the budgets: no later stage
  gives it back.
\<close>

theorem deadline_keeps_reservations:
  fixes w :: "('b, 'r, 's, 'f, local_pacer) services"
  assumes "balances_ok (sv_pacer w)" "\<forall>cs \<in> set (ctx_candidates ctx). distinct_campaigns cs"
    and late: "elapsed_ms ctx (now i) < dl" "dl \<le> elapsed_ms ctx (now (Suc i))"
    and run: "execute_from dl now i (budget_pacing_stage LocalBudgetPacer # ranking_stage LocalBudgetPacer # rest) ctx w = (r, ctx', w')"
    and kept: "\<exists>cs \<in> set (ctx_candidates ctx'). cs \<noteq> []" and pending: "\<not> is_no_bid (ctx_outcome ctx)"
  shows "ctx_outcome ctx' = NoBid PIPELINE_DEADLINE \<and> ctx_winners ctx' = ctx_winners ctx \<and>
    sv_pacer w' = spend (held (concat (ctx_candidates ctx'))) (sv_pacer w)"
proof -
  obtain cands p1 where pace: "mapi_state (pace_imp LocalBudgetPacer) 0 (ctx_candidates ctx) (sv_pacer w) = (cands, p1)"
    by (cases "mapi_state (pace_imp LocalBudgetPacer) 0 (ctx_candidates ctx) (sv_pacer w)")
  have same: "elapsed_ms (ctx\<lparr>ctx_candidates := cands\<rparr>) t = elapsed_ms ctx t" for t by (simp add: elapsed_ms_def)
  show ?thesis
    using run late kept pending pace local_bp.pace_all_remaining [OF assms(1,2) pace]
    by (auto simp: budget_pacing_stage_def Let_def same not_le split: if_splits)
qed

section \<open>Winners\<close>

definition winner_of :: "bid_request \<Rightarrow> nat \<Rightarrow> ad_candidate \<Rightarrow> imp_winner" where
  "winner_of req idx a = \<lparr>win_imp_id = winner_imp_id req idx, win_campaign_id = cand_campaign_id a,
     win_creative_id = cand_creative_id a, win_bid_price_cents = cand_bid_price_cents a, win_score = cand_score a\<rparr>"

text \<open>The indices of the impressions that still have candidates.\<close>

definition open_imps :: "nat \<Rightarrow> ad_candidate list list \<Rightarrow> nat list" where
  "open_imps k css = filter (\<lambda>i. css ! (i - k) \<noteq> []) [k..<k + length css]"

lemma open_imps_simps [simp]:
  "open_imps k [] = []"
  "open_imps k (cs # css) = (if cs = [] then open_imps (Suc k) css else k # open_imps (Suc k) css)"
proof -
  have upt: "[k..<k + length (cs # css)] = k # [Suc k..<Suc k + length css]" by (simp add: upt_conv_Cons del: upt_Suc)
  have "filter (\<lambda>i. (cs # css) ! (i - k) \<noteq> []) [Suc k..<Suc k + length css]
      = filter (\<lambda>i. css ! (i - Suc k) \<noteq> []) [Suc k..<Suc k + length css]"
    by (intro filter_cong refl) (auto simp: nth_Cons')
  then show "open_imps k (cs # css) = (if cs = [] then open_imps (Suc k) css else k # open_imps (Suc k) css)"
    unfolding open_imps_def upt by (cases cs) (simp_all del: upt_Suc add_Suc)
qed (simp add: open_imps_def)

lemma open_imps_bounds: "i \<in> set (open_imps k css) \<Longrightarrow> k \<le> i \<and> i < k + length css \<and> css ! (i - k) \<noteq> []"
  by (simp add: open_imps_def)

lemma rank_all_winners:
  "somes (fst (mapi_state (rank_imp P req) k css p)) =
     map (\<lambda>i. winner_of req i (the (max_by rank_cmp (css ! (i - k))))) (open_imps k css)"
proof (induction css arbitrary: k p)
  case (Cons cs css)
  obtain w1 p1 where one: "rank_imp P req k cs p = (w1, p1)" by (cases "rank_imp P req k cs p")
  obtain rest p2 where more: "mapi_state (rank_imp P req) (Suc k) css p1 = (rest, p2)"
    by (cases "mapi_state (rank_imp P req) (Suc k) css p1")
  have IH: "somes rest = map (\<lambda>i. winner_of req i (the (max_by rank_cmp (css ! (i - Suc k))))) (open_imps (Suc k) css)"
    using Cons.IH [of "Suc k" p1] more by simp
  have shift: "map (\<lambda>i. winner_of req i (the (max_by rank_cmp ((cs # css) ! (i - k))))) (open_imps (Suc k) css)
      = map (\<lambda>i. winner_of req i (the (max_by rank_cmp (css ! (i - Suc k))))) (open_imps (Suc k) css)"
    by (intro map_cong refl) (auto dest!: open_imps_bounds simp: nth_Cons')
  show ?case
  proof (cases "max_by rank_cmp cs")
    case None
    then have "cs = []" "w1 = None" using one by (auto simp: rank_imp_def max_by_def split: list.splits)
    then show ?thesis using one more IH shift by simp
  next
    case (Some a)
    then have "cs \<noteq> []" "w1 = Some (winner_of req k a)"
      using one by (auto simp: rank_imp_def winner_of_def max_by_def)
    then show ?thesis using Some one more IH shift by simp
  qed
qed simp

definition rank_key :: "ad_candidate \<Rightarrow> (int \<times> rat) \<times> int" where
  "rank_key a = (fkey (cand_score a), cand_bid_price_cents a)"

lemma rank_cmp_key: "cand_score a \<noteq> NaN \<Longrightarrow> cand_score b \<noteq> NaN \<Longrightarrow> rank_cmp a b = cmp (rank_key a) (rank_key b)"
  by (cases "fkey (cand_score a)" "fkey (cand_score b)" rule: linorder_cases)
     (auto simp: rank_cmp_def partial_cmp_fkey rank_key_def cmp_def less_prod_simp)

text \<open>
  C20. Ranking picks one winner for every impression that still has candidates, in the order of the
  impressions and under their ids. If no score is NaN, the winner is a candidate of that impression
  with the highest score and, among those, the highest price; the outcome is a bid exactly if there
  is a winner.
\<close>

theorem ranking_picks_best:
  fixes w :: "('b, 'r, 's, 'f, 'p) services"
  assumes "ctx_winners ctx = []" "\<forall>cs \<in> set (ctx_candidates ctx). \<forall>a \<in> set cs. cand_score a \<noteq> NaN"
    and run: "st_execute (ranking_stage P) ctx w = (r, ctx', w')"
  shows "\<exists>best. ctx_winners ctx' = map (\<lambda>i. winner_of (ctx_request ctx) i (best i)) (open_imps 0 (ctx_candidates ctx)) \<and>
    (\<forall>i \<in> set (open_imps 0 (ctx_candidates ctx)). best i \<in> set (ctx_candidates ctx ! i) \<and>
       (\<forall>a \<in> set (ctx_candidates ctx ! i). flt_lt (cand_score a) (cand_score (best i)) \<or>
          partial_cmp (cand_score a) (cand_score (best i)) = Some Equal \<and> cand_bid_price_cents a \<le> cand_bid_price_cents (best i))) \<and>
    ctx_outcome ctx' = (if open_imps 0 (ctx_candidates ctx) = [] then NoBid NO_ELIGIBLE_BIDS else Bid)"
proof -
  let ?css = "ctx_candidates ctx" and ?best = "\<lambda>i. the (max_by rank_cmp (ctx_candidates ctx ! i))"
  have ws: "ctx_winners ctx' = map (\<lambda>i. winner_of (ctx_request ctx) i (?best i)) (open_imps 0 ?css)"
      "ctx_outcome ctx' = (if ctx_winners ctx' = [] then NoBid NO_ELIGIBLE_BIDS else Bid)"
    using run assms(1) rank_all_winners [of P "ctx_request ctx" 0 ?css "sv_pacer w"]
    by (auto simp: ranking_stage_def Let_def split: prod.splits)
  have best: "?best i \<in> set (?css ! i) \<and> (\<forall>a \<in> set (?css ! i). flt_lt (cand_score a) (cand_score (?best i)) \<or>
      partial_cmp (cand_score a) (cand_score (?best i)) = Some Equal \<and> cand_bid_price_cents a \<le> cand_bid_price_cents (?best i))"
    if "i \<in> set (open_imps 0 ?css)" for i
  proof -
    have i: "i < length ?css" "?css ! i \<noteq> []" using open_imps_bounds [OF that] by simp_all
    then obtain v where v: "max_by rank_cmp (?css ! i) = Some v" by (cases "max_by rank_cmp (?css ! i)") auto
    have nan: "cand_score a \<noteq> NaN" if "a \<in> set (?css ! i)" for a using assms(2) i(1) that nth_mem by blast
    have vin: "v \<in> set (?css ! i)" using max_by_in [OF v] .
    have "flt_lt (cand_score a) (cand_score v) \<or> partial_cmp (cand_score a) (cand_score v) = Some Equal \<and>
        cand_bid_price_cents a \<le> cand_bid_price_cents v" if a: "a \<in> set (?css ! i)" for a
    proof -
      have "rank_key a \<le> rank_key v" using max_by_ge [OF v _ a, of rank_key] rank_cmp_key nan by blast
      then have "fkey (cand_score a) < fkey (cand_score v) \<or>
          fkey (cand_score a) = fkey (cand_score v) \<and> cand_bid_price_cents a \<le> cand_bid_price_cents v"
        unfolding rank_key_def less_eq_prod_simp by force
      then show ?thesis using nan [OF a] nan [OF vin] by (auto simp: flt_lt_fkey partial_cmp_fkey)
    qed
    then show ?thesis using v vin by simp
  qed
  show ?thesis using ws best by (intro exI [of _ ?best]) auto
qed

section \<open>Capped candidates\<close>

lemma cap_imp_filters:
  assumes "cap_imp F uid dt hour k cs (rs, f) = (cs', rs', f')"
  shows "\<exists>new. rs' = rs @ new \<and> (\<forall>x \<in> set new. fst x = k) \<and>
    cs' = filter (\<lambda>c. (k, cand_campaign_id c, True) \<notin> set new) cs"
  using assms
  by (auto simp: cap_imp_def capped_ids_def image_iff intro!: filter_cong
      split: if_splits prod.splits freq_cap_outcome.splits)

lemma cap_all_filters:
  assumes "mapi_state (cap_imp F uid dt hour) k css (rs, f) = (css', rs', f')"
  shows "length css' = length css \<and> (\<exists>new. rs' = rs @ new \<and> (\<forall>x \<in> set new. k \<le> fst x) \<and>
    (\<forall>j < length css. css' ! j = filter (\<lambda>c. (k + j, cand_campaign_id c, True) \<notin> set new) (css ! j)))"
  using assms
proof (induction css arbitrary: k rs f css')
  case (Cons cs css)
  obtain cs1 rs1 f1 where one: "cap_imp F uid dt hour k cs (rs, f) = (cs1, rs1, f1)"
    by (cases "cap_imp F uid dt hour k cs (rs, f)")
  obtain rest where more: "mapi_state (cap_imp F uid dt hour) (Suc k) css (rs1, f1) = (rest, rs', f')" "css' = cs1 # rest"
    using Cons.prems one by (auto split: prod.splits)
  obtain new1 where new1: "rs1 = rs @ new1" "\<forall>x \<in> set new1. fst x = k"
      "cs1 = filter (\<lambda>c. (k, cand_campaign_id c, True) \<notin> set new1) cs"
    using cap_imp_filters [OF one] by blast
  obtain new2 where new2: "length rest = length css" "rs' = rs1 @ new2" "\<forall>x \<in> set new2. Suc k \<le> fst x"
      "\<forall>j < length css. rest ! j = filter (\<lambda>c. (Suc k + j, cand_campaign_id c, True) \<notin> set new2) (css ! j)"
    using Cons.IH [OF more(1)] by blast
  have own: "(k, c, b) \<notin> set new2" and later: "(Suc k + j, c, b) \<notin> set new1" for c b j
    using new1(2) new2(3) by fastforce+
  have "css' ! j = filter (\<lambda>c. (k + j, cand_campaign_id c, True) \<notin> set (new1 @ new2)) ((cs # css) ! j)"
    if "j < length (cs # css)" for j
    using that new1(3) new2(4) more(2) own later by (cases j) auto
  moreover have "\<forall>x \<in> set (new1 @ new2). k \<le> fst x" using new1(2) new2(3) by force
  ultimately show ?case using new1(1) new2(1,2) more(2) by (intro conjI exI [of _ "new1 @ new2"]) auto
qed simp

text \<open>
  One check of the capper on the candidates of an impression, from one state of the capper to the
  next, and the candidates that are left: all but those whose campaign it found capped, or all of
  them if the check was skipped.
\<close>

definition checked_imp ::
  "'f capper_ops \<Rightarrow> string \<Rightarrow> u8 \<Rightarrow> u8 \<Rightarrow> ad_candidate list \<Rightarrow> 'f \<Rightarrow> ad_candidate list \<Rightarrow> 'f \<Rightarrow> bool" where
  "checked_imp F uid dt hour cs f kept f' \<longleftrightarrow>
     (if cs = [] then kept = [] \<and> f' = f
      else
        (\<exists>outcome. fc_check F f uid cs dt hour = (outcome, f') \<and>
           kept = (case outcome of
                     Checked verdicts \<Rightarrow> filter (\<lambda>c. \<forall>v \<in> set verdicts. cap_campaign_id v = cand_campaign_id c \<longrightarrow> \<not> cap_capped v) cs
                   | _ \<Rightarrow> cs)))"

lemma cap_imp_checks:
  assumes "cap_imp F uid dt hour k cs (rs, f) = (cs', rs', f')"
  shows "checked_imp F uid dt hour cs f cs' f'"
  using assms
  by (auto simp: cap_imp_def checked_imp_def capped_ids_def image_iff intro!: filter_cong split: if_splits prod.splits freq_cap_outcome.splits)

lemma cap_all_checks:
  assumes "mapi_state (cap_imp F uid dt hour) k css (rs, f) = (css', rs', f')"
  shows "\<exists>fs. length fs = Suc (length css) \<and> fs ! 0 = f \<and> fs ! length css = f' \<and>
    (\<forall>j < length css. checked_imp F uid dt hour (css ! j) (fs ! j) (css' ! j) (fs ! Suc j))"
  using assms
proof (induction css arbitrary: k rs f css')
  case Nil
  then show ?case by (intro exI [of _ "[f]"]) simp
next
  case (Cons cs css)
  obtain cs1 rs1 f1 where one: "cap_imp F uid dt hour k cs (rs, f) = (cs1, rs1, f1)"
    by (cases "cap_imp F uid dt hour k cs (rs, f)")
  obtain rest where more: "mapi_state (cap_imp F uid dt hour) (Suc k) css (rs1, f1) = (rest, rs', f')" "css' = cs1 # rest"
    using Cons.prems one by (auto split: prod.splits)
  obtain fs where fs: "length fs = Suc (length css)" "fs ! 0 = f1" "fs ! length css = f'"
      "\<forall>j < length css. checked_imp F uid dt hour (css ! j) (fs ! j) (rest ! j) (fs ! Suc j)"
    using Cons.IH [OF more(1)] by blast
  have "checked_imp F uid dt hour ((cs # css) ! j) ((f # fs) ! j) (css' ! j) ((f # fs) ! Suc j)" if "j < length (cs # css)" for j
    using that cap_imp_checks [OF one] fs more(2) by (cases j) simp_all
  then show ?case using fs by (intro exI [of _ "f # fs"]) simp
qed

text \<open>
  C23. The frequency cap stage asks the capper once for every impression that has candidates, in their
  order, with the user, the device type and the hour of the request, and removes exactly the candidates
  whose campaign is capped according to a verdict of that check; the order of the others stays. A
  check that was skipped removes nothing, and without a user the stage does nothing.
\<close>

theorem freq_cap_removes_reported:
  fixes w :: "('b, 'r, 's, 'f, 'p) services"
  assumes "st_execute (freq_cap_stage F secs) ctx w = (r, ctx', w')"
  shows "r = Inr () \<and> w' = w\<lparr>sv_capper := sv_capper w'\<rparr> \<and>
    (case request_user_id (ctx_request ctx) of
       None \<Rightarrow> ctx' = ctx \<and> w' = w
     | Some uid \<Rightarrow>
         length (ctx_candidates ctx') = length (ctx_candidates ctx) \<and>
         (\<exists>fs. length fs = Suc (length (ctx_candidates ctx)) \<and> fs ! 0 = sv_capper w \<and> fs ! length (ctx_candidates ctx) = sv_capper w' \<and>
            (\<forall>i < length (ctx_candidates ctx).
               checked_imp F uid (case request_device_type (ctx_request ctx) of Some dt \<Rightarrow> device_type_raw dt | None \<Rightarrow> 0)
                 (current_hour_of_day secs) (ctx_candidates ctx ! i) (fs ! i) (ctx_candidates ctx' ! i) (fs ! Suc i))))"
proof (cases "request_user_id (ctx_request ctx)")
  case None
  then show ?thesis using assms by (simp add: freq_cap_stage_def)
next
  case (Some uid)
  define dt where "dt = (case request_device_type (ctx_request ctx) of Some dt \<Rightarrow> device_type_raw dt | None \<Rightarrow> 0)"
  obtain cands rs f where run: "mapi_state (cap_imp F uid dt (current_hour_of_day secs)) 0 (ctx_candidates ctx)
      (ctx_freq_cap_results ctx, sv_capper w) = (cands, rs, f)"
    using prod_cases3 by blast
  have "r = Inr ()" "ctx' = ctx\<lparr>ctx_candidates := cands, ctx_freq_cap_results := rs\<rparr>" "w' = w\<lparr>sv_capper := f\<rparr>"
    using assms Some run by (auto simp: freq_cap_stage_def Let_def dt_def)
  then show ?thesis using cap_all_checks [OF run] cap_all_filters [OF run] Some by (simp add: dt_def)
qed

section \<open>An example\<close>

definition ex_bidder :: "u32 \<Rightarrow> i32 \<Rightarrow> int \<Rightarrow> ad_candidate" where
  "ex_bidder c price score = \<lparr>cand_campaign_id = c, cand_creative_id = c + 10, cand_bid_price_cents = price,
     cand_score = Num score 0, cand_daily_cap_imps = 5, cand_hourly_cap_imps = 5\<rparr>"

definition ex_auction :: "u32 set bid_context" where
  "ex_auction = (bid_context_new \<lparr>req_id = ''r1'', req_imp = [], req_site = None, req_app = None, req_dooh = None,
     req_device = None, req_user = None, req_at = None, req_tmax = None, req_wseat = [], req_bseat = [],
     req_cur = None, req_wlang = [], req_bcat = [], req_badv = [], req_bapp = [], req_source = None,
     req_regs = None, req_test = 0, req_ext_value = None\<rparr> 0)
     \<lparr>ctx_candidates := [[ex_bidder 1 120 3, ex_bidder 2 90 5, ex_bidder 3 80 5]]\<rparr>"

definition ex_services :: "(u32 set, unit, unit, unit, local_pacer) services" where
  "ex_services = \<lparr>sv_catalog = new_for_test set_bitmap [] [] [] [] [] [] {} {}, sv_segments = (), sv_scorer = (),
     sv_capper = (), sv_pacer = [1 \<mapsto> 1000, 2 \<mapsto> 1000, 3 \<mapsto> 0]\<rparr>"

lemmas ex_auction_simps = ex_auction_def bid_context_new_def ex_services_def ex_bidder_def

lemmas local_pacer_simps = LocalBudgetPacer_def check_and_reserve_def release_def counter_fetch_sub_def
  counter_fetch_add_def i64_wrap_def

lemma ex_pacing:
  "st_execute (budget_pacing_stage LocalBudgetPacer) ex_auction ex_services =
     (Inr (), ex_auction\<lparr>ctx_candidates := [[ex_bidder 1 120 3, ex_bidder 2 90 5]]\<rparr>,
      ex_services\<lparr>sv_pacer := [1 \<mapsto> 880, 2 \<mapsto> 910, 3 \<mapsto> 0]\<rparr>)"
  by (simp add: ex_auction_simps local_pacer_simps budget_pacing_stage_def pace_imp_def fun_upd_twist)

lemma ex_auction_ok:
  "balances_ok (sv_pacer ex_services)" "\<forall>cs \<in> set (ctx_candidates ex_auction). distinct_campaigns cs"
  "ctx_winners ex_auction = []"
  by (auto simp: ex_auction_simps balances_ok_def in_i64_def distinct_campaigns_def split: if_splits)

text \<open>The best of two bidders with budget wins, and only its campaign pays.\<close>

lemma ex_ranking_winner: "max_by rank_cmp [ex_bidder 1 120 3, ex_bidder 2 90 5] = Some (ex_bidder 2 90 5)"
  by code_simp

theorem auction_settles_budget_witness:
  "\<exists>ctx1 ctx2 w1 w2. st_execute (budget_pacing_stage LocalBudgetPacer) ex_auction ex_services = (Inr (), ctx1, w1) \<and>
     st_execute (ranking_stage LocalBudgetPacer) ctx1 w1 = (Inr (), ctx2, w2) \<and>
     sv_pacer w2 1 = Some 1000 \<and> sv_pacer w2 2 = Some 910"
proof -
  let ?ctx1 = "ex_auction\<lparr>ctx_candidates := [[ex_bidder 1 120 3, ex_bidder 2 90 5]]\<rparr>"
  let ?w1 = "ex_services\<lparr>sv_pacer := [1 \<mapsto> 880, 2 \<mapsto> 910, 3 \<mapsto> 0]\<rparr>"
  obtain r2 ctx2 w2 where rank: "st_execute (ranking_stage LocalBudgetPacer) ?ctx1 ?w1 = (r2, ctx2, w2)"
    using prod_cases3 by blast
  have won: "r2 = Inr ()" "sold (ctx_winners ctx2) = (\<lambda>c. if c = 2 then 90 else 0)"
    using rank ex_ranking_winner
    by (auto simp: ranking_stage_def rank_imp_def ex_auction_def bid_context_new_def Let_def ex_bidder_def)
  have "sv_pacer w2 = spend (sold (ctx_winners ctx2)) (sv_pacer ex_services)"
    using auction_settles_budget [OF ex_auction_ok ex_pacing rank] by simp
  then show ?thesis using ex_pacing rank won by (auto simp: spend_def ex_services_def i64_wrap_def)
qed

theorem ranking_picks_best_witness:
  "\<exists>ctx' w'. st_execute (ranking_stage LocalBudgetPacer) ex_auction ex_services = (Inr (), ctx', w') \<and>
     ctx_outcome ctx' = Bid \<and> (\<exists>a. ctx_winners ctx' = [winner_of (ctx_request ex_auction) 0 a] \<and> cand_score a = Num 5 0)"
proof -
  obtain r ctx' w' where run: "st_execute (ranking_stage LocalBudgetPacer) ex_auction ex_services = (r, ctx', w')"
    using prod_cases3 by blast
  have imps: "open_imps 0 (ctx_candidates ex_auction) = [0]" by (simp add: ex_auction_def)
  have scores: "\<forall>cs \<in> set (ctx_candidates ex_auction). \<forall>a \<in> set cs. cand_score a \<noteq> NaN"
    by (simp add: ex_auction_def ex_bidder_def)
  obtain best where best: "ctx_winners ctx' = [winner_of (ctx_request ex_auction) 0 (best 0)]" "ctx_outcome ctx' = Bid"
      "best 0 \<in> set (ctx_candidates ex_auction ! 0)"
      "\<forall>a \<in> set (ctx_candidates ex_auction ! 0). flt_lt (cand_score a) (cand_score (best 0)) \<or>
         partial_cmp (cand_score a) (cand_score (best 0)) = Some Equal \<and> cand_bid_price_cents a \<le> cand_bid_price_cents (best 0)"
    using ranking_picks_best [OF ex_auction_ok(3) scores run] imps by auto
  have lt: "\<not> flt_lt (Num 5 0) (Num 3 0)" "partial_cmp (Num 5 0) (Num 3 0) \<noteq> Some Equal" by code_simp+
  have "cand_score (best 0) = Num 5 0" using best(3,4) lt by (auto simp: ex_auction_def ex_bidder_def)
  moreover have "r = Inr ()" using run by (auto simp: ranking_stage_def Let_def split: prod.splits)
  ultimately show ?thesis using run best(1,2) by auto
qed

text \<open>A clock that shows one second before the second stage.\<close>

lemma ms_of_secs:
  "flt_mul binary64 (flt_add binary64 (flt_of_int binary64 0) (flt_div binary64 (flt_of_int binary64 0)
     (flt_of_int binary64 1000000000))) (flt_of_int binary64 1000) = Num 0 0"
  "flt_mul binary64 (flt_add binary64 (flt_of_int binary64 1) (flt_div binary64 (flt_of_int binary64 0)
     (flt_of_int binary64 1000000000))) (flt_of_int binary64 1000) = Num 125 3"
  by code_simp+

lemma elapsed_none: "elapsed_ms ctx (ctx_started_at ctx) = 0"
  using ms_of_secs(1) by (simp add: elapsed_ms_def as_secs_f64_def num_floor_def)

lemma elapsed_second: "elapsed_ms ctx (ctx_started_at ctx + 1000000000) = 1000"
  using ms_of_secs(2) by (simp add: elapsed_ms_def as_secs_f64_def num_floor_def u64_max_def)

lemma ex_elapsed: "elapsed_ms ex_auction 0 = 0" "elapsed_ms ex_auction 1000000000 = 1000"
  using elapsed_none [of ex_auction] elapsed_second [of ex_auction] by (simp_all add: ex_auction_def bid_context_new_def)

theorem deadline_keeps_reservations_witness:
  "\<exists>ctx' w'. execute_from 50 (\<lambda>i. if i = 0 then 0 else 1000000000) 0
       [budget_pacing_stage LocalBudgetPacer, ranking_stage LocalBudgetPacer] ex_auction ex_services = (Inr (), ctx', w') \<and>
     ctx_winners ctx' = [] \<and> sv_pacer w' 1 = Some 880 \<and> sv_pacer w' 2 = Some 910"
proof -
  let ?now = "\<lambda>i. if i = 0 then 0 else 1000000000"
  obtain r ctx' w' where run: "execute_from 50 ?now 0 [budget_pacing_stage LocalBudgetPacer, ranking_stage LocalBudgetPacer]
      ex_auction ex_services = (r, ctx', w')"
    using prod_cases3 by blast
  have same: "elapsed_ms (ex_auction\<lparr>ctx_candidates := cs\<rparr>) t = elapsed_ms ex_auction t" for cs t
    by (simp add: elapsed_ms_def)
  have pending: "ctx_outcome ex_auction = Pending" by (simp add: ex_auction_simps)
  have ends: "ctx_candidates ctx' = [[ex_bidder 1 120 3, ex_bidder 2 90 5]]" "r = Inr ()"
    using run ex_pacing ex_elapsed same pending by auto
  have "ctx_winners ctx' = ctx_winners ex_auction \<and>
      sv_pacer w' = spend (held (concat (ctx_candidates ctx'))) (sv_pacer ex_services)"
    using deadline_keeps_reservations [OF ex_auction_ok(1,2) _ _ run] ends ex_elapsed pending by simp
  then show ?thesis
    using run ends ex_auction_ok(3) by (auto simp: spend_def ex_services_def ex_bidder_def i64_wrap_def)
qed

text \<open>A capper that reports campaign 2 as capped.\<close>

definition ex_capper_ops :: "unit capper_ops" where
  "ex_capper_ops = \<lparr>fc_check = (\<lambda>f uid cs dt hour.
     (Checked (map (\<lambda>c. \<lparr>cap_campaign_id = cand_campaign_id c, cap_capped = cand_campaign_id c = 2,
        cap_day_count = None, cap_hour_count = None\<rparr>) cs), f))\<rparr>"

theorem freq_cap_removes_reported_witness:
  "\<exists>ctx' w'. st_execute (freq_cap_stage ex_capper_ops 0) (ex_auction\<lparr>ctx_request := (ctx_request ex_auction)
       \<lparr>req_user := Some \<lparr>user_id = Some ''u1'', user_buyeruid = None, user_yob = None, user_gender = None, user_keywords = None,
          user_customdata = None, user_geo = None, user_data = [], user_eids = None, user_ext_value = None\<rparr>\<rparr>\<rparr>) ex_services
     = (Inr (), ctx', w') \<and> ctx_candidates ctx' ! 0 = [ex_bidder 1 120 3, ex_bidder 3 80 5]"
proof -
  let ?ctx = "ex_auction\<lparr>ctx_request := (ctx_request ex_auction)
       \<lparr>req_user := Some \<lparr>user_id = Some ''u1'', user_buyeruid = None, user_yob = None, user_gender = None, user_keywords = None,
          user_customdata = None, user_geo = None, user_data = [], user_eids = None, user_ext_value = None\<rparr>\<rparr>\<rparr>"
  obtain r ctx' w' where run: "st_execute (freq_cap_stage ex_capper_ops 0) ?ctx ex_services = (r, ctx', w')"
    using prod_cases3 by blast
  have user: "request_user_id (ctx_request ?ctx) = Some ''u1''" by (simp add: request_user_id_def)
  have one: "ctx_candidates ?ctx = [[ex_bidder 1 120 3, ex_bidder 2 90 5, ex_bidder 3 80 5]]" by (simp add: ex_auction_def)
  have "r = Inr ()" "ctx_candidates ctx' ! 0 = filter (\<lambda>c. cand_campaign_id c \<noteq> 2) (ctx_candidates ?ctx ! 0)"
    using freq_cap_removes_reported [OF run] unfolding user one by (auto simp: checked_imp_def ex_capper_ops_def ex_bidder_def)
  then show ?thesis using run by (auto simp: ex_auction_def ex_bidder_def)
qed

end
