(* ===== verification/Auction_Interleaving.thy ===== *)
theory Auction_Interleaving
  imports Auction_Stages
begin

text \<open>
  Many requests at once. The pacing and the ranking stage wait for the pacer's lock once per
  candidate, and at every such wait other requests may run, and the request itself may be dropped:
  the timeout middleware of \<open>server/routes.rs\<close> drops the handler's future when the time is up. Here
  the two stages are programs that make one pacer call at a time, the deadline check of the pipeline
  between them; a program run on its own gives what the stages give. The step relation interleaves
  any number of requests on one local pacer.

  The result is an account of the budgets: what is missing from a budget is the sum of what the
  completed requests sold, what the running ones hold at the moment, and what requests that were
  dropped or ran into the deadline never gave back.
\<close>

section \<open>Stages as programs\<close>

datatype 'a pacing_prog =
  Return 'a
| Reserve campaign_id i32 "pace_decision \<Rightarrow> 'a pacing_prog"
| Release campaign_id i32 "'a pacing_prog"

fun reserve_prog :: "ad_candidate list \<Rightarrow> (u32 list \<Rightarrow> 'a pacing_prog) \<Rightarrow> 'a pacing_prog" where
  "reserve_prog [] k = k []"
| "reserve_prog (c # cs) k =
     Reserve (cand_campaign_id c) (cand_bid_price_cents c) (\<lambda>decision.
       reserve_prog cs (\<lambda>exhausted_ids.
         k (if decision = Exhausted then cand_campaign_id c # exhausted_ids else exhausted_ids)))"

fun pace_prog :: "ad_candidate list list \<Rightarrow> (ad_candidate list list \<Rightarrow> 'a pacing_prog) \<Rightarrow> 'a pacing_prog" where
  "pace_prog [] k = k []"
| "pace_prog (cs # css) k =
     (if cs = [] then pace_prog css (\<lambda>kept. k ([] # kept))
      else reserve_prog cs (\<lambda>exhausted_ids.
        pace_prog css (\<lambda>kept. k (filter (\<lambda>c. cand_campaign_id c \<notin> set exhausted_ids) cs # kept))))"

fun release_prog :: "ad_candidate list \<Rightarrow> 'a pacing_prog \<Rightarrow> 'a pacing_prog" where
  "release_prog [] k = k"
| "release_prog (c # cs) k = Release (cand_campaign_id c) (cand_bid_price_cents c) (release_prog cs k)"

fun rank_prog :: "bid_request \<Rightarrow> nat \<Rightarrow> ad_candidate list list \<Rightarrow> (imp_winner list \<Rightarrow> 'a pacing_prog) \<Rightarrow> 'a pacing_prog" where
  "rank_prog req idx [] k = k []"
| "rank_prog req idx (cs # css) k =
     (case max_by rank_cmp cs of
        None \<Rightarrow> rank_prog req (Suc idx) css k
      | Some w \<Rightarrow>
          release_prog (filter (\<lambda>c. cand_campaign_id c \<noteq> cand_campaign_id w) cs)
            (rank_prog req (Suc idx) css (\<lambda>ws.
               k (\<lparr>win_imp_id = winner_imp_id req idx, win_campaign_id = cand_campaign_id w, win_creative_id = cand_creative_id w,
                   win_bid_price_cents = cand_bid_price_cents w, win_score = cand_score w\<rparr> # ws))))"

text \<open>How the two stages end: with the winners, or at the deadline with the candidates that pacing kept.\<close>

datatype auction_end = Decided "imp_winner list" | Late "ad_candidate list list"

definition auction_prog :: "bool \<Rightarrow> bid_request \<Rightarrow> ad_candidate list list \<Rightarrow> auction_end pacing_prog" where
  "auction_prog late req css =
     pace_prog css (\<lambda>kept.
       if \<forall>cs \<in> set kept. cs = [] then Return (Decided [])
       else if late then Return (Late kept)
       else rank_prog req 0 kept (\<lambda>ws. Return (Decided ws)))"

section \<open>A program on its own\<close>

primrec run_prog :: "'p budget_pacer_ops \<Rightarrow> 'a pacing_prog \<Rightarrow> 'p \<Rightarrow> 'a \<times> 'p" where
  "run_prog P (Return r) p = (r, p)"
| "run_prog P (Reserve c x k) p = (case pc_check_and_reserve P p c x of (d, p1) \<Rightarrow> run_prog P (k d) p1)"
| "run_prog P (Release c x k) p = run_prog P k (pc_release P p c x)"

lemma run_reserve_prog:
  "run_prog P (reserve_prog cs k) p = (case reserve_all P cs p of (ex, p1) \<Rightarrow> run_prog P (k ex) p1)"
  by (induction cs arbitrary: k p) (simp_all split: prod.splits)

lemma run_pace_prog:
  "run_prog P (pace_prog css k) p = (case mapi_state (pace_imp P) i css p of (kept, p1) \<Rightarrow> run_prog P (k kept) p1)"
proof (induction css arbitrary: k p i)
  case (Cons cs css)
  show ?case by (simp add: Cons.IH [where i = "Suc i"] pace_imp_def run_reserve_prog split: prod.splits)
qed simp

lemma run_release_prog: "run_prog P (release_prog cs k) p = run_prog P k (release_all P cs p)"
  by (induction cs arbitrary: p) (simp_all add: release_all_def)

lemma run_rank_prog:
  "run_prog P (rank_prog req i css k) p = (case mapi_state (rank_imp P req) i css p of (ws, p1) \<Rightarrow> run_prog P (k (somes ws)) p1)"
  by (induction css arbitrary: k p i) (auto simp: rank_imp_def run_release_prog dest: max_by_in split: prod.splits option.splits)

lemma rank_nothing: "\<forall>cs \<in> set css. cs = [] \<Longrightarrow> \<exists>ws. mapi_state (rank_imp P req) i css p = (ws, p) \<and> somes ws = []"
proof (induction css arbitrary: i)
  case (Cons cs css)
  then obtain ws where "mapi_state (rank_imp P req) (Suc i) css p = (ws, p)" "somes ws = []"
    using Cons.IH [of "Suc i"] by auto
  moreover have "rank_imp P req i [] p = (None, p)" by (simp add: rank_imp_def max_by_def)
  ultimately show ?case using Cons.prems by simp
qed simp

text \<open>Without interference and in time, the program does what the two stages do.\<close>

theorem run_auction_prog:
  assumes "mapi_state (pace_imp P) 0 css p = (kept, p1)" "mapi_state (rank_imp P req) 0 kept p1 = (ws, p2)"
  shows "run_prog P (auction_prog False req css) p = (Decided (somes ws), p2)"
  using assms rank_nothing [of kept P req 0 p1]
  by (auto simp: auction_prog_def run_pace_prog [where i = 0] run_rank_prog)

section \<open>What a program owes\<close>

text \<open>
  The amount a request holds of every campaign, through its calls; a program \<open>settles\<close> if it never
  holds a negative amount and ends holding what its outcome says, whatever the pacer decides.
\<close>

definition hold :: "campaign_id \<Rightarrow> int \<Rightarrow> (campaign_id \<Rightarrow> int) \<Rightarrow> campaign_id \<Rightarrow> int" where
  "hold c x h = h(c := h c + x)"

fun cost :: "auction_end \<Rightarrow> campaign_id \<Rightarrow> int" where
  "cost (Decided ws) = sold ws"
| "cost (Late kept) = held (concat kept)"

primrec settles :: "auction_end pacing_prog \<Rightarrow> (campaign_id \<Rightarrow> int) \<Rightarrow> bool" where
  "settles (Return r) h \<longleftrightarrow> h = cost r \<and> (\<forall>c. 0 \<le> h c)"
| "settles (Reserve c x k) h \<longleftrightarrow>
     (\<forall>c. 0 \<le> h c) \<and> (\<forall>d. settles (k d) (hold c (if d = HasBudget then x else 0) h))"
| "settles (Release c x k) h \<longleftrightarrow> (\<forall>c. 0 \<le> h c) \<and> settles k (hold c (- x) h)"

definition plus_held :: "(campaign_id \<Rightarrow> int) \<Rightarrow> ad_candidate list \<Rightarrow> campaign_id \<Rightarrow> int" where
  "plus_held h cs = (\<lambda>c. h c + held cs c)"

definition priced :: "ad_candidate list \<Rightarrow> bool" where
  "priced cs \<longleftrightarrow> (\<forall>c \<in> set cs. 0 \<le> cand_bid_price_cents c)"

lemma settles_reserve:
  assumes "distinct_campaigns cs" "priced cs" "\<forall>c. 0 \<le> h c"
    and "\<And>ex. set ex \<subseteq> cand_campaign_id ` set cs \<Longrightarrow>
      settles (k ex) (plus_held h (filter (\<lambda>c. cand_campaign_id c \<notin> set ex) cs))"
  shows "settles (reserve_prog cs k) h"
  using assms
proof (induction cs arbitrary: h k)
  case Nil
  then show ?case using Nil.prems(4) [of "[]"] by (simp add: plus_held_def)
next
  case (Cons a cs)
  let ?id = "cand_campaign_id a" and ?x = "cand_bid_price_cents a"
  have fresh: "?id \<notin> cand_campaign_id ` set cs" using Cons.prems(1) by (simp add: distinct_campaigns_def)
  have "settles (reserve_prog cs (\<lambda>ex. k (if d = Exhausted then ?id # ex else ex))) (hold ?id (if d = HasBudget then ?x else 0) h)" for d
  proof (rule Cons.IH)
    show "distinct_campaigns cs" "priced cs" using Cons.prems by (simp_all add: distinct_campaigns_def priced_def)
    show "\<forall>c. 0 \<le> hold ?id (if d = HasBudget then ?x else 0) h c" using Cons.prems(2,3) by (simp add: hold_def priced_def)
    fix ex assume ex: "set ex \<subseteq> cand_campaign_id ` set cs"
    let ?ex = "if d = Exhausted then ?id # ex else ex"
    have "filter (\<lambda>c. cand_campaign_id c \<notin> set ?ex) cs = filter (\<lambda>c. cand_campaign_id c \<notin> set ex) cs"
      using fresh by (intro filter_cong) (auto simp: image_iff)
    then have "plus_held h (filter (\<lambda>c. cand_campaign_id c \<notin> set ?ex) (a # cs))
        = plus_held (hold ?id (if d = HasBudget then ?x else 0) h) (filter (\<lambda>c. cand_campaign_id c \<notin> set ex) cs)"
      using fresh ex by (cases d) (auto simp: plus_held_def hold_def fun_eq_iff)
    then show "settles (k ?ex) (plus_held (hold ?id (if d = HasBudget then ?x else 0) h) (filter (\<lambda>c. cand_campaign_id c \<notin> set ex) cs))"
      using Cons.prems(4) [of ?ex] ex by (auto split: if_splits)
  qed
  then show ?case using Cons.prems(3) by simp
qed

lemma held_nonneg: "priced cs \<Longrightarrow> 0 \<le> held cs c"
  by (induction cs) (auto simp: priced_def)

lemma settles_pace:
  assumes "\<forall>cs \<in> set css. distinct_campaigns cs \<and> priced cs" "\<forall>c. 0 \<le> h c"
    and "\<And>kept. list_all2 (\<lambda>cs' cs. set cs' \<subseteq> set cs \<and> distinct_campaigns cs') kept css \<Longrightarrow>
      settles (k kept) (plus_held h (concat kept))"
  shows "settles (pace_prog css k) h"
  using assms
proof (induction css arbitrary: h k)
  case Nil
  then show ?case using Nil.prems(3) [of "[]"] by (simp add: plus_held_def)
next
  case (Cons cs css)
  have rest: "settles (pace_prog css (\<lambda>kept. k (cs' # kept))) (plus_held h cs')"
    if cs': "set cs' \<subseteq> set cs" "distinct_campaigns cs'" for cs'
  proof (rule Cons.IH)
    show "\<forall>cs \<in> set css. distinct_campaigns cs \<and> priced cs" using Cons.prems(1) by simp
    have "priced cs'" using Cons.prems(1) cs'(1) by (auto simp: priced_def)
    then show "\<forall>c. 0 \<le> plus_held h cs' c" using Cons.prems(2) held_nonneg by (simp add: plus_held_def)
    fix kept assume kept: "list_all2 (\<lambda>cs' cs. set cs' \<subseteq> set cs \<and> distinct_campaigns cs') kept css"
    have "plus_held (plus_held h cs') (concat kept) = plus_held h (concat (cs' # kept))"
      by (simp add: plus_held_def add.assoc)
    then show "settles (k (cs' # kept)) (plus_held (plus_held h cs') (concat kept))"
      using Cons.prems(3) [of "cs' # kept"] cs' kept by simp
  qed
  show ?case
  proof (cases "cs = []")
    case True
    then show ?thesis using rest [of "[]"] by (simp add: plus_held_def distinct_campaigns_def)
  next
    case False
    have "settles (reserve_prog cs (\<lambda>ex. pace_prog css (\<lambda>kept. k (filter (\<lambda>c. cand_campaign_id c \<notin> set ex) cs # kept)))) h"
      using Cons.prems(1,2) rest by (intro settles_reserve) (auto simp: distinct_campaigns_def distinct_map_filter)
    then show ?thesis using False by simp
  qed
qed

text \<open>Releasing what is held, down to what the rest of the program needs.\<close>

lemma settles_release:
  assumes "priced cs" "settles k h" "\<forall>c. 0 \<le> h c"
  shows "settles (release_prog cs k) (plus_held h cs)"
  using assms
proof (induction cs)
  case (Cons a cs)
  have "hold (cand_campaign_id a) (- cand_bid_price_cents a) (plus_held h (a # cs)) = plus_held h cs"
    by (auto simp: hold_def plus_held_def)
  then show ?case
    using Cons held_nonneg [of "a # cs"] by (simp add: plus_held_def priced_def)
qed (simp add: plus_held_def)

lemma settles_rank:
  assumes "\<forall>cs \<in> set css. distinct_campaigns cs \<and> priced cs" "\<forall>c. 0 \<le> h c"
    and "\<And>ws. \<forall>c. 0 \<le> sold ws c \<Longrightarrow> settles (k ws) (\<lambda>c. h c + sold ws c)"
  shows "settles (rank_prog req i css k) (plus_held h (concat css))"
  using assms
proof (induction css arbitrary: h k i)
  case Nil
  then show ?case using Nil.prems(3) [of "[]"] by (simp add: plus_held_def)
next
  case (Cons cs css)
  show ?case
  proof (cases "max_by rank_cmp cs")
    case None
    then have "cs = []" by simp
    then show ?thesis using Cons by (simp add: max_by_def)
  next
    case (Some w)
    let ?v = "\<lparr>win_imp_id = winner_imp_id req i, win_campaign_id = cand_campaign_id w, win_creative_id = cand_creative_id w,
      win_bid_price_cents = cand_bid_price_cents w, win_score = cand_score w\<rparr>"
    let ?h = "\<lambda>c. h c + sold [?v] c" and ?losers = "filter (\<lambda>c. cand_campaign_id c \<noteq> cand_campaign_id w) cs"
    have w: "w \<in> set cs" "0 \<le> cand_bid_price_cents w" "distinct_campaigns cs" "priced cs"
      using max_by_in [OF Some] Cons.prems(1) by (auto simp: priced_def)
    have "settles (rank_prog req (Suc i) css (\<lambda>ws. k (?v # ws))) (plus_held ?h (concat css))"
    proof (rule Cons.IH)
      show "\<forall>cs \<in> set css. distinct_campaigns cs \<and> priced cs" using Cons.prems(1) by simp
      show "\<forall>c. 0 \<le> ?h c" using Cons.prems(2) w(2) by simp
      fix ws assume "\<forall>c. 0 \<le> sold ws c"
      then show "settles (k (?v # ws)) (\<lambda>c. ?h c + sold ws c)"
        using Cons.prems(3) [of "?v # ws"] w(2) by (simp add: add.assoc)
    qed
    moreover have "\<forall>c. 0 \<le> plus_held ?h (concat css) c"
      using Cons.prems(1,2) w(2) held_nonneg [of "concat css"] by (auto simp: plus_held_def priced_def)
    moreover have "priced ?losers" using w(4) by (simp add: priced_def)
    moreover have "plus_held (plus_held ?h (concat css)) ?losers = plus_held h (concat (cs # css))"
      using held_winner [OF w(3,1)] by (simp add: plus_held_def fun_eq_iff)
    ultimately show ?thesis using Some settles_release by fastforce
  qed
qed

theorem auction_settles:
  assumes "\<forall>cs \<in> set css. distinct_campaigns cs \<and> priced cs"
  shows "settles (auction_prog late req css) (\<lambda>c. 0)"
  unfolding auction_prog_def
proof (rule settles_pace [OF assms])
  fix kept assume kept: "list_all2 (\<lambda>cs' cs. set cs' \<subseteq> set cs \<and> distinct_campaigns cs') kept css"
  then have sub: "\<forall>cs \<in> set kept. distinct_campaigns cs \<and> priced cs"
    using assms by (force simp: list_all2_conv_all_nth in_set_conv_nth priced_def)
  then have pos: "0 \<le> held (concat kept) c" for c by (intro held_nonneg) (auto simp: priced_def)
  have zero: "plus_held (\<lambda>c. 0) cs = held cs" for cs by (simp add: plus_held_def)
  have none: "held (concat kept) = (\<lambda>c. 0)" if "\<forall>cs \<in> set kept. cs = []"
    using that by (metis concat_eq_Nil_conv held_simps(1))
  have "settles (rank_prog req 0 kept (\<lambda>ws. Return (Decided ws))) (plus_held (\<lambda>c. 0) (concat kept))"
    by (rule settles_rank [OF sub]) auto
  then show "settles (if \<forall>cs \<in> set kept. cs = [] then Return (Decided []) else if late then Return (Late kept)
      else rank_prog req 0 kept (\<lambda>ws. Return (Decided ws))) (plus_held (\<lambda>c. 0) (concat kept))"
    using none pos by (auto simp: zero)
qed simp

section \<open>Requests side by side\<close>

text \<open>
  A request is running, with what it holds, or has come to its end, or was dropped. \<open>Restoring\<close> is
  the point inside \<open>check_and_reserve\<close> between the subtraction that found no budget and the addition
  that takes it back: other threads may act there, but there is no wait at which the request could
  be dropped. \<open>time_out\<close> is the drop by the timeout middleware. A request arrives with the candidates
  that are left for pacing: distinct campaigns in every impression, no negative price.
\<close>

datatype request_task =
  Running "auction_end pacing_prog" "campaign_id \<Rightarrow> int"
| Restoring campaign_id i32 "auction_end pacing_prog" "campaign_id \<Rightarrow> int"
| Ended auction_end
| Dropped "campaign_id \<Rightarrow> int"

record bidder_sys =
  bs_pacer :: local_pacer
  bs_tasks :: "request_task list"

definition bidder_start :: "local_pacer \<Rightarrow> bidder_sys" where
  "bidder_start p = \<lparr>bs_pacer = p, bs_tasks = []\<rparr>"

inductive bidder_step :: "bidder_sys \<Rightarrow> bidder_sys \<Rightarrow> bool" where
  arrive: "\<forall>cs \<in> set css. distinct_campaigns cs \<and> priced cs \<Longrightarrow>
    bidder_step s (s\<lparr>bs_tasks := bs_tasks s @ [Running (auction_prog late req css) (\<lambda>c. 0)]\<rparr>)"
| unknown: "i < length (bs_tasks s) \<Longrightarrow> bs_tasks s ! i = Running (Reserve c x k) h \<Longrightarrow> bs_pacer s c = None \<Longrightarrow>
    bidder_step s (s\<lparr>bs_tasks := (bs_tasks s)[i := Running (k Exhausted) h]\<rparr>)"
| granted: "i < length (bs_tasks s) \<Longrightarrow> bs_tasks s ! i = Running (Reserve c x k) h \<Longrightarrow>
    bs_pacer s c = Some counter \<Longrightarrow> counter_fetch_sub counter x = (prev, counter1) \<Longrightarrow> 0 < prev \<Longrightarrow>
    bidder_step s (s\<lparr>bs_pacer := (bs_pacer s)(c \<mapsto> counter1), bs_tasks := (bs_tasks s)[i := Running (k HasBudget) (hold c x h)]\<rparr>)"
| refused: "i < length (bs_tasks s) \<Longrightarrow> bs_tasks s ! i = Running (Reserve c x k) h \<Longrightarrow>
    bs_pacer s c = Some counter \<Longrightarrow> counter_fetch_sub counter x = (prev, counter1) \<Longrightarrow> prev \<le> 0 \<Longrightarrow>
    bidder_step s (s\<lparr>bs_pacer := (bs_pacer s)(c \<mapsto> counter1), bs_tasks := (bs_tasks s)[i := Restoring c x (k Exhausted) h]\<rparr>)"
| restore: "i < length (bs_tasks s) \<Longrightarrow> bs_tasks s ! i = Restoring c x prog h \<Longrightarrow>
    bidder_step s (s\<lparr>bs_pacer := release (bs_pacer s) c x, bs_tasks := (bs_tasks s)[i := Running prog h]\<rparr>)"
| give_back: "i < length (bs_tasks s) \<Longrightarrow> bs_tasks s ! i = Running (Release c x k) h \<Longrightarrow>
    bidder_step s (s\<lparr>bs_pacer := release (bs_pacer s) c x, bs_tasks := (bs_tasks s)[i := Running k (hold c (- x) h)]\<rparr>)"
| finish: "i < length (bs_tasks s) \<Longrightarrow> bs_tasks s ! i = Running (Return r) h \<Longrightarrow>
    bidder_step s (s\<lparr>bs_tasks := (bs_tasks s)[i := Ended r]\<rparr>)"
| time_out: "i < length (bs_tasks s) \<Longrightarrow> bs_tasks s ! i = Running prog h \<Longrightarrow>
    bidder_step s (s\<lparr>bs_tasks := (bs_tasks s)[i := Dropped h]\<rparr>)"

text \<open>A call that nothing interrupts is the pacer's own operation.\<close>

lemma reserve_call:
  assumes "i < length (bs_tasks s)" "bs_tasks s ! i = Running (Reserve c x k) h"
    and "balances_ok (bs_pacer s)" "check_and_reserve (bs_pacer s) c x = (d, p)"
  shows "bidder_step\<^sup>*\<^sup>* s (s\<lparr>bs_pacer := p, bs_tasks := (bs_tasks s)[i := Running (k d) (if d = HasBudget then hold c x h else h)]\<rparr>)"
proof (cases "bs_pacer s c")
  case None
  then show ?thesis
    using unknown [OF assms(1,2) None] assms(4) by (auto simp: check_and_reserve_def intro!: r_into_rtranclp)
next
  case (Some counter)
  let ?sub = "i64_wrap (counter - x)"
  have sub: "counter_fetch_sub counter x = (counter, ?sub)" by (simp add: counter_fetch_sub_def)
  show ?thesis
  proof (cases "0 < counter")
    case True
    then show ?thesis
      using granted [OF assms(1,2) Some sub True] Some sub assms(4)
      by (auto simp: check_and_reserve_def intro!: r_into_rtranclp)
  next
    case False
    let ?mid = "s\<lparr>bs_pacer := (bs_pacer s)(c \<mapsto> ?sub), bs_tasks := (bs_tasks s)[i := Restoring c x (k Exhausted) h]\<rparr>"
    have "bidder_step s ?mid" using refused [OF assms(1,2) Some sub] False by simp
    moreover have "bidder_step ?mid (s\<lparr>bs_pacer := p, bs_tasks := (bs_tasks s)[i := Running (k d) (if d = HasBudget then hold c x h else h)]\<rparr>)"
      using restore [of i ?mid c x "k Exhausted" h] assms(1,4) Some sub False
      by (simp add: check_and_reserve_def release_def split: prod.splits)
    ultimately show ?thesis by (meson converse_rtranclp_into_rtranclp r_into_rtranclp)
  qed
qed

section \<open>The account\<close>

text \<open>What a request has taken from the budgets so far, and what keeps it in order.\<close>

fun claim :: "request_task \<Rightarrow> campaign_id \<Rightarrow> int" where
  "claim (Running prog h) = h"
| "claim (Restoring c x prog h) = hold c x h"
| "claim (Ended r) = cost r"
| "claim (Dropped h) = h"

fun task_ok :: "request_task \<Rightarrow> bool" where
  "task_ok (Running prog h) \<longleftrightarrow> settles prog h"
| "task_ok (Restoring c x prog h) \<longleftrightarrow> settles prog h \<and> (\<forall>d. 0 \<le> hold c x h d)"
| "task_ok t \<longleftrightarrow> (\<forall>c. 0 \<le> claim t c)"

definition claims :: "request_task list \<Rightarrow> campaign_id \<Rightarrow> int" where
  "claims ts c = (\<Sum>t \<leftarrow> ts. claim t c)"

lemma claims_simps [simp]: "claims [] c = 0" "claims (t # ts) c = claim t c + claims ts c"
  "claims (ts @ ts') c = claims ts c + claims ts' c"
  by (simp_all add: claims_def)

lemma claims_update:
  "i < length ts \<Longrightarrow> claims (ts[i := t]) c = claims ts c + (claim t c - claim (ts ! i) c)"
  by (induction ts arbitrary: i) (auto split: nat.splits)

lemma settles_nonneg: "settles prog h \<Longrightarrow> 0 \<le> h c"
  by (cases prog) auto

lemma settles_granted: "settles (Reserve c x k) h \<Longrightarrow> settles (k HasBudget) (hold c x h)"
  by (auto dest: spec [where x = HasBudget])

lemma settles_refused: "settles (Reserve c x k) h \<Longrightarrow> settles (k Exhausted) h \<and> (\<forall>d. 0 \<le> hold c x h d)"
proof (intro conjI allI)
  assume s: "settles (Reserve c x k) h"
  then show "settles (k Exhausted) h" by (auto simp: hold_def dest: spec [where x = Exhausted])
  show "0 \<le> hold c x h d" for d by (rule settles_nonneg [OF settles_granted [OF s]])
qed

lemma task_ok_nonneg: "task_ok t \<Longrightarrow> 0 \<le> claim t c"
  by (cases t) (auto dest: settles_nonneg)

definition account :: "local_pacer \<Rightarrow> bidder_sys \<Rightarrow> bool" where
  "account p0 s \<longleftrightarrow> bs_pacer s = spend (claims (bs_tasks s)) p0 \<and> (\<forall>t \<in> set (bs_tasks s). task_ok t)"

lemma account_ok: "account p0 s \<Longrightarrow> i < length (bs_tasks s) \<Longrightarrow> task_ok (bs_tasks s ! i)"
  by (simp add: account_def)

lemma account_balances: "account p0 s \<Longrightarrow> balances_ok (bs_pacer s)"
  by (simp add: account_def)

lemma account_update:
  assumes "account p0 s" "i < length (bs_tasks s)" "task_ok t"
    and "p = spend (\<lambda>c. claim t c - claim (bs_tasks s ! i) c) (bs_pacer s)"
  shows "account p0 (s\<lparr>bs_pacer := p, bs_tasks := (bs_tasks s)[i := t]\<rparr>)"
proof -
  have "(\<lambda>c. claims (bs_tasks s) c + (claim t c - claim (bs_tasks s ! i) c)) = claims ((bs_tasks s)[i := t])"
    using assms(2) by (auto simp: claims_update)
  then show ?thesis
    using assms(1,3,4) by (auto simp: account_def dest!: set_update_subset_insert [THEN subsetD])
qed

lemma account_keep:
  assumes "account p0 s" "i < length (bs_tasks s)" "task_ok t" "claim t = claim (bs_tasks s ! i)"
  shows "account p0 (s\<lparr>bs_tasks := (bs_tasks s)[i := t]\<rparr>)"
  using account_update [OF assms(1-3), of "bs_pacer s"] spend_zero [OF account_balances [OF assms(1)]] assms(4) by simp

lemma hold_only: "(\<lambda>d. hold c x h d - h d) = only c x" "(\<lambda>d. h d - hold c x h d) = only c (- x)"
  by (auto simp: hold_def only_def)

lemma fetch_sub_spend:
  "balances_ok p \<Longrightarrow> p c = Some b \<Longrightarrow> counter_fetch_sub b x = (prev, b') \<Longrightarrow> p(c \<mapsto> b') = spend (only c x) p"
  by (auto simp: spend_only counter_fetch_sub_def)

lemma account_step:
  assumes "bidder_step s s'" "account p0 s"
  shows "account p0 s'"
  using assms(1)
proof cases
  case (arrive css late req)
  moreover have "claims (bs_tasks s @ [Running (auction_prog late req css) (\<lambda>c. 0)]) = claims (bs_tasks s)" by (simp add: fun_eq_iff)
  ultimately show ?thesis using assms(2) auction_settles by (simp add: account_def)
next
  case (unknown i c x k h)
  then show ?thesis using account_ok [OF assms(2) unknown(2)] settles_refused by (auto intro!: account_keep assms(2) simp del: settles.simps)
next
  case (granted i c x k h counter prev counter1)
  then show ?thesis
    using account_ok [OF assms(2) granted(2)] settles_granted fetch_sub_spend [OF account_balances [OF assms(2)] granted(4,5)]
    by (auto intro!: account_update assms(2) simp: hold_only simp del: settles.simps)
next
  case (refused i c x k h counter prev counter1)
  then show ?thesis
    using account_ok [OF assms(2) refused(2)] settles_refused fetch_sub_spend [OF account_balances [OF assms(2)] refused(4,5)]
    by (auto intro!: account_update assms(2) simp: hold_only simp del: settles.simps)
next
  case (restore i c x prog h)
  then show ?thesis
    using account_ok [OF assms(2) restore(2)] release_spend [OF account_balances [OF assms(2)], of c x]
    by (auto intro!: account_update assms(2) simp: hold_only)
next
  case (give_back i c x k h)
  then show ?thesis
    using account_ok [OF assms(2) give_back(2)] release_spend [OF account_balances [OF assms(2)], of c x]
    by (auto intro!: account_update assms(2) simp: hold_only)
next
  case (finish i r h)
  then show ?thesis using account_ok [OF assms(2) finish(2)] by (auto intro!: account_keep assms(2))
next
  case (time_out i prog h)
  then show ?thesis using account_ok [OF assms(2) time_out(2)] by (auto intro!: account_keep assms(2) dest: settles_nonneg)
qed

lemma account_steps: "bidder_step\<^sup>*\<^sup>* s s' \<Longrightarrow> account p0 s \<Longrightarrow> account p0 s'"
  by (induction rule: rtranclp_induct) (auto intro: account_step)

text \<open>A request that has come to its end or was dropped is never taken up again.\<close>

fun over :: "request_task \<Rightarrow> bool" where
  "over (Ended r) = True"
| "over (Dropped h) = True"
| "over t = False"

lemma over_step:
  "bidder_step s s' \<Longrightarrow> i < length (bs_tasks s) \<Longrightarrow> over (bs_tasks s ! i) \<Longrightarrow>
   i < length (bs_tasks s') \<and> bs_tasks s' ! i = bs_tasks s ! i"
  by (induction rule: bidder_step.induct) (auto simp: nth_append nth_list_update)

lemma over_steps:
  "bidder_step\<^sup>*\<^sup>* s s' \<Longrightarrow> i < length (bs_tasks s) \<Longrightarrow> over (bs_tasks s ! i) \<Longrightarrow>
   i < length (bs_tasks s') \<and> bs_tasks s' ! i = bs_tasks s ! i"
  by (induction rule: rtranclp_induct) (auto dest: over_step)

text \<open>
  C12. Concurrent requests and the budgets. Whatever way any number of requests interleave on the
  local pacer, down to the two atomic operations of a refused reservation, what a campaign's counter
  has lost since the start is exactly the sum over the requests of what each has taken: the prices
  of the winners for a request that was ranked, what it holds at the moment for a running one, everything
  that pacing reserved for one that ran into the deadline, and what it held when the timeout dropped
  it. No request takes a negative amount. A finished or dropped request is never taken up again, so
  what it has taken without selling it stays lost.
\<close>

theorem requests_account:
  assumes "balances_ok p0" "bidder_step\<^sup>*\<^sup>* (bidder_start p0) s"
  shows "bs_pacer s = spend (claims (bs_tasks s)) p0 \<and>
    (\<forall>t \<in> set (bs_tasks s). \<forall>c. 0 \<le> claim t c) \<and>
    (\<forall>s' i. bidder_step\<^sup>*\<^sup>* s s' \<longrightarrow> i < length (bs_tasks s) \<longrightarrow> over (bs_tasks s ! i) \<longrightarrow>
      bs_tasks s' ! i = bs_tasks s ! i)"
proof -
  have "claims [] = (\<lambda>c. 0)" by (simp add: fun_eq_iff)
  then have "account p0 (bidder_start p0)"
    using assms(1) by (simp add: account_def bidder_start_def spend_zero)
  then have "account p0 s" using assms(2) account_steps by blast
  then show ?thesis using task_ok_nonneg over_steps by (auto simp: account_def)
qed

text \<open>
  Two requests for one impression and one campaign with a budget of 300, price 120: both reserve,
  the first is dropped, the second is decided. The campaign has lost 240 and sold for 120.
\<close>

definition ex_css :: "ad_candidate list list" where
  "ex_css = [[ex_bidder 1 120 5]]"

definition ex_winner :: imp_winner where
  "ex_winner = \<lparr>win_imp_id = winner_imp_id (ctx_request ex_auction) 0, win_campaign_id = 1, win_creative_id = 11,
     win_bid_price_cents = 120, win_score = Num 5 0\<rparr>"

definition ex_sys :: "i64 \<Rightarrow> request_task list \<Rightarrow> bidder_sys" where
  "ex_sys b ts = \<lparr>bs_pacer = [1 \<mapsto> b], bs_tasks = ts\<rparr>"

lemma ex_prog: "\<exists>k. auction_prog False (ctx_request ex_auction) ex_css = Reserve 1 120 k \<and> k HasBudget = Return (Decided [ex_winner])"
  by (simp add: auction_prog_def ex_css_def ex_bidder_def max_by_def ex_winner_def)

lemma ex_steps:
  defines "none \<equiv> \<lambda>c. 0"
  shows "bidder_step (ex_sys b ts) (ex_sys b (ts @ [Running (auction_prog False (ctx_request ex_auction) ex_css) none]))"
    and "i < length ts \<Longrightarrow> ts ! i = Running (Reserve 1 120 k) none \<Longrightarrow> 0 < b \<Longrightarrow> b < 1000 \<Longrightarrow>
      bidder_step (ex_sys b ts) (ex_sys (b - 120) (ts[i := Running (k HasBudget) (only 1 120)]))"
    and "i < length ts \<Longrightarrow> ts ! i = Running prog h \<Longrightarrow> bidder_step (ex_sys b ts) (ex_sys b (ts[i := Dropped h]))"
    and "i < length ts \<Longrightarrow> ts ! i = Running (Return r) h \<Longrightarrow> bidder_step (ex_sys b ts) (ex_sys b (ts[i := Ended r]))"
proof -
  have "\<forall>cs \<in> set ex_css. distinct_campaigns cs \<and> priced cs" by (simp add: ex_css_def distinct_campaigns_def priced_def ex_bidder_def)
  from arrive [OF this, of "ex_sys b ts" False "ctx_request ex_auction"]
  show "bidder_step (ex_sys b ts) (ex_sys b (ts @ [Running (auction_prog False (ctx_request ex_auction) ex_css) none]))"
    by (simp add: ex_sys_def none_def)
  have "hold 1 120 none = only 1 120" by (auto simp: hold_def only_def none_def)
  then show "i < length ts \<Longrightarrow> ts ! i = Running (Reserve 1 120 k) none \<Longrightarrow> 0 < b \<Longrightarrow> b < 1000 \<Longrightarrow>
      bidder_step (ex_sys b ts) (ex_sys (b - 120) (ts[i := Running (k HasBudget) (only 1 120)]))"
    using granted [of i "ex_sys b ts" 1 120 k none b b "b - 120"]
    by (simp add: ex_sys_def counter_fetch_sub_def i64_wrap_def)
  show "i < length ts \<Longrightarrow> ts ! i = Running prog h \<Longrightarrow> bidder_step (ex_sys b ts) (ex_sys b (ts[i := Dropped h]))"
    using time_out [of i "ex_sys b ts" prog h] by (simp add: ex_sys_def)
  show "i < length ts \<Longrightarrow> ts ! i = Running (Return r) h \<Longrightarrow> bidder_step (ex_sys b ts) (ex_sys b (ts[i := Ended r]))"
    using finish [of i "ex_sys b ts" r h] by (simp add: ex_sys_def)
qed

lemma ex_interleaving:
  "bidder_step\<^sup>*\<^sup>* (bidder_start [1 \<mapsto> 300]) (ex_sys 60 [Dropped (only 1 120), Ended (Decided [ex_winner])])"
proof -
  obtain k where prog: "auction_prog False (ctx_request ex_auction) ex_css = Reserve 1 120 k"
      and k: "k HasBudget = Return (Decided [ex_winner])" using ex_prog by blast
  let ?new = "Running (Reserve 1 120 k) (\<lambda>c. 0)" and ?res = "Running (Return (Decided [ex_winner])) (only 1 120)"
  have "bidder_start [1 \<mapsto> 300] = ex_sys 300 []" by (simp add: bidder_start_def ex_sys_def)
  also have "bidder_step\<^sup>*\<^sup>* (ex_sys 300 []) (ex_sys 300 [?new])" using ex_steps(1) [of 300 "[]"] prog by simp
  also have "bidder_step\<^sup>*\<^sup>* (ex_sys 300 [?new]) (ex_sys 300 [?new, ?new])" using ex_steps(1) [of 300 "[?new]"] prog by simp
  also have "bidder_step\<^sup>*\<^sup>* (ex_sys 300 [?new, ?new]) (ex_sys 180 [?res, ?new])" using ex_steps(2) [of 0 "[?new, ?new]" k 300] k by simp
  also have "bidder_step\<^sup>*\<^sup>* (ex_sys 180 [?res, ?new]) (ex_sys 60 [?res, ?res])" using ex_steps(2) [of 1 "[?res, ?new]" k 180] k by simp
  also have "bidder_step\<^sup>*\<^sup>* (ex_sys 60 [?res, ?res]) (ex_sys 60 [Dropped (only 1 120), ?res])" using ex_steps(3) [of 0 "[?res, ?res]" "Return (Decided [ex_winner])" "only 1 120" 60] by simp
  also have "bidder_step\<^sup>*\<^sup>* (ex_sys 60 [Dropped (only 1 120), ?res]) (ex_sys 60 [Dropped (only 1 120), Ended (Decided [ex_winner])])"
    using ex_steps(4) [of 1 "[Dropped (only 1 120), ?res]" "Decided [ex_winner]" "only 1 120" 60] by simp
  finally show ?thesis .
qed

theorem requests_account_witness:
  "\<exists>s. bidder_step\<^sup>*\<^sup>* (bidder_start [1 \<mapsto> 300]) s \<and> bs_tasks s = [Dropped (only 1 120), Ended (Decided [ex_winner])] \<and>
     bs_pacer s = spend (\<lambda>c. only 1 120 c + sold [ex_winner] c) [1 \<mapsto> 300] \<and> bs_pacer s 1 = Some 60"
proof -
  let ?s = "ex_sys 60 [Dropped (only 1 120), Ended (Decided [ex_winner])]"
  have "balances_ok [1 \<mapsto> 300]" by (simp add: balances_ok_def in_i64_def)
  moreover have "claims (bs_tasks ?s) = (\<lambda>c. only 1 120 c + sold [ex_winner] c)" by (simp add: ex_sys_def fun_eq_iff)
  ultimately have "bs_pacer ?s = spend (\<lambda>c. only 1 120 c + sold [ex_winner] c) [1 \<mapsto> 300]"
    using requests_account [OF _ ex_interleaving] by metis
  moreover have "bs_pacer ?s 1 = Some 60" "bs_tasks ?s = [Dropped (only 1 120), Ended (Decided [ex_winner])]" by (simp_all add: ex_sys_def)
  ultimately show ?thesis using ex_interleaving by blast
qed

end
