(* ===== verification/Binary_Heap.thy ===== *)
theory Binary_Heap
  imports Bidder_Prelude
begin

text \<open>
  \<open>std::collections::BinaryHeap\<close>, as far as the candidate limit uses it: \<open>push\<close>, \<open>pop\<close>
  and the order in which \<open>into_iter\<close> yields the elements, which is the order of the backing
  vector. Both operations move a hole through the vector as the standard library does: \<open>push\<close>
  sifts the new element up, \<open>pop\<close> moves the hole to the bottom and sifts the last element up from
  there. \<open>le\<close> is the element type's \<open>Ord\<close>.

  The locale \<open>total_preorder\<close> holds the laws of that order; in it, the operations keep the heap
  property and the multiset of elements, and \<open>pop\<close> returns a greatest element.
\<close>

section \<open>The operations\<close>

definition parent :: "nat \<Rightarrow> nat" where
  "parent i = (i - 1) div 2"

lemma parent_less [simp]: "0 < i \<Longrightarrow> parent i < i"
  by (simp add: parent_def)

lemma parent_bound [simp]: "0 < i \<Longrightarrow> i < n \<Longrightarrow> parent i < n" "0 < i \<Longrightarrow> parent i \<noteq> i" "0 < i \<Longrightarrow> i \<noteq> parent i"
  by (auto simp: parent_def)

function sift_up :: "('a \<Rightarrow> 'a \<Rightarrow> bool) \<Rightarrow> 'a \<Rightarrow> nat \<Rightarrow> 'a list \<Rightarrow> 'a list" where
  "sift_up le elt pos xs =
     (if 0 < pos
      then (if le elt (xs ! parent pos) then xs[pos := elt]
            else sift_up le elt (parent pos) (xs[pos := xs ! parent pos]))
      else xs[pos := elt])"
  by pat_completeness auto
termination by (relation "measure (\<lambda>(le, elt, pos, xs). pos)") simp_all

declare sift_up.simps [simp del]

definition greater_child :: "('a \<Rightarrow> 'a \<Rightarrow> bool) \<Rightarrow> nat \<Rightarrow> 'a list \<Rightarrow> nat" where
  "greater_child le pos xs =
     (let child = 2 * pos + 1 in if le (xs ! child) (xs ! (child + 1)) then child + 1 else child)"

lemma greater_child_bounds: "greater_child le pos xs \<in> {2 * pos + 1, 2 * pos + 2}"
  by (simp add: greater_child_def Let_def)

function sift_down_to_bottom :: "('a \<Rightarrow> 'a \<Rightarrow> bool) \<Rightarrow> nat \<Rightarrow> 'a list \<Rightarrow> 'a list \<times> nat" where
  "sift_down_to_bottom le pos xs =
     (let child = 2 * pos + 1 in
      if child \<le> length xs - 2
      then (let c = greater_child le pos xs in sift_down_to_bottom le c (xs[pos := xs ! c]))
      else if child = length xs - 1 then (xs[pos := xs ! child], child)
      else (xs, pos))"
  by pat_completeness auto
termination
proof (relation "measure (\<lambda>(le, pos, xs). length xs - pos)", goal_cases)
  case (2 le pos xs child c)
  then show ?case using greater_child_bounds [of le pos xs] by auto
qed simp

declare sift_down_to_bottom.simps [simp del]

definition heap_push :: "('a \<Rightarrow> 'a \<Rightarrow> bool) \<Rightarrow> 'a \<Rightarrow> 'a list \<Rightarrow> 'a list" where
  "heap_push le item xs = sift_up le item (length xs) (xs @ [item])"

definition heap_pop :: "('a \<Rightarrow> 'a \<Rightarrow> bool) \<Rightarrow> 'a list \<Rightarrow> 'a option \<times> 'a list" where
  "heap_pop le xs =
     (if xs = [] then (None, [])
      else (let item = last xs; data = butlast xs in
        if data = [] then (Some item, [])
        else (let (ys, pos) = sift_down_to_bottom le 0 data in (Some (data ! 0), sift_up le item pos ys))))"

section \<open>The heap property\<close>

definition is_heap :: "('a \<Rightarrow> 'a \<Rightarrow> bool) \<Rightarrow> 'a list \<Rightarrow> bool" where
  "is_heap le xs \<longleftrightarrow> (\<forall>i < length xs. 0 < i \<longrightarrow> le (xs ! i) (xs ! parent i))"

text \<open>
  The heap property around a hole at \<open>pos\<close>: it holds away from the hole, and the children of the
  hole are below its parent.
\<close>

definition hole_heap :: "('a \<Rightarrow> 'a \<Rightarrow> bool) \<Rightarrow> nat \<Rightarrow> 'a list \<Rightarrow> bool" where
  "hole_heap le pos xs \<longleftrightarrow>
     (\<forall>i < length xs. 0 < i \<and> i \<noteq> pos \<and> parent i \<noteq> pos \<longrightarrow> le (xs ! i) (xs ! parent i)) \<and>
     (\<forall>i < length xs. 0 < i \<and> parent i = pos \<and> 0 < pos \<longrightarrow> le (xs ! i) (xs ! parent pos))"

lemma hole_heapD:
  assumes "hole_heap le pos xs" "i < length xs" "0 < i"
  shows "i \<noteq> pos \<Longrightarrow> parent i \<noteq> pos \<Longrightarrow> le (xs ! i) (xs ! parent i)"
    and "parent i = pos \<Longrightarrow> 0 < pos \<Longrightarrow> le (xs ! i) (xs ! parent pos)"
  using assms by (auto simp: hole_heap_def)

lemma mset_move:
  assumes "i < length xs" "j < length xs" "i \<noteq> j"
  shows "mset (xs[i := xs ! j, j := e]) = mset (xs[i := e])"
proof -
  have "xs[i := xs ! j, j := e] = xs[i := e, j := e, i := xs ! j]"
    using assms by (simp add: list_eq_iff_nth_eq nth_list_update)
  then show ?thesis using mset_swap [of i "xs[i := e]" j] assms by (simp add: list_update_swap)
qed

lemma sift_up_mset:
  "pos < length xs \<Longrightarrow> mset (sift_up le elt pos xs) = mset (xs[pos := elt])"
proof (induction le elt pos xs rule: sift_up.induct)
  case (1 le elt pos xs)
  show ?case
  proof (cases "0 < pos \<and> \<not> le elt (xs ! parent pos)")
    case True
    then have "parent pos < length xs" "parent pos \<noteq> pos" using 1(2) parent_less [of pos] by linarith+
    then show ?thesis
      using 1 True mset_move [of pos xs "parent pos" elt] by (subst sift_up.simps) simp
  next
    case False
    then show ?thesis by (subst sift_up.simps) auto
  qed
qed

lemma parent_child: "0 < i \<Longrightarrow> parent i = p \<longleftrightarrow> i = 2 * p + 1 \<or> i = 2 * p + 2"
  by (auto simp: parent_def)

lemma sift_down_mset:
  assumes "sift_down_to_bottom le pos xs = (ys, q)" "pos < length xs"
  shows "q < length ys \<and> length ys = length xs \<and> mset (ys[q := e]) = mset (xs[pos := e])"
  using assms
proof (induction le pos xs arbitrary: ys q rule: sift_down_to_bottom.induct)
  case (1 le pos xs)
  let ?c = "greater_child le pos xs"
  consider (down) "2 * pos + 1 \<le> length xs - 2" | (last) "2 * pos + 1 = length xs - 1"
      "\<not> 2 * pos + 1 \<le> length xs - 2" | (stop) "\<not> 2 * pos + 1 \<le> length xs - 2" "2 * pos + 1 \<noteq> length xs - 1"
    by blast
  then show ?case
  proof cases
    case down
    then have c: "?c < length xs" "?c \<noteq> pos" using greater_child_bounds [of le pos xs] 1(3) by auto
    then show ?thesis
      using 1(1) [OF refl down refl, of ys q] 1(2,3) down mset_move [of pos xs ?c e]
      by (simp add: sift_down_to_bottom.simps [of le pos xs] Let_def)
  next
    case last
    then show ?thesis
      using 1(2,3) mset_move [of pos xs "2 * pos + 1" e] by (auto simp: sift_down_to_bottom.simps [of le pos xs] Let_def)
  next
    case stop
    then show ?thesis using 1(2,3) by (simp add: sift_down_to_bottom.simps [of le pos xs])
  qed
qed

section \<open>The operations keep the heap\<close>

locale total_preorder =
  fixes le :: "'a \<Rightarrow> 'a \<Rightarrow> bool"
  assumes total: "le x y \<or> le y x"
    and trans: "le x y \<Longrightarrow> le y z \<Longrightarrow> le x z"
begin

lemma refl: "le x x"
  using total by blast

lemma heap_root_greatest:
  assumes "is_heap le xs" "i < length xs"
  shows "le (xs ! i) (xs ! 0)"
  using assms(2)
proof (induction i rule: less_induct)
  case (less i)
  show ?case
  proof (cases "i = 0")
    case False
    then have "le (xs ! i) (xs ! parent i)" "parent i < i" using assms(1) less.prems by (auto simp: is_heap_def)
    then show ?thesis using less.IH [of "parent i"] less.prems by (auto intro: trans [of "xs ! i" "xs ! parent i"])
  qed (simp add: refl)
qed

lemma hole_up:
  assumes hole: "hole_heap le pos xs" and pos: "0 < pos" "pos < length xs"
  shows "hole_heap le (parent pos) (xs[pos := xs ! parent pos])"
proof -
  let ?p = "parent pos" and ?ys = "xs[pos := xs ! parent pos]"
  have p: "?p < pos" using pos by simp
  have "le (?ys ! i) (?ys ! parent i)" if "i < length ?ys" "0 < i" "i \<noteq> ?p" "parent i \<noteq> ?p" for i
    using hole_heapD [OF hole, of i] that pos by (cases "parent i = pos") (auto simp: nth_list_update)
  moreover have "le (?ys ! i) (?ys ! parent ?p)" if "i < length ?ys" "0 < i" "parent i = ?p" "0 < ?p" for i
  proof -
    have pp: "parent ?p < ?p" "parent ?p \<noteq> pos" "?p < length xs" using that p pos parent_less [of ?p] by linarith+
    then have up: "le (xs ! ?p) (xs ! parent ?p)" using hole_heapD(1) [OF hole, of ?p] that p by simp
    have "le (xs ! i) (xs ! ?p)" if "i \<noteq> pos"
      using hole_heapD(1) [OF hole, of i] that \<open>i < length ?ys\<close> \<open>0 < i\<close> \<open>parent i = ?p\<close> p by simp
    then show ?thesis using up pp that pos trans [of "xs ! i" "xs ! ?p"] by (cases "i = pos") auto
  qed
  ultimately show ?thesis by (auto simp: hole_heap_def)
qed

lemma sift_up_heap:
  assumes "hole_heap le pos xs" "pos < length xs"
    and "\<And>i. i < length xs \<Longrightarrow> 0 < i \<Longrightarrow> parent i = pos \<Longrightarrow> le (xs ! i) elt"
  shows "is_heap le (sift_up le elt pos xs)"
  using assms
proof (induction pos arbitrary: xs rule: less_induct)
  case (less pos)
  have fill: "is_heap le (xs[pos := elt])" if "0 < pos \<Longrightarrow> le elt (xs ! parent pos)"
    unfolding is_heap_def
  proof (intro allI impI)
    fix i assume i: "i < length (xs[pos := elt])" "0 < i"
    then have "parent i \<noteq> i" "parent i < length xs" using parent_less [of i] by auto
    then show "le (xs[pos := elt] ! i) (xs[pos := elt] ! parent i)"
      using that less.prems(3) [of i] hole_heapD(1) [OF less.prems(1), of i] i
      by (cases "i = pos"; cases "parent i = pos") (auto simp: nth_list_update)
  qed
  show ?case
  proof (cases "0 < pos \<and> \<not> le elt (xs ! parent pos)")
    case True
    let ?ys = "xs[pos := xs ! parent pos]"
    have p: "parent pos < pos" using True by simp
    have above: "le (xs ! parent pos) elt" using True total by blast
    have "le (?ys ! i) elt" if "i < length ?ys" "0 < i" "parent i = parent pos" for i
      using that above hole_heapD(1) [OF less.prems(1), of i] p less.prems(2) trans [of "xs ! i" "xs ! parent pos" elt]
      by (cases "i = pos") auto
    then have "is_heap le (sift_up le elt (parent pos) ?ys)"
      using less.IH [OF p, of ?ys] hole_up [OF less.prems(1)] True p less.prems(2) by auto
    then show ?thesis using True by (simp add: sift_up.simps [of le elt pos])
  next
    case False
    then show ?thesis using fill by (subst sift_up.simps) auto
  qed
qed

lemma hole_down:
  assumes hole: "hole_heap le pos xs" and c: "c < length xs" "0 < c" "parent c = pos"
    and greatest: "\<And>i. i < length xs \<Longrightarrow> 0 < i \<Longrightarrow> parent i = pos \<Longrightarrow> le (xs ! i) (xs ! c)"
  shows "hole_heap le c (xs[pos := xs ! c])"
proof -
  let ?ys = "xs[pos := xs ! c]"
  have pos: "pos < c" using c by auto
  have "le (?ys ! i) (?ys ! parent i)" if i: "i < length ?ys" "0 < i" "i \<noteq> c" "parent i \<noteq> c" for i
  proof (cases "i = pos")
    case True
    then have "parent i \<noteq> pos" using i by auto
    then show ?thesis using True hole_heapD(2) [OF hole, of c] c i by simp
  next
    case False
    then show ?thesis
      using hole_heapD(1) [OF hole, of i] greatest [of i] i pos c by (cases "parent i = pos") auto
  qed
  moreover have "le (?ys ! i) (?ys ! parent c)" if i: "i < length ?ys" "0 < i" "parent i = c" for i
  proof -
    have "c < i" using i parent_less by auto
    then show ?thesis using hole_heapD(1) [OF hole, of i] i pos c by simp
  qed
  ultimately show ?thesis by (auto simp: hole_heap_def)
qed

lemma sift_down_hole:
  assumes "sift_down_to_bottom le pos xs = (ys, q)" "pos < length xs" "hole_heap le pos xs"
  shows "hole_heap le q ys \<and> length ys \<le> 2 * q + 1"
  using assms
proof (induction "length xs - pos" arbitrary: pos xs rule: less_induct)
  case less
  let ?c = "greater_child le pos xs"
  consider (down) "2 * pos + 1 \<le> length xs - 2" | (last) "2 * pos + 1 = length xs - 1"
      "\<not> 2 * pos + 1 \<le> length xs - 2" | (stop) "\<not> 2 * pos + 1 \<le> length xs - 2" "2 * pos + 1 \<noteq> length xs - 1"
    by blast
  then show ?case
  proof cases
    case down
    have c: "?c < length xs" "0 < ?c" "parent ?c = pos" "pos < ?c"
      using greater_child_bounds [of le pos xs] down less.prems(2) by (auto simp: parent_child)
    have "le (xs ! i) (xs ! ?c)" if "i < length xs" "0 < i" "parent i = pos" for i
      using that total refl by (auto simp: parent_child greater_child_def Let_def)
    then have "hole_heap le ?c (xs[pos := xs ! ?c])" using hole_down [OF less.prems(3) c(1-3)] by blast
    then show ?thesis
      using less.hyps [where pos = ?c and xs = "xs[pos := xs ! ?c]"] less.prems c down
      by (simp add: sift_down_to_bottom.simps [of le pos xs] Let_def)
  next
    case last
    let ?k = "2 * pos + 1"
    have k: "?k < length xs" "0 < ?k" "parent ?k = pos" using last by (auto simp: parent_child)
    have "le (xs ! i) (xs ! ?k)" if "i < length xs" "0 < i" "parent i = pos" for i
      using that last refl by (auto simp: parent_child)
    then have "hole_heap le ?k (xs[pos := xs ! ?k])" using hole_down [OF less.prems(3) k] by blast
    then show ?thesis
      using less.prems last by (auto simp: sift_down_to_bottom.simps [of le pos xs] Let_def)
  next
    case stop
    then show ?thesis using less.prems by (auto simp: sift_down_to_bottom.simps [of le pos xs])
  qed
qed

lemma heap_push_heap:
  assumes "is_heap le xs"
  shows "is_heap le (heap_push le item xs)"
proof -
  have "le ((xs @ [item]) ! i) ((xs @ [item]) ! parent i)" if "i < length xs" "0 < i" for i
    using assms that parent_less [of i] by (auto simp: is_heap_def nth_append)
  moreover have "\<not> (i \<le> length xs \<and> 0 < i \<and> parent i = length xs)" for i
    using parent_less [of i] by linarith
  ultimately show ?thesis
    unfolding heap_push_def by (intro sift_up_heap) (auto simp: hole_heap_def less_Suc_eq_le)
qed

lemma heap_pop_heap:
  assumes heap: "is_heap le xs" and pop: "heap_pop le xs = (r, ys)"
  shows "is_heap le ys"
proof (cases "butlast xs = []")
  case True
  then show ?thesis using pop by (auto simp: heap_pop_def is_heap_def split: if_splits)
next
  case False
  then have ne: "xs \<noteq> []" by auto
  obtain zs q where down: "sift_down_to_bottom le 0 (butlast xs) = (zs, q)"
    by (cases "sift_down_to_bottom le 0 (butlast xs)")
  have "le (butlast xs ! i) (butlast xs ! parent i)" if "i < length (butlast xs)" "0 < i" for i
  proof -
    have "i < length xs" "parent i < length (butlast xs)" using that parent_less [of i] by (simp, linarith)
    then show ?thesis using heap that by (simp add: is_heap_def nth_butlast)
  qed
  then have hole: "hole_heap le 0 (butlast xs)" by (auto simp: hole_heap_def)
  have "0 < length (butlast xs)" using False by blast
  then have "hole_heap le q zs" "length zs \<le> 2 * q + 1" "q < length zs"
    using sift_down_hole [OF down _ hole] sift_down_mset [OF down] by blast+
  then have "is_heap le (sift_up le (last xs) q zs)"
    by (intro sift_up_heap) (auto simp: parent_child)
  then show ?thesis using pop down False ne by (auto simp: heap_pop_def Let_def)
qed

lemma heap_pop_greatest:
  assumes heap: "is_heap le xs" and pop: "heap_pop le xs = (Some m, ys)"
  shows "mset xs = add_mset m (mset ys)" and "x \<in> set xs \<Longrightarrow> le x m"
proof -
  have ne: "xs \<noteq> []" using pop by (auto simp: heap_pop_def)
  have m: "m = xs ! 0"
    using pop ne by (cases xs) (auto simp: heap_pop_def Let_def nth_butlast split: if_splits prod.splits)
  have split: "mset xs = add_mset (last xs) (mset (butlast xs))"
    using ne by (metis append_butlast_last_id mset.simps(2) mset_append mset_single_iff_right union_mset_add_mset_right add.right_neutral mset.simps(1))
  show "mset xs = add_mset m (mset ys)"
  proof (cases "butlast xs = []")
    case True
    then show ?thesis using pop ne by (cases xs) (auto simp: heap_pop_def Let_def split: if_splits)
  next
    case False
    obtain zs q where down: "sift_down_to_bottom le 0 (butlast xs) = (zs, q)"
      by (cases "sift_down_to_bottom le 0 (butlast xs)")
    have "ys = sift_up le (last xs) q zs" using pop down False ne by (auto simp: heap_pop_def Let_def)
    moreover have "q < length zs" "mset (zs[q := last xs]) = mset ((butlast xs)[0 := last xs])"
      using sift_down_mset [OF down, of "last xs"] False length_greater_0_conv by blast+
    ultimately have ys: "mset ys = mset ((butlast xs)[0 := last xs])" by (simp add: sift_up_mset)
    obtain y r where yr: "butlast xs = y # r" using False by (cases "butlast xs") auto
    then have "m = y" using m ne False by (metis nth_Cons_0 nth_butlast length_greater_0_conv)
    then show ?thesis using split ys yr by simp
  qed
  show "le x m" if "x \<in> set xs"
    using that heap_root_greatest [OF heap] m by (auto simp: in_set_conv_nth)
qed

lemma heap_push_mset: "mset (heap_push le item xs) = add_mset item (mset xs)"
  by (simp add: heap_push_def sift_up_mset)

lemma heap_pop_Some: "xs \<noteq> [] \<Longrightarrow> \<exists>m ys. heap_pop le xs = (Some m, ys)"
  by (auto simp: heap_pop_def Let_def split: prod.splits)

end

end
