(* ===== verification/Candidate_Limit.thy ===== *)
theory Candidate_Limit
  imports Bid_Context Binary_Heap
begin

text \<open>
  The candidate limit of \<open>pipeline/stages/candidate_limit.rs\<close>: the heap entries and their order,
  the bounded min-heap, and the stage. The heap orders reversed entries, so \<open>le_reverse\<close> is the
  order of the standard library's heap and \<open>heap_pop\<close> removes the cheapest entry.
\<close>

record heap_entry =
  he_price :: i32
  he_campaign_id :: u32
  he_candidate :: ad_candidate

definition heap_entry_eq :: "heap_entry \<Rightarrow> heap_entry \<Rightarrow> bool" where
  "heap_entry_eq a b \<longleftrightarrow> he_price a = he_price b \<and> he_campaign_id a = he_campaign_id b"

definition heap_entry_cmp :: "heap_entry \<Rightarrow> heap_entry \<Rightarrow> ordering" where
  "heap_entry_cmp a b = ord_then (cmp (he_price a) (he_price b)) (cmp (he_campaign_id b) (he_campaign_id a))"

definition heap_entry_partial_cmp :: "heap_entry \<Rightarrow> heap_entry \<Rightarrow> ordering option" where
  "heap_entry_partial_cmp a b = Some (heap_entry_cmp a b)"

text \<open>\<open>Reverse(a) <= Reverse(b)\<close>.\<close>

definition le_reverse :: "heap_entry \<Rightarrow> heap_entry \<Rightarrow> bool" where
  "le_reverse a b \<longleftrightarrow> heap_entry_partial_cmp b a \<in> {Some Less, Some Equal}"

definition entry_of :: "ad_candidate \<Rightarrow> heap_entry" where
  "entry_of c = \<lparr>he_price = cand_bid_price_cents c, he_campaign_id = cand_campaign_id c, he_candidate = c\<rparr>"

definition limit_push :: "usize \<Rightarrow> heap_entry list \<Rightarrow> ad_candidate \<Rightarrow> heap_entry list" where
  "limit_push top_k heap c =
     (let heap1 = heap_push le_reverse (entry_of c) heap in
      if top_k < length heap1 then snd (heap_pop le_reverse heap1) else heap1)"

definition limit_candidates :: "usize \<Rightarrow> ad_candidate list \<Rightarrow> ad_candidate list" where
  "limit_candidates top_k candidates =
     (if length candidates \<le> top_k then candidates
      else map he_candidate (foldl (limit_push top_k) [] candidates))"

definition candidate_limit_stage :: "usize \<Rightarrow> ('b, 'w) stage" where
  "candidate_limit_stage top_k =
     \<lparr>st_name = ''candidate_limit'',
      st_execute = (\<lambda>ctx w. (Inr (), ctx\<lparr>ctx_candidates := map (limit_candidates top_k) (ctx_candidates ctx)\<rparr>, w))\<rparr>"

section \<open>The order of the entries\<close>

text \<open>
  The order as a comparison of keys: a dearer entry is greater, and of two entries with the same
  price the one with the lower campaign id is.
\<close>

definition entry_key :: "heap_entry \<Rightarrow> int \<times> int" where
  "entry_key e = (he_price e, - uint (he_campaign_id e))"

lemma ord_then_neq_Greater [simp]:
  "ord_then (cmp a b) o2 \<noteq> Greater \<longleftrightarrow> a < b \<or> a = b \<and> o2 \<noteq> Greater"
  by (auto simp: cmp_def)

lemma le_reverse_key: "le_reverse a b \<longleftrightarrow> entry_key b \<le> entry_key a"
proof -
  have "le_reverse a b \<longleftrightarrow> heap_entry_cmp b a \<noteq> Greater"
    by (cases "heap_entry_cmp b a") (auto simp: le_reverse_def heap_entry_partial_cmp_def)
  moreover have "cmp x y \<noteq> Greater \<longleftrightarrow> - uint y \<le> - uint x" for x y :: u32
    by (auto simp: cmp_def word_le_def word_less_def word_uint_eq_iff)
  ultimately show ?thesis
    unfolding heap_entry_cmp_def by (auto simp: entry_key_def less_eq_prod_def)
qed

interpretation rev_heap: total_preorder le_reverse
  by unfold_locales (auto simp: le_reverse_key)

section \<open>The limit keeps the best candidates\<close>

definition cand_key :: "ad_candidate \<Rightarrow> int \<times> int" where
  "cand_key c = entry_key (entry_of c)"

text \<open>
  The heap after a prefix of the candidates: it is a heap of entries of that prefix, it is full
  unless the prefix is short, and nothing dropped is above anything kept.
\<close>

definition limit_inv :: "usize \<Rightarrow> ad_candidate list \<Rightarrow> heap_entry list \<Rightarrow> bool" where
  "limit_inv k cs heap \<longleftrightarrow>
     is_heap le_reverse heap \<and> length heap = min k (length cs) \<and>
     (\<exists>D. image_mset entry_of (mset cs) = mset heap + D \<and>
          (\<forall>y \<in># D. \<forall>x \<in> set heap. entry_key y \<le> entry_key x))"

text \<open>Popping the least entry of a full heap keeps everything dropped below everything kept.\<close>

lemma pop_keeps_above:
  assumes ys: "add_mset e H = add_mset m (mset ys)"
    and least: "\<And>x. x \<in># add_mset e H \<Longrightarrow> k m \<le> (k x :: 'k::linorder)"
    and dropped: "\<And>y x. y \<in># D \<Longrightarrow> x \<in># H \<Longrightarrow> k y \<le> k x"
    and y: "y \<in># add_mset m D" and x: "x \<in> set ys"
  shows "k y \<le> k x"
proof -
  have x': "x \<in># add_mset e H" using ys x by (metis set_mset_mset set_mset_add_mset_insert insertCI)
  have m': "m \<in># add_mset e H" using ys by simp
  consider "y = m" | "y \<in># D" "x \<in># H" | "y \<in># D" "x = e" "x \<notin># H" using x' y by auto
  then show ?thesis
  proof cases
    case 3
    have "m \<in># H"
    proof (rule ccontr)
      assume "m \<notin># H"
      then have "m = e" using m' by simp
      then have "mset ys = H" using ys by simp
      then show False using 3 x by (metis set_mset_mset)
    qed
    then show ?thesis using 3 dropped least [OF x'] order_trans by blast
  qed (use least x' dropped in auto)
qed

lemma limit_push_inv:
  assumes "limit_inv k cs heap"
  shows "limit_inv k (cs @ [c]) (limit_push k heap c)"
proof -
  obtain D where heap: "is_heap le_reverse heap" and len: "length heap = min k (length cs)"
    and D: "image_mset entry_of (mset cs) = mset heap + D"
    and dropped: "\<forall>y \<in># D. \<forall>x \<in> set heap. entry_key y \<le> entry_key x"
    using assms unfolding limit_inv_def by blast
  let ?h = "heap_push le_reverse (entry_of c) heap"
  have h: "is_heap le_reverse ?h" "mset ?h = add_mset (entry_of c) (mset heap)"
    using heap by (simp_all add: rev_heap.heap_push_heap rev_heap.heap_push_mset)
  have lh: "length ?h = Suc (length heap)" using h(2) by (metis size_mset size_add_mset)
  show ?thesis
  proof (cases "k < length ?h")
    case False
    then have "length cs < k" using len lh by simp
    then have "D = {#}" using arg_cong [OF D, of size] len by simp
    then show ?thesis
      using False h D lh len \<open>length cs < k\<close> by (auto simp: limit_inv_def limit_push_def Let_def)
  next
    case True
    obtain m ys where pop: "heap_pop le_reverse ?h = (Some m, ys)"
      using rev_heap.heap_pop_Some [of ?h] lh by (metis list.size(3) nat.distinct(1))
    have ys: "is_heap le_reverse ys" "add_mset (entry_of c) (mset heap) = add_mset m (mset ys)"
      using rev_heap.heap_pop_heap [OF h(1) pop] rev_heap.heap_pop_greatest(1) [OF h(1) pop] h(2) by simp_all
    have least: "entry_key m \<le> entry_key x" if "x \<in># add_mset (entry_of c) (mset heap)" for x
      using rev_heap.heap_pop_greatest(2) [OF h(1) pop] that h(2) by (metis le_reverse_key set_mset_mset)
    have "\<forall>y \<in># add_mset m D. \<forall>x \<in> set ys. entry_key y \<le> entry_key x"
      using pop_keeps_above [where k = entry_key, OF ys(2)] least dropped by (metis set_mset_mset)
    moreover have "length ys = min k (length (cs @ [c]))"
      using arg_cong [OF ys(2), of size] lh len True by simp
    moreover have "image_mset entry_of (mset (cs @ [c])) = mset ys + add_mset m D"
      using D ys(2) by simp
    ultimately show ?thesis
      using ys(1) True pop unfolding limit_inv_def limit_push_def Let_def by (intro conjI exI [of _ "add_mset m D"]) auto
  qed
qed

lemma limit_fold_inv: "limit_inv k cs (foldl (limit_push k) [] cs)"
proof (induction cs rule: rev_induct)
  case Nil
  then show ?case by (simp add: limit_inv_def is_heap_def)
next
  case (snoc c cs)
  then show ?case by (simp add: limit_push_inv)
qed

lemma image_entry_candidate [simp]: "image_mset he_candidate (image_mset entry_of M) = M"
  by (simp add: multiset.map_comp o_def entry_of_def)

lemma limit_candidates_best:
  "\<exists>D. mset cs = mset (limit_candidates k cs) + D \<and> length (limit_candidates k cs) = min k (length cs) \<and>
     (\<forall>x \<in> set (limit_candidates k cs). \<forall>y \<in># D. cand_key y \<le> cand_key x)"
proof (cases "length cs \<le> k")
  case True
  then show ?thesis by (simp add: limit_candidates_def)
next
  case False
  let ?h = "foldl (limit_push k) [] cs"
  obtain D where len: "length ?h = min k (length cs)" and D: "image_mset entry_of (mset cs) = mset ?h + D"
    and below: "\<forall>y \<in># D. \<forall>x \<in> set ?h. entry_key y \<le> entry_key x"
    using limit_fold_inv [of k cs] unfolding limit_inv_def by blast
  have entries: "e = entry_of (he_candidate e)" if "e \<in># mset ?h + D" for e
    using that D [symmetric] by (auto simp: entry_of_def)
  have "mset cs = mset (map he_candidate ?h) + image_mset he_candidate D"
    using arg_cong [OF D, of "image_mset he_candidate"] by simp
  moreover have "cand_key y \<le> cand_key x"
    if "x \<in> set (map he_candidate ?h)" "y \<in># image_mset he_candidate D" for x y
    using that below entries unfolding cand_key_def by fastforce
  ultimately show ?thesis
    using False len by (intro exI [of _ "image_mset he_candidate D"]) (simp add: limit_candidates_def)
qed

lemma limit_candidates_subset: "set (limit_candidates k cs) \<subseteq> set cs"
  using limit_candidates_best [of cs k] by (metis mset_subset_eq_add_left set_mset_mono set_mset_mset)

lemma limit_candidates_distinct:
  assumes "distinct (map cand_campaign_id cs)"
  shows "distinct (map cand_campaign_id (limit_candidates k cs))"
proof -
  obtain D where "mset cs = mset (limit_candidates k cs) + D" using limit_candidates_best by blast
  then have "mset (map cand_campaign_id cs) = mset (map cand_campaign_id (limit_candidates k cs)) + image_mset cand_campaign_id D"
    by simp
  then show ?thesis using assms
    by (metis count_mset_0_iff distinct_count_atmost_1 mset_append ex_mset distinct_append mset_eq_imp_distinct_iff)
qed

text \<open>
  C21. The candidate limit leaves a list of at most \<open>top_k\<close> candidates alone and otherwise keeps
  exactly \<open>top_k\<close> of them, none invented or duplicated, and every candidate it drops is cheaper
  than every candidate it keeps, or as cheap with a campaign id that is not lower.
\<close>

theorem candidate_limit_keeps_best:
  "(length cs \<le> k \<longrightarrow> limit_candidates k cs = cs) \<and>
   length (limit_candidates k cs) = min k (length cs) \<and>
   (\<exists>dropped. mset cs = mset (limit_candidates k cs) + mset dropped \<and>
     (\<forall>x \<in> set (limit_candidates k cs). \<forall>y \<in> set dropped.
        cand_bid_price_cents y < cand_bid_price_cents x \<or>
        cand_bid_price_cents y = cand_bid_price_cents x \<and> cand_campaign_id x \<le> cand_campaign_id y))"
proof -
  obtain D where D: "mset cs = mset (limit_candidates k cs) + D" "length (limit_candidates k cs) = min k (length cs)"
      "\<forall>x \<in> set (limit_candidates k cs). \<forall>y \<in># D. cand_key y \<le> cand_key x"
    using limit_candidates_best by blast
  obtain ds where "D = mset ds" by (metis ex_mset)
  moreover have "cand_key y \<le> cand_key x \<longleftrightarrow> cand_bid_price_cents y < cand_bid_price_cents x \<or>
        cand_bid_price_cents y = cand_bid_price_cents x \<and> cand_campaign_id x \<le> cand_campaign_id y" for x y
    by (auto simp: cand_key_def entry_key_def entry_of_def less_eq_prod_def word_le_def)
  ultimately show ?thesis using D by (intro conjI exI [of _ ds]) (auto simp: limit_candidates_def)
qed

definition limit_example :: "ad_candidate list" where
  "limit_example = map (\<lambda>(i, p). \<lparr>cand_campaign_id = i, cand_creative_id = 1, cand_bid_price_cents = p,
     cand_score = Num 0 0, cand_daily_cap_imps = 5, cand_hourly_cap_imps = 5\<rparr>) [(4, 20), (9, 30), (2, 20), (7, 10)]"

theorem candidate_limit_keeps_best_witness:
  "map cand_campaign_id (limit_candidates 2 limit_example) = [2, 9] \<and>
   (\<exists>dropped. mset limit_example = mset (limit_candidates 2 limit_example) + mset dropped \<and>
     (\<forall>x \<in> set (limit_candidates 2 limit_example). \<forall>y \<in> set dropped.
        cand_bid_price_cents y < cand_bid_price_cents x \<or>
        cand_bid_price_cents y = cand_bid_price_cents x \<and> cand_campaign_id x \<le> cand_campaign_id y))"
proof -
  have "map cand_campaign_id (limit_candidates 2 limit_example) = [2, 9]" by code_simp
  then show ?thesis using candidate_limit_keeps_best [of limit_example 2] by blast
qed

end
