(* ===== verification/Scoring.thy ===== *)
theory Scoring
  imports Bid_Context
begin

text \<open>
  The scorer interface of \<open>scoring/mod.rs\<close>, the linear scorer of
  \<open>scoring/feature_weighted.rs\<close> and the feature vector of \<open>scoring/features.rs\<close>. A scorer acts
  on a batch and on the state of the models (round-robin counters, reloaded sessions). The locale
  \<open>scorer\<close> is what the pipeline relies on: a scorer writes scores and nothing else.

  \<open>f32::ln\<close> has no specified precision in Rust; it is the argument \<open>ln32\<close>.
\<close>

section \<open>The interface\<close>

record scoring_context =
  sx_segment_ids :: "segment_id list"
  sx_device_type :: "device_target_type option"
  sx_ad_format :: "ad_format option"
  sx_hour_of_day :: u8
  sx_is_weekend :: bool
  sx_user_id :: string
  sx_is_top_market :: bool

record 's scorer_ops =
  sc_score_all :: "scoring_context \<Rightarrow> ad_candidate list \<Rightarrow> 's \<Rightarrow> ad_candidate list \<times> 's"

definition unscored :: "ad_candidate \<Rightarrow> ad_candidate" where
  "unscored c = c\<lparr>cand_score := Num 0 0\<rparr>"

locale scorer =
  fixes S :: "'s scorer_ops"
  assumes keeps: "sc_score_all S ctx cs s = (cs', s') \<Longrightarrow> map unscored cs' = map unscored cs"
begin

lemma keeps_length: "sc_score_all S ctx cs s = (cs', s') \<Longrightarrow> length cs' = length cs"
  using keeps map_eq_imp_length_eq by blast

end

lemma unscored_upd [simp]: "unscored (c\<lparr>cand_score := x\<rparr>) = unscored c"
  by (simp add: unscored_def)

lemma unscored_fields:
  assumes "unscored a = unscored b"
  shows "cand_campaign_id a = cand_campaign_id b" "cand_creative_id a = cand_creative_id b"
    "cand_bid_price_cents a = cand_bid_price_cents b" "cand_daily_cap_imps a = cand_daily_cap_imps b"
    "cand_hourly_cap_imps a = cand_hourly_cap_imps b"
  using assms by (cases a; cases b; simp add: unscored_def)+

section \<open>The linear scorer\<close>

record feature_weighted =
  fw_weight_price :: flt
  fw_weight_segment_overlap :: flt
  fw_max_bid_price_cents :: flt

definition fw_default :: feature_weighted where
  "fw_default = \<lparr>fw_weight_price = flt_lit binary32 4 10, fw_weight_segment_overlap = flt_lit binary32 6 10,
     fw_max_bid_price_cents = flt_lit binary32 1000 1\<rparr>"

definition fw_norm_price :: "feature_weighted \<Rightarrow> ad_candidate \<Rightarrow> flt" where
  "fw_norm_price w c =
     flt_min (flt_div binary32 (flt_of_int binary32 (cand_bid_price_cents c)) (fw_max_bid_price_cents w)) (flt_lit binary32 1 1)"

definition fw_overlap_ratio :: "scoring_context \<Rightarrow> ad_candidate \<Rightarrow> flt" where
  "fw_overlap_ratio ctx c =
     (let n_segments = flt_of_int binary32 (int (length (sx_segment_ids ctx))) in
      if flt_gt n_segments (flt_lit binary32 0 1)
      then flt_min (flt_div binary32 (flt_of_int binary32 (uint (cand_campaign_id c mod 10))) (flt_lit binary32 10 1))
             (flt_lit binary32 1 1)
      else flt_lit binary32 5 10)"

definition fw_score :: "feature_weighted \<Rightarrow> scoring_context \<Rightarrow> ad_candidate \<Rightarrow> flt" where
  "fw_score w ctx c =
     flt_add binary32 (flt_mul binary32 (fw_weight_price w) (fw_norm_price w c))
       (flt_mul binary32 (fw_weight_segment_overlap w) (fw_overlap_ratio ctx c))"

definition feature_weighted_scorer :: "feature_weighted \<Rightarrow> 's scorer_ops" where
  "feature_weighted_scorer w =
     \<lparr>sc_score_all = (\<lambda>ctx cs s. (map (\<lambda>c. c\<lparr>cand_score := fw_score w ctx c\<rparr>) cs, s))\<rparr>"

interpretation fw: scorer "feature_weighted_scorer w" for w
  by unfold_locales (auto simp: feature_weighted_scorer_def)

section \<open>Features\<close>

definition FEATURE_COUNT :: usize where
  "FEATURE_COUNT = 13"

definition BID_PRICE_MAX_CENTS :: flt where
  "BID_PRICE_MAX_CENTS = flt_lit binary32 1000 1"

record scoring_features =
  bid_price_norm :: flt
  segment_overlap_ratio :: flt
  segment_count_log1p :: flt
  device_desktop :: flt
  device_mobile :: flt
  device_tablet :: flt
  device_ctv :: flt
  hour_of_day_norm :: flt
  is_weekend_flag :: flt
  geo_top_market :: flt
  format_banner :: flt
  format_video :: flt
  format_native :: flt

abbreviation f32_0 :: flt where "f32_0 \<equiv> flt_lit binary32 0 1"
abbreviation f32_1 :: flt where "f32_1 \<equiv> flt_lit binary32 1 1"

definition one_hot_device :: "device_target_type option \<Rightarrow> flt \<times> flt \<times> flt \<times> flt" where
  "one_hot_device d =
     (case d of
        Some Desktop \<Rightarrow> (f32_1, f32_0, f32_0, f32_0)
      | Some Mobile \<Rightarrow> (f32_0, f32_1, f32_0, f32_0)
      | Some Tablet \<Rightarrow> (f32_0, f32_0, f32_1, f32_0)
      | Some Ctv \<Rightarrow> (f32_0, f32_0, f32_0, f32_1)
      | _ \<Rightarrow> (f32_0, f32_0, f32_0, f32_0))"

definition one_hot_format :: "ad_format option \<Rightarrow> flt \<times> flt \<times> flt" where
  "one_hot_format f =
     (case f of
        Some Banner \<Rightarrow> (f32_1, f32_0, f32_0)
      | Some Video \<Rightarrow> (f32_0, f32_1, f32_0)
      | Some Native \<Rightarrow> (f32_0, f32_0, f32_1)
      | _ \<Rightarrow> (f32_0, f32_0, f32_0))"

definition extract_features :: "(flt \<Rightarrow> flt) \<Rightarrow> ad_candidate \<Rightarrow> scoring_context \<Rightarrow> scoring_features" where
  "extract_features ln32 c ctx =
     (let price = flt_clamp f32_0 f32_1
            (flt_div binary32 (flt_of_int binary32 (cand_bid_price_cents c)) BID_PRICE_MAX_CENTS);
          n_segments = length (sx_segment_ids ctx);
          overlap = (if n_segments = 0 then f32_0
                     else flt_div binary32 (flt_of_int binary32 (uint (cand_campaign_id c mod 10))) (flt_lit binary32 10 1));
          log1p = ln32 (flt_add binary32 (flt_of_int binary32 (int n_segments)) f32_1);
          (desktop, mobile, tablet, ctv) = one_hot_device (sx_device_type ctx);
          hour = flt_div binary32 (flt_of_int binary32 (uint (min (sx_hour_of_day ctx) 23))) (flt_lit binary32 23 1);
          weekend = (if sx_is_weekend ctx then f32_1 else f32_0);
          top_market = (if sx_is_top_market ctx then f32_1 else f32_0);
          (banner, video, native) = one_hot_format (sx_ad_format ctx)
      in \<lparr>bid_price_norm = price, segment_overlap_ratio = overlap, segment_count_log1p = log1p,
          device_desktop = desktop, device_mobile = mobile, device_tablet = tablet, device_ctv = ctv,
          hour_of_day_norm = hour, is_weekend_flag = weekend, geo_top_market = top_market,
          format_banner = banner, format_video = video, format_native = native\<rparr>)"

definition pack_into :: "scoring_features \<Rightarrow> flt list \<Rightarrow> flt list" where
  "pack_into f out =
     out[0 := bid_price_norm f, 1 := segment_overlap_ratio f, 2 := segment_count_log1p f,
         3 := device_desktop f, 4 := device_mobile f, 5 := device_tablet f, 6 := device_ctv f,
         7 := hour_of_day_norm f, 8 := is_weekend_flag f, 9 := geo_top_market f,
         10 := format_banner f, 11 := format_video f, 12 := format_native f]"

section \<open>The range of the linear scorer\<close>

text \<open>A float of the unit interval.\<close>

definition unit_flt :: "flt \<Rightarrow> bool" where
  "unit_flt x \<longleftrightarrow> is_num x \<and> 0 \<le> fval x \<and> fval x \<le> 1"

lemma f32_consts:
  "f32_0 = Num 0 0" "f32_1 = Num 1 0" "flt_lit binary32 5 10 = Num 1 (- 1)"
  "flt_lit binary32 10 1 = Num 5 1" "flt_lit binary32 1000 1 = Num 125 3"
  "fw_weight_price fw_default = Num 13421773 (- 25)" "fw_weight_segment_overlap fw_default = Num 5033165 (- 23)"
  "fw_max_bid_price_cents fw_default = Num 125 3"
  by code_simp+

lemma unit_between:
  assumes "x \<noteq> NaN" "fkey f32_0 \<le> fkey x" "fkey x \<le> fkey f32_1"
  shows "unit_flt x"
  using is_num_between [OF assms(1), of 0 1] assms(2,3) by (simp add: f32_consts unit_flt_def)

lemma unit_fltD:
  assumes "unit_flt x"
  shows "is_num x" "x \<noteq> NaN" "fkey f32_0 \<le> fkey x" "fkey x \<le> fkey f32_1" "fval (Num 0 0) \<le> fval x" "fval x \<le> fval (Num 1 0)"
  using assms by (auto simp: unit_flt_def f32_consts elim!: is_numE)

lemma flt_ops_not_NaN:
  "is_num x \<Longrightarrow> is_num y \<Longrightarrow> flt_mul F x y \<noteq> NaN"
  "is_num x \<Longrightarrow> is_num y \<Longrightarrow> flt_add F x y \<noteq> NaN"
  "is_num x \<Longrightarrow> is_num y \<Longrightarrow> 0 < fval y \<Longrightarrow> flt_div F x y \<noteq> NaN"
  using flt_mul_rnd flt_add_rnd flt_div_rnd by (metis rnd_not_NaN)+

lemma flt_min_unit:
  assumes "x \<noteq> NaN" "fkey f32_0 \<le> fkey x"
  shows "unit_flt (flt_min x f32_1)"
proof -
  have "flt_min x f32_1 \<in> {x, f32_1}" "fkey (flt_min x f32_1) \<le> fkey f32_1"
    using assms(1) by (auto simp: flt_min_def flt_lt_fkey f32_consts not_less)
  then show ?thesis using assms by (intro unit_between) (auto simp: f32_consts)
qed

lemma flt_min_mono:
  assumes "x \<noteq> NaN" "y \<noteq> NaN" "fkey x \<le> fkey y"
  shows "fkey (flt_min x f32_1) \<le> fkey (flt_min y f32_1)"
  using assms by (auto simp: flt_min_def flt_lt_fkey f32_consts)

lemma i32_as_f32:
  assumes "0 \<le> p" "in_i32 p"
  shows "is_num (flt_of_int binary32 p)" "0 \<le> fval (flt_of_int binary32 p)"
proof -
  have b: "flt_of_int binary32 0 = Num 0 0" "flt_of_int binary32 2147483648 = Num 1 31" by code_simp+
  have mono: "fkey (flt_of_int binary32 a) \<le> fkey (flt_of_int binary32 b)" if "a \<le> b" for a b
    using rnd_mono [of binary32 1 1 a 0 b 0] that by (simp add: flt_of_int_def exact_def)
  have "(0, 0) \<le> fkey (flt_of_int binary32 p)" "fkey (flt_of_int binary32 p) \<le> (0, of_int 1 * pow2 31)"
    using mono [of 0 p] mono [of p 2147483648] assms unfolding b by (auto simp: in_i32_def)
  then show "is_num (flt_of_int binary32 p)" "0 \<le> fval (flt_of_int binary32 p)"
    using is_num_between [of "flt_of_int binary32 p"] by (auto simp: flt_of_int_def)
qed

lemma i32_as_f32_mono: "a \<le> b \<Longrightarrow> fkey (flt_of_int binary32 a) \<le> fkey (flt_of_int binary32 b)"
  using rnd_mono [of binary32 1 1 a 0 b 0] by (simp add: flt_of_int_def exact_def)

lemma f32_div_nonneg:
  assumes "is_num x" "0 \<le> fval x" "is_num d" "0 < fval d"
  shows "flt_div binary32 x d \<noteq> NaN" "fkey f32_0 \<le> fkey (flt_div binary32 x d)"
proof -
  have "flt_div binary32 (Num 0 0) d = Num 0 0" using assms(3,4) by (cases d) (auto simp: rnd_def)
  then show "fkey f32_0 \<le> fkey (flt_div binary32 x d)"
    using flt_div_mono [of binary32 "Num 0 0" x d] assms by (simp add: f32_consts)
qed (use assms flt_ops_not_NaN in blast)

lemma fw_norm_price_unit:
  assumes "0 \<le> cand_bid_price_cents c" "in_i32 (cand_bid_price_cents c)"
  shows "unit_flt (fw_norm_price fw_default c)"
  unfolding fw_norm_price_def
  by (intro flt_min_unit f32_div_nonneg i32_as_f32 assms) (simp_all add: f32_consts)

lemma fw_overlap_unit: "unit_flt (fw_overlap_ratio ctx c)"
proof -
  have "uint (cand_campaign_id c mod 10) = uint (cand_campaign_id c) mod 10" by (simp add: uint_mod)
  moreover have "uint (cand_campaign_id c) mod 10 < 10" by simp
  ultimately have "in_i32 (uint (cand_campaign_id c mod 10))" unfolding in_i32_def by auto
  then have "unit_flt (flt_min (flt_div binary32 (flt_of_int binary32 (uint (cand_campaign_id c mod 10))) (flt_lit binary32 10 1)) f32_1)"
    by (intro flt_min_unit f32_div_nonneg i32_as_f32) (simp_all add: f32_consts)
  moreover have "unit_flt (flt_lit binary32 5 10)"
    by (simp add: f32_consts unit_flt_def power_int_minus)
  ultimately show ?thesis by (simp add: fw_overlap_ratio_def Let_def)
qed

definition fw_weights :: "flt set" where
  "fw_weights = {fw_weight_price fw_default, fw_weight_segment_overlap fw_default}"

lemma fw_weight_num: "w \<in> fw_weights \<Longrightarrow> is_num w" "w \<in> fw_weights \<Longrightarrow> 0 \<le> fval w"
  by (auto simp: fw_weights_def f32_consts)

lemma fw_weight_ends:
  "w \<in> fw_weights \<Longrightarrow> flt_mul binary32 w (Num 0 0) = Num 0 0"
  "w \<in> fw_weights \<Longrightarrow> flt_le (flt_mul binary32 w (Num 1 0)) (Num 1 0)"
proof -
  have "flt_mul binary32 (fw_weight_price fw_default) (Num 0 0) = Num 0 0"
       "flt_mul binary32 (fw_weight_segment_overlap fw_default) (Num 0 0) = Num 0 0"
       "flt_le (flt_mul binary32 (fw_weight_price fw_default) (Num 1 0)) (Num 1 0)"
       "flt_le (flt_mul binary32 (fw_weight_segment_overlap fw_default) (Num 1 0)) (Num 1 0)"
    by code_simp+
  then show "w \<in> fw_weights \<Longrightarrow> flt_mul binary32 w (Num 0 0) = Num 0 0"
      "w \<in> fw_weights \<Longrightarrow> flt_le (flt_mul binary32 w (Num 1 0)) (Num 1 0)"
    by (auto simp: fw_weights_def)
qed

lemma fw_weighted_mono:
  assumes "w \<in> fw_weights" "unit_flt x" "unit_flt y" "fval x \<le> fval y"
  shows "fkey (flt_mul binary32 w x) \<le> fkey (flt_mul binary32 w y)"
  using assms fw_weight_num by (intro flt_mul_mono) (auto dest: unit_fltD)

lemma fw_weighted_unit:
  assumes w: "w \<in> fw_weights" and x: "unit_flt x"
  shows "unit_flt (flt_mul binary32 w x)"
proof (rule unit_between)
  have ends: "unit_flt (Num 0 0)" "unit_flt (Num 1 0)" by (simp_all add: unit_flt_def)
  have num: "flt_mul binary32 w y \<noteq> NaN" if "is_num y" for y
    using that fw_weight_num(1) [OF w] flt_ops_not_NaN(1) by blast
  show "flt_mul binary32 w x \<noteq> NaN" using x num by (simp add: unit_flt_def)
  show "fkey f32_0 \<le> fkey (flt_mul binary32 w x)"
    using fw_weighted_mono [OF w ends(1) x] fw_weight_ends(1) [OF w] unit_fltD(5) [OF x] by (simp add: f32_consts)
  have "fkey (flt_mul binary32 w x) \<le> fkey (flt_mul binary32 w (Num 1 0))"
    using fw_weighted_mono [OF w x ends(2)] unit_fltD(6) [OF x] by simp
  also have "\<dots> \<le> fkey (Num 1 0)"
    using fw_weight_ends(2) [OF w] num [of "Num 1 0"] by (simp add: flt_le_fkey)
  finally show "fkey (flt_mul binary32 w x) \<le> fkey f32_1" by (simp add: f32_consts)
qed

lemma unit_fval_key: "unit_flt x \<Longrightarrow> unit_flt y \<Longrightarrow> fkey x \<le> fkey y \<longleftrightarrow> fval x \<le> fval y"
  by (auto simp: unit_flt_def fkey_num)

lemma fw_sum_mono:
  assumes "unit_flt x" "unit_flt y" "unit_flt x'" "unit_flt y'" "fkey x \<le> fkey x'" "fkey y \<le> fkey y'"
  shows "fkey (flt_add binary32 x y) \<le> fkey (flt_add binary32 x' y')"
  using assms unit_fval_key by (intro flt_add_mono) (auto simp: unit_flt_def)

lemmas fw_price_weight = fw_weighted_unit [of "fw_weight_price fw_default", unfolded fw_weights_def, simplified]
lemmas fw_overlap_weight = fw_weighted_unit [of "fw_weight_segment_overlap fw_default", unfolded fw_weights_def, simplified]

lemma fw_score_not_NaN:
  assumes "0 \<le> cand_bid_price_cents c" "in_i32 (cand_bid_price_cents c)"
  shows "fw_score fw_default ctx c \<noteq> NaN"
  using assms unfolding fw_score_def
  by (intro flt_ops_not_NaN unit_fltD(1) fw_price_weight fw_overlap_weight fw_norm_price_unit fw_overlap_unit)

lemma fw_score_unit:
  assumes "0 \<le> cand_bid_price_cents c" "in_i32 (cand_bid_price_cents c)"
  shows "unit_flt (fw_score fw_default ctx c)"
proof (rule unit_between [OF fw_score_not_NaN [OF assms]])
  let ?p = "flt_mul binary32 (fw_weight_price fw_default)" and ?s = "flt_mul binary32 (fw_weight_segment_overlap fw_default)"
  have units: "unit_flt (Num 0 0)" "unit_flt (Num 1 0)" "unit_flt (fw_norm_price fw_default c)" "unit_flt (fw_overlap_ratio ctx c)"
    using fw_norm_price_unit [OF assms] fw_overlap_unit by (simp_all add: unit_flt_def)
  have ends: "flt_add binary32 (?p (Num 0 0)) (?s (Num 0 0)) = Num 0 0" "flt_add binary32 (?p (Num 1 0)) (?s (Num 1 0)) = Num 1 0"
    by code_simp+
  have mono: "fkey (?p x) \<le> fkey (?p y)" "fkey (?s x) \<le> fkey (?s y)" if "unit_flt x" "unit_flt y" "fval x \<le> fval y" for x y
    using that by (auto intro!: fw_weighted_mono simp: fw_weights_def)
  have le: "fval (Num 0 0) \<le> fval x" "fval x \<le> fval (Num 1 0)" if "unit_flt x" for x using unit_fltD(5,6) [OF that] .
  have "fkey (flt_add binary32 (?p (Num 0 0)) (?s (Num 0 0))) \<le> fkey (fw_score fw_default ctx c)"
    unfolding fw_score_def by (intro fw_sum_mono fw_price_weight fw_overlap_weight mono le units)
  then show "fkey f32_0 \<le> fkey (fw_score fw_default ctx c)" by (simp only: ends f32_consts(1,2))
  have "fkey (fw_score fw_default ctx c) \<le> fkey (flt_add binary32 (?p (Num 1 0)) (?s (Num 1 0)))"
    unfolding fw_score_def by (intro fw_sum_mono fw_price_weight fw_overlap_weight mono le units)
  then show "fkey (fw_score fw_default ctx c) \<le> fkey f32_1" by (simp only: ends f32_consts(1,2))
qed

lemma fw_norm_price_mono:
  assumes "0 \<le> cand_bid_price_cents c" "in_i32 (cand_bid_price_cents c)" "in_i32 (cand_bid_price_cents d)"
    and "cand_bid_price_cents c \<le> cand_bid_price_cents d"
  shows "fkey (fw_norm_price fw_default c) \<le> fkey (fw_norm_price fw_default d)"
proof -
  let ?x = "flt_of_int binary32 (cand_bid_price_cents c)" and ?y = "flt_of_int binary32 (cand_bid_price_cents d)"
  have num: "is_num ?x" "is_num ?y" using i32_as_f32(1) assms by auto
  then have "fval ?x \<le> fval ?y" using i32_as_f32_mono [OF assms(4)] by (simp add: fkey_num)
  then show ?thesis
    unfolding fw_norm_price_def f32_consts
    using num flt_div_mono [of binary32 ?x ?y "Num 125 3"] flt_min_mono flt_ops_not_NaN(3) [of _ "Num 125 3"]
    by (simp add: f32_consts)
qed

text \<open>
  C34. For non-negative prices the default linear scorer gives scores between 0 and 1 in single
  precision, and with the same segment overlap a higher price never gives a lower score.
\<close>

theorem fw_score_range_and_order:
  assumes "0 \<le> cand_bid_price_cents c" "in_i32 (cand_bid_price_cents c)"
  shows "flt_le f32_0 (fw_score fw_default ctx c) \<and> flt_le (fw_score fw_default ctx c) f32_1 \<and>
    (\<forall>d. in_i32 (cand_bid_price_cents d) \<and> cand_bid_price_cents c \<le> cand_bid_price_cents d \<and>
         fw_overlap_ratio ctx d = fw_overlap_ratio ctx c \<longrightarrow>
       flt_le (fw_score fw_default ctx c) (fw_score fw_default ctx d))"
proof (intro conjI allI impI, goal_cases)
  case 1
  then show ?case using unit_fltD [OF fw_score_unit [OF assms]] by (simp add: flt_le_fkey f32_consts)
next
  case 2
  then show ?case using unit_fltD [OF fw_score_unit [OF assms]] by (simp add: flt_le_fkey f32_consts)
next
  case (3 d)
  then have d: "0 \<le> cand_bid_price_cents d" "in_i32 (cand_bid_price_cents d)" using assms(1) by auto
  have "fkey (fw_norm_price fw_default c) \<le> fkey (fw_norm_price fw_default d)"
    using fw_norm_price_mono assms 3 by blast
  then have "fval (fw_norm_price fw_default c) \<le> fval (fw_norm_price fw_default d)"
    using unit_fval_key fw_norm_price_unit assms d by blast
  then have "fkey (fw_score fw_default ctx c) \<le> fkey (fw_score fw_default ctx d)"
    using 3 unfolding fw_score_def
    by (auto intro!: fw_sum_mono fw_price_weight fw_overlap_weight fw_weighted_mono fw_norm_price_unit fw_overlap_unit assms d simp: fw_weights_def)
  then show ?case using fw_score_not_NaN assms d by (simp add: flt_le_fkey)
qed

definition ex_scored :: "campaign_id \<Rightarrow> i32 \<Rightarrow> ad_candidate" where
  "ex_scored i price = \<lparr>cand_campaign_id = i, cand_creative_id = 1, cand_bid_price_cents = price,
     cand_score = Num 0 0, cand_daily_cap_imps = 5, cand_hourly_cap_imps = 5\<rparr>"

theorem fw_score_range_and_order_witness:
  "flt_le (fw_score fw_default \<lparr>sx_segment_ids = [3], sx_device_type = None, sx_ad_format = None, sx_hour_of_day = 0,
       sx_is_weekend = False, sx_user_id = [], sx_is_top_market = False\<rparr> (ex_scored 7 500))
     (fw_score fw_default \<lparr>sx_segment_ids = [3], sx_device_type = None, sx_ad_format = None, sx_hour_of_day = 0,
       sx_is_weekend = False, sx_user_id = [], sx_is_top_market = False\<rparr> (ex_scored 17 900))"
proof -
  have "fw_overlap_ratio ctx (ex_scored 17 900) = fw_overlap_ratio ctx (ex_scored 7 500)" for ctx
    by (simp add: fw_overlap_ratio_def ex_scored_def)
  then show ?thesis
    using fw_score_range_and_order [of "ex_scored 7 500"] by (simp add: ex_scored_def in_i32_def)
qed

end
