(* ===== verification/Ml_Scoring.thy ===== *)
theory Ml_Scoring
  imports Scoring
begin

text \<open>
  The ONNX scorer of \<open>scoring/ml.rs\<close>. An ONNX session is a parameter: a function from the named
  input tensor to the named outputs, or an error. A snapshot is the pool of sessions with its
  round-robin counter; the snapshots of all ML scorers are a list, and a scorer knows the index of
  its own (the \<open>ArcSwap\<close> it holds), so that a reload replaces one entry. The batching loop ends only
  for a positive batch size, so it is a \<open>partial_function\<close>; \<open>validate\<close> refuses the others and
  \<open>ml_loop_returns\<close> shows that the loop then ends.
\<close>

section \<open>Configuration and snapshots\<close>

record ml_scorer_config =
  ml_model_path :: string
  ml_parity_path :: "string option"
  ml_input_tensor_name :: string
  ml_output_tensor_name :: string
  ml_pool_size :: usize
  ml_max_batch :: usize
  ml_batch_pad_to :: usize

definition ml_validate :: "ml_scorer_config \<Rightarrow> unit anyhow" where
  "ml_validate cfg =
     (if ml_pool_size cfg = 0 then Inl ''MLScorerConfig.pool_size must be >= 1''
      else if ml_max_batch cfg = 0 then Inl ''MLScorerConfig.max_batch must be >= 1''
      else if ml_batch_pad_to cfg = 0 then Inl ''MLScorerConfig.batch_pad_to must be >= 1''
      else Inr ())"

text \<open>The outputs by name; extracting one as a tensor of \<open>f32\<close> may fail.\<close>

type_synonym onnx_session = "string \<Rightarrow> flt list list \<Rightarrow> (string \<rightharpoonup> flt list anyhow) anyhow"

record model_snapshot =
  ms_sessions :: "onnx_session list"
  ms_next :: usize
  ms_input_name :: string
  ms_output_name :: string

type_synonym models = "model_snapshot list"

text \<open>\<open>load\<close> opens a session on a model file.\<close>

fun load_sessions :: "(string \<Rightarrow> onnx_session anyhow) \<Rightarrow> string \<Rightarrow> nat \<Rightarrow> onnx_session list anyhow" where
  "load_sessions load path 0 = Inr []"
| "load_sessions load path (Suc n) =
     try_bind (load path) (\<lambda>session. try_bind (load_sessions load path n) (\<lambda>rest. Inr (session # rest)))"

definition snapshot_build :: "(string \<Rightarrow> onnx_session anyhow) \<Rightarrow> ml_scorer_config \<Rightarrow> model_snapshot anyhow" where
  "snapshot_build load cfg =
     try_bind (load_sessions load (ml_model_path cfg) (ml_pool_size cfg)) (\<lambda>sessions.
       Inr \<lparr>ms_sessions = sessions, ms_next = 0, ms_input_name = ml_input_tensor_name cfg,
            ms_output_name = ml_output_tensor_name cfg\<rparr>)"

definition snapshot_pick :: "model_snapshot \<Rightarrow> onnx_session \<times> model_snapshot" where
  "snapshot_pick snap =
     (ms_sessions snap ! (ms_next snap mod length (ms_sessions snap)), snap\<lparr>ms_next := u64_add (ms_next snap) 1\<rparr>)"

text \<open>
  One event of the model file: a rebuild that fails keeps the previous snapshot.
\<close>

definition hot_reload :: "(string \<Rightarrow> onnx_session anyhow) \<Rightarrow> ml_scorer_config \<Rightarrow> nat \<Rightarrow> models \<Rightarrow> models" where
  "hot_reload load cfg slot ms =
     (case snapshot_build load cfg of Inr new \<Rightarrow> ms[slot := new] | Inl e \<Rightarrow> ms)"

section \<open>Inference\<close>

definition div_ceil :: "nat \<Rightarrow> nat \<Rightarrow> nat" where
  "div_ceil n d = (n + d - 1) div d"

definition feature_row :: "(flt \<Rightarrow> flt) \<Rightarrow> scoring_context \<Rightarrow> ad_candidate \<Rightarrow> flt list" where
  "feature_row ln32 ctx c = pack_into (extract_features ln32 c ctx) (replicate FEATURE_COUNT f32_0)"

definition padded_input :: "(flt \<Rightarrow> flt) \<Rightarrow> ml_scorer_config \<Rightarrow> scoring_context \<Rightarrow> ad_candidate list \<Rightarrow> flt list list" where
  "padded_input ln32 cfg ctx cs =
     (let padded_n = div_ceil (length cs) (ml_batch_pad_to cfg) * ml_batch_pad_to cfg
      in map (feature_row ln32 ctx) cs @ replicate (padded_n - length cs) (replicate FEATURE_COUNT f32_0))"

definition set_scores :: "ad_candidate list \<Rightarrow> flt list \<Rightarrow> ad_candidate list" where
  "set_scores cs xs = map (\<lambda>(c, x). c\<lparr>cand_score := x\<rparr>) (zip cs xs)"

definition read_output :: "model_snapshot \<Rightarrow> nat \<Rightarrow> (string \<rightharpoonup> flt list anyhow) \<Rightarrow> flt list anyhow" where
  "read_output snap n outputs =
     (case outputs (ms_output_name snap) of
        None \<Rightarrow> Inl (''missing output tensor '' @ ms_output_name snap)
      | Some tensor \<Rightarrow> try_bind tensor (\<lambda>data.
          if int (length data) < int n
          then Inl (''ONNX output has '' @ nat_str (length data) @ '' elements but expected at least '' @ nat_str n)
          else Inr data))"

definition score_batch ::
  "(flt \<Rightarrow> flt) \<Rightarrow> ml_scorer_config \<Rightarrow> nat \<Rightarrow> scoring_context \<Rightarrow> ad_candidate list \<Rightarrow> models
   \<Rightarrow> ad_candidate list anyhow \<times> models" where
  "score_batch ln32 cfg slot ctx cs ms =
     (if cs = [] then (Inr [], ms)
      else
       (let (session, snap) = snapshot_pick (ms ! slot); ms1 = ms[slot := snap]
        in (try_bind (session (ms_input_name snap) (padded_input ln32 cfg ctx cs)) (\<lambda>outputs.
              try_bind (read_output snap (length cs) outputs) (\<lambda>data. Inr (set_scores cs data))), ms1)))"

definition reset_scores :: "ad_candidate list \<Rightarrow> ad_candidate list" where
  "reset_scores cs = map (\<lambda>c. c\<lparr>cand_score := f32_0\<rparr>) cs"

definition ml_recover :: "models scorer_ops option \<Rightarrow> scoring_context \<Rightarrow> ad_candidate list \<Rightarrow> models \<Rightarrow> ad_candidate list \<times> models" where
  "ml_recover fallback ctx cs ms =
     (case fallback of
        Some fb \<Rightarrow> sc_score_all fb ctx (reset_scores cs) ms
      | None \<Rightarrow> (reset_scores cs, ms))"

partial_function (option) ml_loop ::
  "(flt \<Rightarrow> flt) \<Rightarrow> ml_scorer_config \<Rightarrow> nat \<Rightarrow> models scorer_ops option \<Rightarrow> scoring_context \<Rightarrow> nat
   \<Rightarrow> ad_candidate list \<Rightarrow> models \<Rightarrow> (ad_candidate list \<times> models) option" where
  "ml_loop ln32 cfg slot fallback ctx start cs ms =
     (if start < length cs
      then
       (let stop = min (start + ml_max_batch cfg) (length cs) in
        case score_batch ln32 cfg slot ctx (take (stop - start) (drop start cs)) ms of
          (Inl e, ms1) \<Rightarrow> Some (ml_recover fallback ctx cs ms1)
        | (Inr chunk, ms1) \<Rightarrow>
            ml_loop ln32 cfg slot fallback ctx stop (take start cs @ chunk @ drop stop cs) ms1)
      else Some (cs, ms))"

text \<open>The scorer; the second case is the loop that never ends.\<close>

definition ml_scorer ::
  "(flt \<Rightarrow> flt) \<Rightarrow> ml_scorer_config \<Rightarrow> nat \<Rightarrow> models scorer_ops option \<Rightarrow> models scorer_ops" where
  "ml_scorer ln32 cfg slot fallback =
     \<lparr>sc_score_all = (\<lambda>ctx cs ms.
        case ml_loop ln32 cfg slot fallback ctx 0 cs ms of Some r \<Rightarrow> r | None \<Rightarrow> (cs, ms))\<rparr>"

section \<open>The parity check\<close>

record parity_pair =
  pp_input :: "flt list"
  pp_expected_score :: flt

fun flt_neg :: "flt \<Rightarrow> flt" where
  "flt_neg NaN = NaN"
| "flt_neg PosInf = NegInf"
| "flt_neg NegInf = PosInf"
| "flt_neg (Num m e) = Num (- m) e"

definition flt_abs :: "flt \<Rightarrow> flt" where
  "flt_abs x = (if flt_lt x f32_0 then flt_neg x else x)"

definition parity_line ::
  "(string \<Rightarrow> parity_pair anyhow) \<Rightarrow> model_snapshot \<Rightarrow> nat \<Rightarrow> string \<Rightarrow> unit anyhow" where
  "parity_line parse snap line_no trimmed =
     try_bind (parse trimmed) (\<lambda>pair.
       if length (pp_input pair) \<noteq> FEATURE_COUNT
       then Inl (''parity line '' @ nat_str (line_no + 1) @ '': input has '' @ nat_str (length (pp_input pair))
                 @ '' features, expected '' @ nat_str FEATURE_COUNT)
       else
         try_bind ((ms_sessions snap ! 0) (ms_input_name snap) [pp_input pair]) (\<lambda>outputs.
         try_bind (case outputs (ms_output_name snap) of
                     None \<Rightarrow> Inl (''missing output tensor '' @ ms_output_name snap)
                   | Some tensor \<Rightarrow> tensor) (\<lambda>data.
         case data of
           [] \<Rightarrow> Inl ''empty output''
         | computed # _ \<Rightarrow>
             (if flt_gt (flt_abs (flt_add binary32 computed (flt_neg (pp_expected_score pair)))) (flt_lit binary32 1 10000)
              then Inl (''parity drift on line '' @ nat_str (line_no + 1))
              else Inr ()))))"

definition str_trim :: "string \<Rightarrow> string" where
  "str_trim s = (let ws = (\<lambda>c. c \<in> set [CHR '' '', CHR 0x09, CHR 0x0A, CHR 0x0B, CHR 0x0C, CHR 0x0D])
                 in rev (dropWhile ws (rev (dropWhile ws s))))"

fun parity_lines ::
  "(string \<Rightarrow> parity_pair anyhow) \<Rightarrow> model_snapshot \<Rightarrow> nat \<Rightarrow> string list \<Rightarrow> nat \<Rightarrow> nat anyhow" where
  "parity_lines parse snap line_no [] cnt = Inr cnt"
| "parity_lines parse snap line_no (line # lines) cnt =
     (if str_trim line = [] then parity_lines parse snap (line_no + 1) lines cnt
      else try_bind (parity_line parse snap line_no (str_trim line)) (\<lambda>_.
             parity_lines parse snap (line_no + 1) lines (cnt + 1)))"

definition verify_parity ::
  "(string \<Rightarrow> parity_pair anyhow) \<Rightarrow> (string \<Rightarrow> string list anyhow) \<Rightarrow> string \<Rightarrow> model_snapshot \<Rightarrow> unit anyhow" where
  "verify_parity parse read_lines parity_path snap =
     try_bind (read_lines parity_path) (\<lambda>lines.
     try_bind (parity_lines parse snap 0 lines 0) (\<lambda>cnt.
       if cnt = 0 then Inl (''parity file '' @ parity_path @ '' contained zero records'') else Inr ()))"

text \<open>What the constructor needs from outside: the ONNX runtime, the JSON parser and the file system.\<close>

record ml_env =
  me_load :: "string \<Rightarrow> onnx_session anyhow"
  me_parse :: "string \<Rightarrow> parity_pair anyhow"
  me_read_lines :: "string \<Rightarrow> string list anyhow"
  me_ln :: "flt \<Rightarrow> flt"

definition ml_new_with_fallback ::
  "ml_env \<Rightarrow> ml_scorer_config \<Rightarrow> models scorer_ops option \<Rightarrow> models \<Rightarrow> models scorer_ops anyhow \<times> models" where
  "ml_new_with_fallback env cfg fallback ms =
     (case try_bind (ml_validate cfg) (\<lambda>_. snapshot_build (me_load env) cfg) of
        Inl e \<Rightarrow> (Inl e, ms)
      | Inr snap \<Rightarrow>
          (case (case ml_parity_path cfg of
                   None \<Rightarrow> Inr ()
                 | Some path \<Rightarrow> verify_parity (me_parse env) (me_read_lines env) path snap) of
             Inl e \<Rightarrow> (Inl e, ms)
           | Inr _ \<Rightarrow> (Inr (ml_scorer (me_ln env) cfg (length ms) fallback), ms @ [snap])))"

section \<open>The loop is all or nothing\<close>

text \<open>The reference: score the batches one after the other, stop at the first failure.\<close>

function chunks :: "nat \<Rightarrow> 'a list \<Rightarrow> 'a list list" where
  "chunks n xs = (if xs = [] \<or> n = 0 then [] else take n xs # chunks n (drop n xs))"
  by pat_completeness auto
termination by (relation "measure (\<lambda>(n, xs). length xs)") auto

declare chunks.simps [simp del]

fun score_chunks ::
  "(flt \<Rightarrow> flt) \<Rightarrow> ml_scorer_config \<Rightarrow> nat \<Rightarrow> scoring_context \<Rightarrow> ad_candidate list list \<Rightarrow> models
   \<Rightarrow> ad_candidate list anyhow \<times> models" where
  "score_chunks ln32 cfg slot ctx [] ms = (Inr [], ms)"
| "score_chunks ln32 cfg slot ctx (b # bs) ms =
     (case score_batch ln32 cfg slot ctx b ms of
        (Inl e, ms1) \<Rightarrow> (Inl e, ms1)
      | (Inr b', ms1) \<Rightarrow>
          (case score_chunks ln32 cfg slot ctx bs ms1 of
             (Inl e, ms2) \<Rightarrow> (Inl e, ms2)
           | (Inr rest, ms2) \<Rightarrow> (Inr (b' @ rest), ms2)))"

definition ml_reference ::
  "(flt \<Rightarrow> flt) \<Rightarrow> ml_scorer_config \<Rightarrow> nat \<Rightarrow> models scorer_ops option \<Rightarrow> scoring_context
   \<Rightarrow> ad_candidate list \<Rightarrow> models \<Rightarrow> ad_candidate list \<times> models" where
  "ml_reference ln32 cfg slot fallback ctx cs ms =
     (case score_chunks ln32 cfg slot ctx (chunks (ml_max_batch cfg) cs) ms of
        (Inr cs', ms') \<Rightarrow> (cs', ms')
      | (Inl e, ms') \<Rightarrow> ml_recover fallback ctx cs ms')"

lemma set_scores_unscored: "length cs \<le> length xs \<Longrightarrow> map unscored (set_scores cs xs) = map unscored cs"
  by (induction cs xs rule: list_induct2') (auto simp: set_scores_def)

lemma score_batch_keeps:
  "score_batch ln32 cfg slot ctx cs ms = (Inr cs', ms') \<Longrightarrow> map unscored cs' = map unscored cs"
  by (auto simp: score_batch_def read_output_def try_bind_Inr_iff set_scores_unscored
      split: if_splits prod.splits option.splits)

lemma reset_scores_cong: "map unscored cs = map unscored cs' \<Longrightarrow> reset_scores cs = reset_scores cs'"
proof -
  assume "map unscored cs = map unscored cs'"
  moreover have "reset_scores ds = map (\<lambda>c. c\<lparr>cand_score := f32_0\<rparr>) (map unscored ds)" for ds
    by (simp add: reset_scores_def unscored_def)
  ultimately show ?thesis by (simp only:)
qed

lemma ml_recover_cong: "map unscored cs = map unscored cs' \<Longrightarrow> ml_recover fb ctx cs ms = ml_recover fb ctx cs' ms"
  unfolding ml_recover_def by (drule reset_scores_cong) (simp only:)

text \<open>One turn of the loop, when \<open>pre\<close> has been scored and \<open>cs\<close> is left.\<close>

lemma ml_loop_turn:
  assumes "cs \<noteq> []" and batch: "score_batch ln32 cfg slot ctx (take (ml_max_batch cfg) cs) ms = (r, ms1)"
  shows "ml_loop ln32 cfg slot fb ctx (length pre) (pre @ cs) ms =
    (case r of Inl e \<Rightarrow> Some (ml_recover fb ctx (pre @ cs) ms1)
     | Inr b \<Rightarrow> ml_loop ln32 cfg slot fb ctx (length pre + length (take (ml_max_batch cfg) cs))
                 (pre @ b @ drop (ml_max_batch cfg) cs) ms1)"
proof -
  let ?n = "ml_max_batch cfg"
  have stop: "min (length pre + ?n) (length (pre @ cs)) = length pre + length (take ?n cs)" by simp
  have chunk: "take (length pre + length (take ?n cs) - length pre) (drop (length pre) (pre @ cs)) = take ?n cs"
    by (simp add: min_def)
  have rest: "drop (length pre + length (take ?n cs)) (pre @ cs) = drop ?n cs" by (simp add: min_def)
  show ?thesis
    using assms unfolding ml_loop.simps [of ln32 cfg slot fb ctx "length pre"] stop Let_def chunk rest
    by (cases r) simp_all
qed

lemma ml_loop_from:
  assumes "0 < ml_max_batch cfg"
  shows "ml_loop ln32 cfg slot fb ctx (length pre) (pre @ cs) ms =
    Some (case score_chunks ln32 cfg slot ctx (chunks (ml_max_batch cfg) cs) ms of
        (Inr cs', ms') \<Rightarrow> (pre @ cs', ms')
      | (Inl e, ms') \<Rightarrow> ml_recover fb ctx (pre @ cs) ms')"
proof (induction "length cs" arbitrary: pre cs ms rule: less_induct)
  case less
  let ?n = "ml_max_batch cfg"
  show ?case
  proof (cases "cs = []")
    case True
    then show ?thesis by (simp add: ml_loop.simps chunks.simps)
  next
    case False
    obtain r ms1 where batch: "score_batch ln32 cfg slot ctx (take ?n cs) ms = (r, ms1)"
      by (cases "score_batch ln32 cfg slot ctx (take ?n cs) ms")
    note step = ml_loop_turn [OF False batch, of fb pre]
    have bs: "chunks ?n cs = take ?n cs # chunks ?n (drop ?n cs)"
      using False assms by (simp add: chunks.simps [of ?n cs])
    show ?thesis
    proof (cases r)
      case (Inl e)
      then show ?thesis using step batch bs by simp
    next
      case (Inr b)
      have keep: "map unscored b = map unscored (take ?n cs)" using batch Inr score_batch_keeps by blast
      then have len: "length b = length (take ?n cs)" by (rule map_eq_imp_length_eq)
      have "map unscored (pre @ b @ drop ?n cs) = map unscored (pre @ cs)"
        using keep by (metis append_take_drop_id map_append)
      note recover = ml_recover_cong [OF this]
      have "ml_loop ln32 cfg slot fb ctx (length (pre @ b)) ((pre @ b) @ drop ?n cs) ms1 =
          Some (case score_chunks ln32 cfg slot ctx (chunks ?n (drop ?n cs)) ms1 of
              (Inr cs', ms') \<Rightarrow> ((pre @ b) @ cs', ms')
            | (Inl e, ms') \<Rightarrow> ml_recover fb ctx ((pre @ b) @ drop ?n cs) ms')"
        using False assms by (intro less) simp
      then show ?thesis
        using step batch bs Inr len recover by (auto split: sum.splits prod.splits)
    qed
  qed
qed

lemma ml_loop_returns:
  "0 < ml_max_batch cfg \<Longrightarrow> ml_loop ln32 cfg slot fb ctx 0 cs ms = Some (ml_reference ln32 cfg slot fb ctx cs ms)"
  using ml_loop_from [of cfg ln32 slot fb ctx "[]" cs ms] by (simp add: ml_reference_def split: prod.splits sum.splits)

text \<open>A scorer that falls back on another one keeps the candidates when that one does.\<close>

locale ml_fallback = fb: scorer fb for fb :: "models scorer_ops"
begin

lemma recover_keeps: "map unscored (fst (ml_recover (Some fb) ctx cs ms)) = map unscored cs"
  using fb.keeps [of ctx "reset_scores cs" ms]
  by (cases "sc_score_all fb ctx (reset_scores cs) ms") (simp add: ml_recover_def reset_scores_def)

lemma loop_keeps:
  assumes "ml_loop ln32 cfg slot (Some fb) ctx start cs ms = Some r"
  shows "map unscored (fst r) = map unscored cs"
proof -
  have "Some fb = Some fb \<longrightarrow> map unscored (fst r) = map unscored cs"
  proof (rule ml_loop.raw_induct [where P = "\<lambda>ln32 cfg slot fallback ctx start cs ms r.
      fallback = Some fb \<longrightarrow> map unscored (fst r) = map unscored cs", OF _ assms], goal_cases)
    case (1 loop ln32 cfg slot fallback ctx start cs ms r)
    define stop where "stop = min (start + ml_max_batch cfg) (length cs)"
    obtain b ms1 where batch: "score_batch ln32 cfg slot ctx (take (stop - start) (drop start cs)) ms = (b, ms1)"
      by (cases "score_batch ln32 cfg slot ctx (take (stop - start) (drop start cs)) ms")
    show ?case
    proof (cases "start < length cs")
      case False
      then show ?thesis using 1(2) by auto
    next
      case True
      then have split: "take start cs @ take (stop - start) (drop start cs) @ drop stop cs = cs"
        by (metis append_take_drop_id drop_drop le_add_diff_inverse2 min.bounded_iff less_imp_le le_add1 stop_def)
      show ?thesis
      proof (cases b)
        case (Inl e)
        then show ?thesis using 1(2) True batch recover_keeps by (auto simp: stop_def [symmetric])
      next
        case (Inr c)
        then have "map unscored (take start cs @ c @ drop stop cs) = map unscored cs"
          using score_batch_keeps batch split by (metis map_append)
        then show ?thesis
          using 1(1) [of ln32 cfg slot fallback ctx stop "take start cs @ c @ drop stop cs" ms1 r] 1(2) True batch Inr
          by (simp add: stop_def [symmetric])
      qed
    qed
  qed
  then show ?thesis by blast
qed

end

sublocale ml_fallback \<subseteq> with_ml: scorer "ml_scorer ln32 cfg slot (Some fb)" for ln32 cfg slot
  by unfold_locales (auto simp: ml_scorer_def dest!: loop_keeps split: option.splits)

interpretation ml_fw: ml_fallback "feature_weighted_scorer fw_default"
  by unfold_locales

lemma ml_loop_stuck:
  assumes "ml_max_batch cfg = 0" "start < length cs"
  shows "ml_loop ln32 cfg slot fb ctx start cs ms = None"
proof (rule ccontr)
  assume "\<not> ?thesis"
  then obtain r where run: "ml_loop ln32 cfg slot fb ctx start cs ms = Some r" by auto
  have "ml_max_batch cfg = 0 \<longrightarrow> \<not> start < length cs"
  proof (rule ml_loop.raw_induct [where P = "\<lambda>ln32 cfg slot fallback ctx start cs ms r.
      ml_max_batch cfg = 0 \<longrightarrow> \<not> start < length cs", OF _ run], goal_cases)
    case (1 loop ln32 cfg slot fallback ctx start cs ms r)
    show ?case
    proof (intro impI notI)
      assume "ml_max_batch cfg = 0" "start < length cs"
      then show False
        using 1(1) [of ln32 cfg slot fallback ctx start cs ms r] 1(2) by (simp add: score_batch_def min_def)
    qed
  qed
  then show False using assms by blast
qed

text \<open>
  C35. On a non-empty batch the scoring loop ends exactly when the configured batch size is positive;
  a configuration that passes validation is of that kind.
\<close>

theorem ml_loop_terminates_iff:
  "(cs \<noteq> [] \<longrightarrow> (ml_loop ln32 cfg slot fb ctx 0 cs ms \<noteq> None \<longleftrightarrow> 0 < ml_max_batch cfg)) \<and>
   (ml_validate cfg = Inr () \<longrightarrow> 0 < ml_max_batch cfg)"
  using ml_loop_stuck [of cfg 0 cs] ml_loop_returns [of cfg] by (auto simp: ml_validate_def split: if_splits)

text \<open>
  What the model says of the \<open>j\<close>-th batch: the scores in the output tensor of the session whose turn
  it is, one per candidate; none if the session fails, the tensor is missing or of the wrong type,
  or has too few values.
\<close>

definition batch_answer ::
  "(flt \<Rightarrow> flt) \<Rightarrow> ml_scorer_config \<Rightarrow> scoring_context \<Rightarrow> model_snapshot \<Rightarrow> nat \<Rightarrow> ad_candidate list \<Rightarrow> flt list option" where
  "batch_answer ln32 cfg ctx snap j b =
     (case (ms_sessions snap ! ((ms_next snap + j) mod 2 ^ 64 mod length (ms_sessions snap)))
             (ms_input_name snap) (padded_input ln32 cfg ctx b) of
        Inl e \<Rightarrow> None
      | Inr outputs \<Rightarrow>
          (case outputs (ms_output_name snap) of
             Some (Inr data) \<Rightarrow> if length b \<le> length data then Some (take (length b) data) else None
           | _ \<Rightarrow> None))"

lemma set_scores_parts:
  assumes "length cs \<le> length data"
  shows "map cand_score (set_scores cs data) = take (length cs) data"
  using assms by (induction cs data rule: list_induct2') (auto simp: set_scores_def)

lemma score_batch_answer:
  assumes "b \<noteq> []" "slot < length ms" "score_batch ln32 cfg slot ctx b ms = (r, ms1)" "ms_next (ms ! slot) < 2 ^ 64"
  shows "ms1 = ms[slot := (ms ! slot)\<lparr>ms_next := u64_add (ms_next (ms ! slot)) 1\<rparr>]"
    and "case batch_answer ln32 cfg ctx (ms ! slot) 0 b of
           None \<Rightarrow> \<exists>e. r = Inl e
         | Some xs \<Rightarrow> \<exists>b'. r = Inr b' \<and> map unscored b' = map unscored b \<and> map cand_score b' = xs"
  using assms set_scores_parts [of b] set_scores_unscored [of b]
  by (auto simp: score_batch_def snapshot_pick_def batch_answer_def read_output_def try_bind_def Let_def split: sum.splits option.splits)

lemma batch_answer_next:
  "batch_answer ln32 cfg ctx (snap\<lparr>ms_next := u64_add (ms_next snap) 1\<rparr>) j b = batch_answer ln32 cfg ctx snap (Suc j) b"
  by (simp add: batch_answer_def u64_add_def mod_add_left_eq cong: sum.case_cong option.case_cong)

lemma score_chunks_answers:
  assumes "\<forall>b \<in> set bs. b \<noteq> []" "slot < length ms" "ms_next (ms ! slot) < 2 ^ 64" "score_chunks ln32 cfg slot ctx bs ms = (r, ms')"
  shows "let answers = map (\<lambda>j. batch_answer ln32 cfg ctx (ms ! slot) j (bs ! j)) [0..<length bs] in
    if None \<in> set answers then \<exists>e. r = Inl e
    else \<exists>cs'. r = Inr cs' \<and> map unscored cs' = map unscored (concat bs) \<and> map cand_score cs' = concat (map the answers)"
  using assms
proof (induction bs arbitrary: ms r ms')
  case (Cons b bs)
  let ?snap = "ms ! slot"
  let ?rest = "map (\<lambda>j. batch_answer ln32 cfg ctx ?snap (Suc j) (bs ! j)) [0..<length bs]"
  obtain rb ms1 where batch: "score_batch ln32 cfg slot ctx b ms = (rb, ms1)" by (cases "score_batch ln32 cfg slot ctx b ms")
  have answers: "map (\<lambda>j. batch_answer ln32 cfg ctx ?snap j ((b # bs) ! j)) [0..<length (b # bs)]
      = batch_answer ln32 cfg ctx ?snap 0 b # ?rest"
    by (simp add: upt_conv_Cons map_Suc_upt [symmetric] comp_def del: upt_Suc)
  have b: "b \<noteq> []" using Cons.prems(1) by simp
  note one = score_batch_answer [OF b Cons.prems(2) batch Cons.prems(3)]
  have snap1: "ms1 ! slot = ?snap\<lparr>ms_next := u64_add (ms_next ?snap) 1\<rparr>" using one(1) Cons.prems(2) by simp
  obtain r2 ms2 where more: "score_chunks ln32 cfg slot ctx bs ms1 = (r2, ms2)" by (cases "score_chunks ln32 cfg slot ctx bs ms1")
  have "let answers = ?rest in if None \<in> set answers then \<exists>e. r2 = Inl e
    else \<exists>cs'. r2 = Inr cs' \<and> map unscored cs' = map unscored (concat bs) \<and> map cand_score cs' = concat (map the answers)"
    using Cons.IH [OF _ _ _ more] Cons.prems(1,2) one(1) unfolding snap1 batch_answer_next by (simp add: u64_add_def)
  then show ?case
    using one(2) Cons.prems(4) batch more unfolding answers Let_def by (auto split: option.splits sum.splits if_splits)
qed simp

lemma concat_chunks: "0 < n \<Longrightarrow> concat (chunks n xs) = xs"
proof (induction n xs rule: chunks.induct)
  case (1 n xs)
  then show ?case by (cases "xs = []") (simp_all add: chunks.simps [of n])
qed

lemma chunks_bounds: "0 < n \<Longrightarrow> b \<in> set (chunks n xs) \<Longrightarrow> b \<noteq> [] \<and> length b \<le> n"
proof (induction n xs rule: chunks.induct)
  case (1 n xs)
  then show ?case by (auto simp: chunks.simps [of n xs] split: if_splits)
qed

text \<open>
  C37. A scorer with a valid configuration scores all or nothing. The candidates go to the model in
  batches of at most the configured size, to one session of the pool after the other. If the model
  answers for every batch, every candidate has the score the model gave it and is otherwise unchanged.
  If it fails on any batch, whatever batches had already been scored, the result is that of the
  fallback on all candidates with score zero, or, without a fallback, all candidates with score zero.
\<close>

theorem ml_all_or_nothing:
  assumes "ml_validate cfg = Inr ()" "slot < length ms" "ms_next (ms ! slot) < 2 ^ 64"
    and "sc_score_all (ml_scorer ln32 cfg slot fb) ctx cs ms = (cs', ms')"
  shows "let batches = chunks (ml_max_batch cfg) cs;
             answers = map (\<lambda>j. batch_answer ln32 cfg ctx (ms ! slot) j (batches ! j)) [0..<length batches];
             zeroed = map (\<lambda>c. c\<lparr>cand_score := Num 0 0\<rparr>) cs
         in concat batches = cs \<and> (\<forall>b \<in> set batches. length b \<le> ml_max_batch cfg) \<and>
            (if None \<notin> set answers then map unscored cs' = map unscored cs \<and> map cand_score cs' = concat (map the answers)
             else (case fb of None \<Rightarrow> cs' = zeroed | Some f \<Rightarrow> \<exists>ms1. sc_score_all f ctx zeroed ms1 = (cs', ms')))"
proof -
  have n: "0 < ml_max_batch cfg" using assms(1) by (simp add: ml_validate_def split: if_splits)
  have zero: "reset_scores cs = map (\<lambda>c. c\<lparr>cand_score := Num 0 0\<rparr>) cs" by (simp add: reset_scores_def flt_lit_def rnd_def)
  obtain r ms2 where chunked: "score_chunks ln32 cfg slot ctx (chunks (ml_max_batch cfg) cs) ms = (r, ms2)"
    by (cases "score_chunks ln32 cfg slot ctx (chunks (ml_max_batch cfg) cs) ms")
  have "(cs', ms') = ml_reference ln32 cfg slot fb ctx cs ms" using assms(4) n by (simp add: ml_scorer_def ml_loop_returns)
  then show ?thesis
    using score_chunks_answers [OF _ assms(2,3) chunked] chunks_bounds [OF n, of _ cs] concat_chunks [OF n, of cs] chunked zero
    by (auto simp: ml_reference_def ml_recover_def Let_def split: if_splits option.splits sum.splits)
qed

definition ex_ml_config :: "nat \<Rightarrow> ml_scorer_config" where
  "ex_ml_config n = \<lparr>ml_model_path = ''m.onnx'', ml_parity_path = Some ''p.jsonl'', ml_input_tensor_name = ''features'',
     ml_output_tensor_name = ''pctr'', ml_pool_size = 1, ml_max_batch = n, ml_batch_pad_to = 1\<rparr>"

text \<open>A session that fails on batches of one row.\<close>

definition ex_session :: onnx_session where
  "ex_session name rows =
     (if length rows = 1 then Inl ''shape'' else Inr [''pctr'' \<mapsto> Inr (replicate (length rows) (Num 1 (- 1)))])"

definition ex_models :: models where
  "ex_models = [\<lparr>ms_sessions = [ex_session], ms_next = 0, ms_input_name = ''features'', ms_output_name = ''pctr''\<rparr>]"

definition ex_scoring_context :: scoring_context where
  "ex_scoring_context = \<lparr>sx_segment_ids = [], sx_device_type = None, sx_ad_format = None, sx_hour_of_day = 12,
     sx_is_weekend = False, sx_user_id = ''u'', sx_is_top_market = False\<rparr>"

definition ex_candidates :: "nat \<Rightarrow> ad_candidate list" where
  "ex_candidates n = map (\<lambda>i. \<lparr>cand_campaign_id = of_nat i, cand_creative_id = 1, cand_bid_price_cents = 100,
     cand_score = Num 0 0, cand_daily_cap_imps = 5, cand_hourly_cap_imps = 5\<rparr>) [0..<n]"

theorem ml_loop_terminates_iff_witness:
  "ml_loop id (ex_ml_config 0) 0 None ex_scoring_context 0 (ex_candidates 2) ex_models = None \<and>
   ml_loop id (ex_ml_config 2) 0 None ex_scoring_context 0 (ex_candidates 2) ex_models \<noteq> None"
proof -
  have "ex_candidates 2 \<noteq> []" by (simp add: ex_candidates_def)
  moreover have "ml_max_batch (ex_ml_config n) = n" for n by (simp add: ex_ml_config_def)
  ultimately show ?thesis
    using ml_loop_terminates_iff [of "ex_candidates 2" id "ex_ml_config 0" 0 None ex_scoring_context ex_models]
      ml_loop_terminates_iff [of "ex_candidates 2" id "ex_ml_config 2" 0 None ex_scoring_context ex_models]
    by (metis less_numeral_extra(3) zero_less_numeral)
qed

text \<open>Three candidates in batches of two: the second batch fails, and without a fallback all three have score zero.\<close>

theorem ml_all_or_nothing_witness:
  "fst (sc_score_all (ml_scorer id (ex_ml_config 2) 0 None) ex_scoring_context (ex_candidates 3) ex_models)
   = map (\<lambda>c. c\<lparr>cand_score := Num 0 0\<rparr>) (ex_candidates 3)"
proof -
  have valid: "ml_validate (ex_ml_config 2) = Inr ()" by (simp add: ml_validate_def ex_ml_config_def)
  have models: "0 < length ex_models" "ms_next (ex_models ! 0) < 2 ^ 64" by (simp_all add: ex_models_def)
  obtain cs' ms' where run: "sc_score_all (ml_scorer id (ex_ml_config 2) 0 None) ex_scoring_context (ex_candidates 3) ex_models = (cs', ms')"
    by (cases "sc_score_all (ml_scorer id (ex_ml_config 2) 0 None) ex_scoring_context (ex_candidates 3) ex_models")
  have "length (ex_candidates 3) = 3" "ml_max_batch (ex_ml_config 2) = 2" by (simp_all add: ex_candidates_def ex_ml_config_def)
  then have batches: "chunks (ml_max_batch (ex_ml_config 2)) (ex_candidates 3) = [take 2 (ex_candidates 3), drop 2 (ex_candidates 3)]"
    by (auto simp: chunks.simps [of _ "drop _ _"] chunks.simps [of _ "ex_candidates 3"] chunks.simps [of _ "[]"])
  have "batch_answer id (ex_ml_config 2) ex_scoring_context (ex_models ! 0) 1 (drop 2 (ex_candidates 3)) = None"
    by (simp add: batch_answer_def ex_models_def ex_session_def padded_input_def div_ceil_def ex_ml_config_def ex_candidates_def)
  then have "cs' = map (\<lambda>c. c\<lparr>cand_score := Num 0 0\<rparr>) (ex_candidates 3)"
    using ml_all_or_nothing [OF valid models run] unfolding batches Let_def by (simp add: upt_rec split: if_splits)
  then show ?thesis using run by simp
qed

section \<open>NaN outputs\<close>

text \<open>A model that answers every row with NaN.\<close>

definition nan_session :: "string \<Rightarrow> onnx_session" where
  "nan_session out name rows = Inr [out \<mapsto> Inr (replicate (length rows) NaN)]"

lemma nan_parity_line:
  assumes "ms_sessions snap \<noteq> []" "set (ms_sessions snap) = {nan_session (ms_output_name snap)}"
    and "parse l = Inr pair" "length (pp_input pair) = FEATURE_COUNT"
  shows "parity_line parse snap k l = Inr ()"
proof -
  have "ms_sessions snap ! 0 = nan_session (ms_output_name snap)"
    using assms(1,2) nth_mem [of 0 "ms_sessions snap"] by auto
  then show ?thesis
    using assms(3,4) by (simp add: parity_line_def nan_session_def flt_abs_def flt_lt_def flt_gt_def)
qed

lemma nan_parity_lines:
  assumes "ms_sessions snap \<noteq> []" "set (ms_sessions snap) = {nan_session (ms_output_name snap)}"
    and "\<And>l. l \<in> set lines \<Longrightarrow> str_trim l \<noteq> [] \<Longrightarrow> \<exists>pair. parse (str_trim l) = Inr pair \<and> length (pp_input pair) = FEATURE_COUNT"
  shows "parity_lines parse snap k lines n = Inr (n + length (filter (\<lambda>l. str_trim l \<noteq> []) lines))"
  using assms(3)
proof (induction lines arbitrary: k n)
  case (Cons l lines)
  have rest: "parity_lines parse snap k lines n = Inr (n + length (filter (\<lambda>l. str_trim l \<noteq> []) lines))" for k n
    using Cons.prems by (intro Cons.IH) simp_all
  show ?case
  proof (cases "str_trim l = []")
    case False
    then obtain pair where "parse (str_trim l) = Inr pair" "length (pp_input pair) = FEATURE_COUNT"
      using Cons.prems [of l] by auto
    then show ?thesis using False rest nan_parity_line [OF assms(1,2)] by simp
  qed (simp add: rest)
qed simp

lemma load_sessions_nan: "load_sessions (\<lambda>_. Inr x) path n = Inr (replicate n x)"
  by (induction n) simp_all

lemma set_scores_nan: "map cand_score (set_scores cs (replicate k x)) = replicate (min (length cs) k) x"
proof (induction cs arbitrary: k)
  case (Cons c cs)
  then show ?case by (cases k) (simp_all add: set_scores_def)
qed (simp add: set_scores_def)

definition nan_snapshot :: "model_snapshot \<Rightarrow> bool" where
  "nan_snapshot snap \<longleftrightarrow> ms_sessions snap \<noteq> [] \<and> set (ms_sessions snap) = {nan_session (ms_output_name snap)}"

lemma nan_score_batch:
  assumes "nan_snapshot (ms ! slot)" "slot < length ms" "0 < ml_batch_pad_to cfg"
  shows "\<exists>cs' ms'. score_batch ln32 cfg slot ctx cs ms = (Inr cs', ms') \<and> map cand_score cs' = replicate (length cs) NaN \<and>
    nan_snapshot (ms' ! slot) \<and> slot < length ms'"
proof (cases "cs = []")
  case False
  let ?snap = "ms ! slot"
  let ?session = "ms_sessions ?snap ! (ms_next ?snap mod length (ms_sessions ?snap))"
  have "ms_next ?snap mod length (ms_sessions ?snap) < length (ms_sessions ?snap)"
    using assms(1) by (simp add: nan_snapshot_def)
  then have "?session \<in> set (ms_sessions ?snap)" by (rule nth_mem)
  then have nan: "?session = nan_session (ms_output_name ?snap)" using assms(1) unfolding nan_snapshot_def by blast
  have "length (padded_input ln32 cfg ctx cs) \<ge> length cs" by (simp add: padded_input_def Let_def)
  then show ?thesis
    using False assms nan
    by (auto simp: score_batch_def snapshot_pick_def Let_def read_output_def nan_session_def set_scores_nan nan_snapshot_def)
qed (use assms in \<open>simp add: score_batch_def\<close>)

lemma nan_score_chunks:
  assumes "nan_snapshot (ms ! slot)" "slot < length ms" "0 < ml_batch_pad_to cfg"
  shows "\<exists>cs' ms'. score_chunks ln32 cfg slot ctx bs ms = (Inr cs', ms') \<and> map cand_score cs' = replicate (length (concat bs)) NaN"
  using assms(1,2)
proof (induction bs arbitrary: ms)
  case (Cons b bs)
  obtain b' ms1 where b: "score_batch ln32 cfg slot ctx b ms = (Inr b', ms1)" "map cand_score b' = replicate (length b) NaN"
      "nan_snapshot (ms1 ! slot)" "slot < length ms1"
    using nan_score_batch [OF Cons.prems assms(3)] by blast
  obtain cs' ms' where "score_chunks ln32 cfg slot ctx bs ms1 = (Inr cs', ms')" "map cand_score cs' = replicate (length (concat bs)) NaN"
    using Cons.IH [OF b(3,4)] by blast
  then show ?case using b by (simp add: replicate_add)
qed simp

text \<open>
  A NaN is not a failure for the ML scorer. A model that answers NaN for every row passes the
  parity check whatever scores the parity file expects, so the scorer is constructed; and scoring
  with it leaves NaN on every candidate without calling the fallback.
\<close>

theorem ml_nan_not_caught:
  assumes cfg: "ml_validate cfg = Inr ()" "ml_parity_path cfg = Some path"
    and env: "me_load env = (\<lambda>_. Inr (nan_session (ml_output_tensor_name cfg)))" "me_read_lines env path = Inr lines"
    and lines: "\<exists>l \<in> set lines. str_trim l \<noteq> []"
      "\<And>l. l \<in> set lines \<Longrightarrow> str_trim l \<noteq> [] \<Longrightarrow> \<exists>pair. me_parse env (str_trim l) = Inr pair \<and> length (pp_input pair) = FEATURE_COUNT"
  shows "\<exists>scorer ms'. ml_new_with_fallback env cfg fb ms = (Inr scorer, ms') \<and>
    (\<forall>ctx cs. map cand_score (fst (sc_score_all scorer ctx cs ms')) = replicate (length cs) NaN)"
proof -
  define snap where "snap = \<lparr>ms_sessions = replicate (ml_pool_size cfg) (nan_session (ml_output_tensor_name cfg)), ms_next = 0,
    ms_input_name = ml_input_tensor_name cfg, ms_output_name = ml_output_tensor_name cfg\<rparr>"
  have pos: "0 < ml_pool_size cfg" "0 < ml_max_batch cfg" "0 < ml_batch_pad_to cfg"
    using cfg(1) by (simp_all add: ml_validate_def split: if_splits)
  have nan: "nan_snapshot snap" using pos by (simp add: nan_snapshot_def snap_def)
  have build: "snapshot_build (me_load env) cfg = Inr snap"
    by (simp add: snapshot_build_def env(1) load_sessions_nan snap_def)
  have "filter (\<lambda>l. str_trim l \<noteq> []) lines \<noteq> []" using lines(1) by (simp add: filter_empty_conv)
  then have "verify_parity (me_parse env) (me_read_lines env) path snap = Inr ()"
    using nan_parity_lines [of snap lines "me_parse env" 0 0] nan lines(2) env(2)
    by (simp add: verify_parity_def nan_snapshot_def)
  then have new: "ml_new_with_fallback env cfg fb ms = (Inr (ml_scorer (me_ln env) cfg (length ms) fb), ms @ [snap])"
    using cfg build by (simp add: ml_new_with_fallback_def)
  have "map cand_score (fst (ml_reference (me_ln env) cfg (length ms) fb ctx cs (ms @ [snap]))) = replicate (length cs) NaN" for ctx cs
    using nan_score_chunks [of "ms @ [snap]" "length ms" cfg "me_ln env" ctx "chunks (ml_max_batch cfg) cs"] nan pos
    by (auto simp: ml_reference_def concat_chunks)
  then show ?thesis
    using new pos(2) by (intro exI [of _ "ml_scorer (me_ln env) cfg (length ms) fb"] exI [of _ "ms @ [snap]"])
      (simp add: ml_scorer_def ml_loop_returns)
qed

definition nan_env :: ml_env where
  "nan_env = \<lparr>me_load = (\<lambda>_. Inr (nan_session ''pctr'')),
     me_parse = (\<lambda>l. Inr \<lparr>pp_input = replicate 13 (Num 1 0), pp_expected_score = Num 1 (- 1)\<rparr>),
     me_read_lines = (\<lambda>_. Inr [''{}'']), me_ln = id\<rparr>"

theorem ml_nan_not_caught_witness:
  "\<exists>scorer ms'. ml_new_with_fallback nan_env (ex_ml_config 2) (Some (feature_weighted_scorer fw_default)) [] = (Inr scorer, ms') \<and>
     map cand_score (fst (sc_score_all scorer ex_scoring_context (ex_candidates 3) ms')) = [NaN, NaN, NaN]"
proof -
  have "\<exists>scorer ms'. ml_new_with_fallback nan_env (ex_ml_config 2) (Some (feature_weighted_scorer fw_default)) [] = (Inr scorer, ms') \<and>
    (\<forall>ctx cs. map cand_score (fst (sc_score_all scorer ctx cs ms')) = replicate (length cs) NaN)"
    by (rule ml_nan_not_caught [where path = "''p.jsonl''" and lines = "[''{}'']"])
      (simp_all add: ex_ml_config_def ml_validate_def nan_env_def str_trim_def FEATURE_COUNT_def)
  then obtain scorer ms' where s: "ml_new_with_fallback nan_env (ex_ml_config 2) (Some (feature_weighted_scorer fw_default)) [] = (Inr scorer, ms')"
    and nan: "\<forall>ctx cs. map cand_score (fst (sc_score_all scorer ctx cs ms')) = replicate (length cs) NaN"
    by blast
  have "length (ex_candidates 3) = 3" by (simp add: ex_candidates_def)
  then have "map cand_score (fst (sc_score_all scorer ex_scoring_context (ex_candidates 3) ms')) = [NaN, NaN, NaN]"
    using nan by (simp add: numeral_3_eq_3)
  then show ?thesis using s by (intro exI [of _ scorer] exI [of _ ms'] conjI)
qed

end
