(* ===== verification/Segment_Repository.thy ===== *)
theory Segment_Repository
  imports Hedging OpenRTB_Model
begin

text \<open>
  User segments: the trait of \<open>repository/mod.rs\<close>, the Redis implementation of
  \<open>bidder-server/src/segment_repo.rs\<close> with its breaker and hedged read, and the cache of
  \<open>cache/mod.rs\<close> in front of it. Redis is the environment of a call: its answer and latency per
  attempt. The moka cache is a map of entries with the instant they were inserted; eviction for
  capacity may drop any entry at any time and is the separate operation \<open>segment_cache_evict\<close>.
\<close>

unbundle bit_operations_syntax

section \<open>The value format\<close>

definition from_le_bytes :: "u8 \<Rightarrow> u8 \<Rightarrow> u8 \<Rightarrow> u8 \<Rightarrow> u32" where
  "from_le_bytes b0 b1 b2 b3 =
     ucast b0 OR push_bit 8 (ucast b1) OR push_bit 16 (ucast b2) OR push_bit 24 (ucast b3)"

fun chunks_le :: "u8 list \<Rightarrow> u32 list" where
  "chunks_le (b0 # b1 # b2 # b3 # bs) = from_le_bytes b0 b1 b2 b3 # chunks_le bs"
| "chunks_le bs = []"

definition decode_segments :: "string \<Rightarrow> u8 list option \<Rightarrow> segment_id list anyhow" where
  "decode_segments key bytes =
     (case bytes of
        None \<Rightarrow> Inr []
      | Some bs \<Rightarrow>
          (if length bs mod 4 \<noteq> 0
           then Inl (''segment value for '' @ key @ '' has length '' @ nat_str (length bs) @ '' - not a multiple of 4'')
           else Inr (chunks_le bs)))"

section \<open>The Redis repository\<close>

record segment_repo =
  sr_breaker :: breaker
  sr_hedge :: hedge_budget
  sr_latency :: "redis_latency_tracker option"

record get_env =
  ge_now :: instant
  ge_first_time :: duration
  ge_first :: "u8 list option anyhow"
  ge_second_time :: duration
  ge_second :: "u8 list option anyhow"
  ge_first_on_tie :: bool
  ge_lock_free :: bool

definition segment_key :: "string \<Rightarrow> string" where
  "segment_key uid = ''v1:seg:{u:'' @ uid @ ''}''"

definition segments_for ::
  "breaker_config \<Rightarrow> get_env \<Rightarrow> string \<Rightarrow> segment_repo \<Rightarrow> segment_id list anyhow \<times> segment_repo" where
  "segments_for bcfg env uid st =
     (case allow_request bcfg (ge_now env) (sr_breaker st) of
        (False, b) \<Rightarrow> (Inr [], st\<lparr>sr_breaker := b\<rparr>)
      | (True, b) \<Rightarrow>
          (let (result, elapsed, hedge) =
                 hedged_call (ge_first env) (ge_first_time env) (ge_second env) (ge_second_time env)
                   (from_millis 8) (is_closed_sync (ge_lock_free env) b) (ge_first_on_tie env) (sr_hedge st);
               st1 = st\<lparr>sr_breaker := b, sr_hedge := hedge,
                        sr_latency := map_option (latency_record elapsed) (sr_latency st)\<rparr>;
               recorded = (\<lambda>error. st1\<lparr>sr_breaker := record_outcome bcfg (ge_now env + elapsed) error elapsed b\<rparr>)
           in case result of
                Inl e \<Rightarrow> (Inl e, recorded True)
              | Inr bytes \<Rightarrow> (decode_segments (segment_key uid) bytes, recorded False)))"

section \<open>The cache\<close>

record segment_cache =
  sc_capacity :: u64
  sc_ttl :: duration
  sc_entries :: "string \<rightharpoonup> segment_id list \<times> instant"

definition segment_cache_new :: "u64 \<Rightarrow> u64 \<Rightarrow> segment_cache" where
  "segment_cache_new capacity ttl_secs =
     \<lparr>sc_capacity = capacity, sc_ttl = from_secs ttl_secs, sc_entries = Map.empty\<rparr>"

text \<open>The entry of a key unless its time to live has passed.\<close>

definition cached :: "segment_cache \<Rightarrow> instant \<Rightarrow> string \<Rightarrow> segment_id list option" where
  "cached c now uid =
     (case sc_entries c uid of
        Some (segs, t) \<Rightarrow> (if now < t + sc_ttl c then Some segs else None)
      | None \<Rightarrow> None)"

text \<open>
  \<open>try_get_with\<close>: a live entry is returned; otherwise the fetch runs, a value it returns is
  inserted, an error is not.
\<close>

definition get_or_fetch ::
  "instant \<Rightarrow> string \<Rightarrow> ('r \<Rightarrow> segment_id list anyhow \<times> 'r) \<Rightarrow> segment_cache \<times> 'r
   \<Rightarrow> segment_id list anyhow \<times> segment_cache \<times> 'r" where
  "get_or_fetch now uid fetch st =
     (case st of (c, r) \<Rightarrow>
      case cached c now uid of
        Some segs \<Rightarrow> (Inr segs, c, r)
      | None \<Rightarrow>
          (case fetch r of
             (Inl e, r1) \<Rightarrow> (Inl e, c, r1)
           | (Inr segs, r1) \<Rightarrow> (Inr segs, c\<lparr>sc_entries := (sc_entries c)(uid \<mapsto> (segs, now))\<rparr>, r1)))"

definition segment_cache_evict :: "string \<Rightarrow> segment_cache \<Rightarrow> segment_cache" where
  "segment_cache_evict uid c = c\<lparr>sc_entries := (sc_entries c)(uid := None)\<rparr>"

text \<open>What the enrichment stage holds: a cache and a repository behind it.\<close>

record 'r segment_source =
  ss_get_or_fetch :: "'r \<Rightarrow> string \<Rightarrow> segment_id list anyhow \<times> 'r"

definition redis_segment_source ::
  "breaker_config \<Rightarrow> get_env \<Rightarrow> (segment_cache \<times> segment_repo) segment_source" where
  "redis_segment_source bcfg env =
     \<lparr>ss_get_or_fetch = (\<lambda>st uid. get_or_fetch (ge_now env) uid (segments_for bcfg env uid) st)\<rparr>"

section \<open>Encoding\<close>

text \<open>The format the writers use: every id as four bytes, least significant first.\<close>

definition to_le_bytes :: "u32 \<Rightarrow> u8 list" where
  "to_le_bytes w = [ucast w, ucast (drop_bit 8 w), ucast (drop_bit 16 w), ucast (drop_bit 24 w)]"

definition encode_segments :: "segment_id list \<Rightarrow> u8 list" where
  "encode_segments ids = concat (map to_le_bytes ids)"

lemma le_bytes_roundtrip:
  "from_le_bytes (ucast w) (ucast (drop_bit 8 w)) (ucast (drop_bit 16 w)) (ucast (drop_bit 24 w)) = w"
proof (rule bit_word_eqI)
  fix n assume "n < LENGTH(32)"
  then show "bit (from_le_bytes (ucast w) (ucast (drop_bit 8 w)) (ucast (drop_bit 16 w)) (ucast (drop_bit 24 w))) n = bit w n"
    by (cases "24 \<le> n"; cases "16 \<le> n") (auto simp: from_le_bytes_def bit_simps)
qed

lemma chunks_encode: "chunks_le (encode_segments ids) = ids"
  by (induction ids) (simp_all add: encode_segments_def to_le_bytes_def le_bytes_roundtrip)

lemma byte_high_bits: "8 \<le> n \<Longrightarrow> \<not> bit (b :: u8) n"
  using bit_imp_le_length [of b n] by auto

lemma bytes_of_word:
  "to_le_bytes (from_le_bytes b0 b1 b2 b3) = [b0, b1, b2, b3]"
  unfolding to_le_bytes_def from_le_bytes_def
  by (auto intro!: bit_word_eqI simp: bit_simps byte_high_bits)

lemma encode_chunks: "encode_segments (chunks_le bs) = take (length bs - length bs mod 4) bs"
proof (induction bs rule: chunks_le.induct)
  case (1 b0 b1 b2 b3 bs)
  have "length (b0 # b1 # b2 # b3 # bs) - length (b0 # b1 # b2 # b3 # bs) mod 4
      = Suc (Suc (Suc (Suc (length bs - length bs mod 4))))"
    by (simp add: Suc_diff_le)
  then have "take (length (b0 # b1 # b2 # b3 # bs) - length (b0 # b1 # b2 # b3 # bs) mod 4) (b0 # b1 # b2 # b3 # bs)
      = b0 # b1 # b2 # b3 # take (length bs - length bs mod 4) bs"
    by (simp only: take_Suc_Cons)
  then show ?case using 1 by (simp add: encode_segments_def bytes_of_word)
qed (simp_all add: encode_segments_def)

text \<open>
  Segment values decode to what was encoded, every id at its full 32 bits; a value decodes
  without error exactly when its length is a multiple of four, and a value that decodes encodes back
  to the same bytes.
\<close>

theorem segment_value_roundtrip:
  "decode_segments key (Some (encode_segments ids)) = Inr ids \<and>
   isl (decode_segments key (Some bs)) = (length bs mod 4 \<noteq> 0) \<and>
   encode_segments (chunks_le bs) = take (length bs - length bs mod 4) bs"
proof -
  have "length (encode_segments ids) mod 4 = 0"
    by (induction ids) (simp_all add: encode_segments_def to_le_bytes_def)
  then show ?thesis by (simp add: decode_segments_def chunks_encode encode_chunks)
qed

section \<open>Cached answers\<close>

lemma get_or_fetch_hit:
  "cached c now uid = Some segs \<Longrightarrow> get_or_fetch now uid fetch (c, r) = (Inr segs, c, r)"
  by (simp add: get_or_fetch_def)

lemma get_or_fetch_miss:
  "cached c now uid = None \<Longrightarrow> fetch r = (Inr segs, r1) \<Longrightarrow>
   get_or_fetch now uid fetch (c, r) = (Inr segs, c\<lparr>sc_entries := (sc_entries c)(uid \<mapsto> (segs, now))\<rparr>, r1)"
  by (simp add: get_or_fetch_def)

lemma cached_after_insert:
  "cached (c\<lparr>sc_entries := (sc_entries c)(uid \<mapsto> (segs, t))\<rparr>) now uid = (if now < t + sc_ttl c then Some segs else None)"
  by (simp add: cached_def)

text \<open>
  While the breaker is open, the repository answers a lookup with no segments and no error, so
  the cache keeps that answer: for the whole time to live every lookup of that user returns no
  segments and does not reach the repository, whatever state it is in by then and whatever Redis
  holds for the user.
\<close>

theorem open_breaker_empties_cached:
  assumes "br_state (sr_breaker r) = Open" "open_elapsed (sr_breaker r) (ge_now env) < br_open_duration bcfg"
    and "cached c (ge_now env) uid = None"
  shows "\<exists>c'. ss_get_or_fetch (redis_segment_source bcfg env) (c, r) uid = (Inr [], c', r) \<and>
    (\<forall>env' r'. ge_now env' < ge_now env + sc_ttl c \<longrightarrow>
       ss_get_or_fetch (redis_segment_source bcfg env') (c', r') uid = (Inr [], c', r'))"
proof -
  let ?c = "c\<lparr>sc_entries := (sc_entries c)(uid \<mapsto> ([], ge_now env))\<rparr>"
  have "segments_for bcfg env uid r = (Inr [], r)"
    using assms(1,2) by (simp add: segments_for_def allow_request_def allow_fast_path_def)
  then have first: "get_or_fetch (ge_now env) uid (segments_for bcfg env uid) (c, r) = (Inr [], ?c, r)"
    by (intro get_or_fetch_miss assms(3))
  have hit: "get_or_fetch now uid fetch (?c, r') = (Inr [], ?c, r')" if "now < ge_now env + sc_ttl c" for now fetch and r' :: segment_repo
    using that by (intro get_or_fetch_hit) (simp add: cached_after_insert)
  show ?thesis
    unfolding redis_segment_source_def segment_source.simps
    by (intro exI [of _ ?c] conjI allI impI first hit)
qed

definition open_repo :: segment_repo where
  "open_repo = \<lparr>sr_breaker = breaker_new\<lparr>br_state := Open, br_opened_at := Some 0\<rparr>,
     sr_hedge = hedge_budget_new 20, sr_latency = None\<rparr>"

definition get_env_at :: "instant \<Rightarrow> get_env" where
  "get_env_at now = \<lparr>ge_now = now, ge_first_time = 1000, ge_first = Inr (Some [7, 0, 0, 0]), ge_second_time = 1000,
     ge_second = Inr None, ge_first_on_tie = True, ge_lock_free = True\<rparr>"

text \<open>
  After the breaker has closed again, Redis would return segment 7; the cache answers with none.
\<close>

theorem open_breaker_empties_cached_witness:
  "\<exists>c'. ss_get_or_fetch (redis_segment_source (breaker_redis []) (get_env_at 1)) (segment_cache_new 1000 60, open_repo) ''u''
       = (Inr [], c', open_repo) \<and>
    ss_get_or_fetch (redis_segment_source (breaker_redis []) (get_env_at 20000000000)) (c', open_repo\<lparr>sr_breaker := breaker_new\<rparr>) ''u''
       = (Inr [], c', open_repo\<lparr>sr_breaker := breaker_new\<rparr>) \<and>
    fst (segments_for (breaker_redis []) (get_env_at 20000000000) ''u'' (open_repo\<lparr>sr_breaker := breaker_new\<rparr>)) = Inr [7]"
proof -
  have "br_state (sr_breaker open_repo) = Open" "cached (segment_cache_new 1000 60) (ge_now (get_env_at 1)) ''u'' = None"
      "open_elapsed (sr_breaker open_repo) (ge_now (get_env_at 1)) < br_open_duration (breaker_redis [])"
    by (simp_all add: open_repo_def breaker_new_def cached_def segment_cache_new_def open_elapsed_def
        get_env_at_def breaker_redis_def from_secs_def)
  note run = open_breaker_empties_cached [OF this(1,3,2)]
  have "fst (segments_for (breaker_redis []) (get_env_at 20000000000) ''u'' (open_repo\<lparr>sr_breaker := breaker_new\<rparr>)) = Inr [7]"
    by (simp add: segments_for_def allow_request_def allow_fast_path_def open_repo_def breaker_new_def
        get_env_at_def hedged_call_def from_millis_def decode_segments_def from_le_bytes_def)
  moreover have "ge_now (get_env_at 20000000000) < ge_now (get_env_at 1) + sc_ttl (segment_cache_new 1000 60)"
    by (simp add: get_env_at_def segment_cache_new_def from_secs_def)
  ultimately show ?thesis using run by blast
qed

end
