(* ===== verification/Request_Stages.thy ===== *)
theory Request_Stages
  imports Bid_Context Segment_Repository
begin

text \<open>
  The first three stages: \<open>request_validation.rs\<close>, \<open>user_enrichment.rs\<close> and
  \<open>candidate_retrieval.rs\<close> of \<open>pipeline/stages\<close>. Each returns \<open>Ok\<close> on every path.
\<close>

section \<open>Request validation\<close>

fun json_get :: "string \<Rightarrow> json \<Rightarrow> json option" where
  "json_get key (JObject kvs) = map_of kvs key"
| "json_get key v = None"

fun json_as_str :: "json \<Rightarrow> string option" where
  "json_as_str (JString s) = Some s"
| "json_as_str v = None"

definition has_consent :: "bid_request \<Rightarrow> bool" where
  "has_consent req =
     (case Option.bind (Option.bind (Option.bind (req_user req) user_ext_value) (json_get ''consent'')) json_as_str of
        Some s \<Rightarrow> s \<noteq> []
      | None \<Rightarrow> False)"

definition gdpr_applies :: "bid_request \<Rightarrow> bool" where
  "gdpr_applies req = (case req_regs req of Some regs \<Rightarrow> regs_gdpr regs = Some 1 | None \<Rightarrow> False)"

definition request_validation_stage :: "('b, 'w) stage" where
  "request_validation_stage =
     \<lparr>st_name = ''request_validation'',
      st_execute = (\<lambda>ctx w.
        let req = ctx_request ctx in
        if req_id req = [] then (Inr (), ctx\<lparr>ctx_outcome := NoBid INVALID_REQUEST\<rparr>, w)
        else if req_imp req = [] then (Inr (), ctx\<lparr>ctx_outcome := NoBid INVALID_REQUEST\<rparr>, w)
        else if gdpr_applies req \<and> \<not> has_consent req
        then (Inr (), ctx\<lparr>ctx_outcome := NoBid REQUEST_BLOCKED_PRIVACY\<rparr>, w)
        else (Inr (), ctx, w))\<rparr>"

section \<open>User enrichment\<close>

definition user_enrichment_stage :: "'r segment_source \<Rightarrow> ('b, ('b, 'r, 's, 'f, 'p) services) stage" where
  "user_enrichment_stage S =
     \<lparr>st_name = ''user_enrichment'',
      st_execute = (\<lambda>ctx w.
        let ctx1 = ctx\<lparr>ctx_catalog := Some (sv_catalog w)\<rparr> in
        case request_user_id (ctx_request ctx) of
          Some uid \<Rightarrow>
            (case ss_get_or_fetch S (sv_segments w) uid of
               (Inr segments, r) \<Rightarrow> (Inr (), ctx1\<lparr>ctx_segment_ids := segments\<rparr>, w\<lparr>sv_segments := r\<rparr>)
             | (Inl e, r) \<Rightarrow> (Inr (), ctx1, w\<lparr>sv_segments := r\<rparr>))
        | None \<Rightarrow> (Inr (), ctx1, w))\<rparr>"

section \<open>Candidate retrieval\<close>

definition imp_ad_format :: "imp \<Rightarrow> ad_format option" where
  "imp_ad_format i =
     (if imp_banner i \<noteq> None then Some Banner
      else if imp_video i \<noteq> None then Some Video
      else if imp_audio i \<noteq> None then Some Audio
      else if imp_native i \<noteq> None then Some Native
      else None)"

definition request_geo_keys :: "bid_request \<Rightarrow> geo_key list option" where
  "request_geo_keys req =
     map_option (\<lambda>g.
         (case geo_country g of Some country \<Rightarrow> [\<lparr>gk_kind = Country, gk_code = country\<rparr>] | None \<Rightarrow> []) @
         (case geo_metro g of Some metro \<Rightarrow> [\<lparr>gk_kind = Metro, gk_code = metro\<rparr>] | None \<Rightarrow> []))
       (Option.bind (req_device req) dev_geo)"

definition target_device :: "bid_request \<Rightarrow> device_target_type option" where
  "target_device req = map_option (\<lambda>dt. from_openrtb (device_type_raw dt)) (request_device_type req)"

text \<open>The query for one impression.\<close>

definition imp_request :: "'b bid_context \<Rightarrow> imp \<Rightarrow> candidate_request" where
  "imp_request ctx i =
     \<lparr>cr_segment_ids = ctx_segment_ids ctx, cr_geo_keys = request_geo_keys (ctx_request ctx),
      cr_device_type = target_device (ctx_request ctx), cr_ad_format = imp_ad_format i\<rparr>"

definition servable :: "ad_format option \<Rightarrow> creative \<Rightarrow> bool" where
  "servable fmt cr \<longleftrightarrow> (case fmt of None \<Rightarrow> True | Some f \<Rightarrow> crea_ad_format cr = f)"

definition expand_candidate :: "'b campaign_catalog \<Rightarrow> ad_format option \<Rightarrow> campaign_id \<Rightarrow> ad_candidate option" where
  "expand_candidate C fmt cid =
     Option.bind (campaign_of C cid) (\<lambda>campaign.
     Option.bind (find (servable fmt) (creatives_for C cid)) (\<lambda>creative.
       Some \<lparr>cand_campaign_id = cid, cand_creative_id = crea_id creative,
             cand_bid_price_cents = camp_bid_floor_cents campaign, cand_score = flt_lit binary32 0 1,
             cand_daily_cap_imps = camp_daily_cap_imps campaign,
             cand_hourly_cap_imps = camp_hourly_cap_imps campaign\<rparr>))"

definition retrieve :: "'b bitmap_ops \<Rightarrow> 'b campaign_catalog \<Rightarrow> 'b bid_context \<Rightarrow> imp \<Rightarrow> ad_candidate list" where
  "retrieve B C ctx i =
     List.map_filter (expand_candidate C (imp_ad_format i)) (bm_iter B (candidates_for B C (imp_request ctx i)))"

definition vec_resize :: "nat \<Rightarrow> 'a \<Rightarrow> 'a list \<Rightarrow> 'a list" where
  "vec_resize n x xs = take n xs @ replicate (n - length xs) x"

definition candidate_retrieval_stage :: "'b bitmap_ops \<Rightarrow> ('b, 'w) stage" where
  "candidate_retrieval_stage B =
     \<lparr>st_name = ''candidate_retrieval'',
      st_execute = (\<lambda>ctx w.
        case ctx_catalog ctx of
          None \<Rightarrow> (Inr (), ctx, w)
        | Some C \<Rightarrow>
            (if catalog_is_empty C then (Inr (), ctx, w)
             else
              (let imps = req_imp (ctx_request ctx);
                   sized = vec_resize (max (length imps) 1) [] (ctx_candidates ctx);
                   filled = foldl (\<lambda>cs (imp_idx, i). cs[imp_idx := retrieve B C ctx i]) sized (List.enumerate 0 imps)
               in (Inr (), ctx\<lparr>ctx_candidates := filled\<rparr>, w))))\<rparr>"

section \<open>What retrieval returns\<close>

lemma length_vec_resize [simp]: "length (vec_resize n x xs) = n"
  by (simp add: vec_resize_def)

lemma fill_enumerate:
  assumes "length cs = n + length xs"
  shows "foldl (\<lambda>cs (i, x). cs[i := f x]) cs (List.enumerate n xs) = take n cs @ map f xs"
  using assms
proof (induction xs arbitrary: cs n)
  case (Cons x xs)
  have "foldl (\<lambda>cs (i, x). cs[i := f x]) (cs[n := f x]) (List.enumerate (Suc n) xs)
      = take (Suc n) (cs[n := f x]) @ map f xs"
    using Cons.prems by (intro Cons.IH) simp
  moreover have "take (Suc n) (cs[n := f x]) = take n cs @ [f x]"
    using Cons.prems by (simp add: take_Suc_conv_app_nth)
  ultimately show ?case by simp
qed simp

lemma retrieval_execute:
  assumes "req_imp (ctx_request ctx) \<noteq> []" "ctx_catalog ctx = Some C" "\<not> catalog_is_empty C"
  shows "st_execute (candidate_retrieval_stage B) ctx w =
    (Inr (), ctx\<lparr>ctx_candidates := map (retrieve B C ctx) (req_imp (ctx_request ctx))\<rparr>, w)"
proof -
  let ?imps = "req_imp (ctx_request ctx)"
  have "max (length ?imps) 1 = length ?imps" using assms(1) by (cases ?imps) auto
  then show ?thesis
    using fill_enumerate [of "vec_resize (length ?imps) [] (ctx_candidates ctx)" 0 ?imps "retrieve B C ctx"] assms
    by (simp add: candidate_retrieval_stage_def Let_def)
qed

text \<open>A candidate of a campaign of the catalog that can serve the format.\<close>

definition candidate_from :: "'b campaign_catalog \<Rightarrow> ad_format option \<Rightarrow> ad_candidate \<Rightarrow> bool" where
  "candidate_from C fmt a \<longleftrightarrow>
     (\<exists>campaign creative. campaign_of C (cand_campaign_id a) = Some campaign \<and>
        creative \<in> set (creatives_for C (cand_campaign_id a)) \<and> servable fmt creative \<and>
        cand_creative_id a = crea_id creative \<and> cand_bid_price_cents a = camp_bid_floor_cents campaign \<and>
        cand_daily_cap_imps a = camp_daily_cap_imps campaign \<and>
        cand_hourly_cap_imps a = camp_hourly_cap_imps campaign)"

lemma expand_candidate_from:
  assumes "expand_candidate C fmt cid = Some a"
  shows "candidate_from C fmt a" and "cand_campaign_id a = cid"
proof -
  obtain campaign creative where found: "campaign_of C cid = Some campaign" "find (servable fmt) (creatives_for C cid) = Some creative"
    and a: "cand_campaign_id a = cid" "cand_creative_id a = crea_id creative" "cand_bid_price_cents a = camp_bid_floor_cents campaign"
      "cand_daily_cap_imps a = camp_daily_cap_imps campaign" "cand_hourly_cap_imps a = camp_hourly_cap_imps campaign"
    using assms by (auto simp: expand_candidate_def bind_eq_Some_conv)
  have "creative \<in> set (creatives_for C cid)" "servable fmt creative"
    using found(2) by (auto simp: find_Some_iff in_set_conv_nth)
  then show "candidate_from C fmt a" "cand_campaign_id a = cid"
    using found(1) a unfolding candidate_from_def by blast+
qed

lemma expand_candidate_None:
  "expand_candidate C fmt cid = None \<longleftrightarrow> campaign_of C cid = None \<or> (\<forall>cr \<in> set (creatives_for C cid). \<not> servable fmt cr)"
  by (auto simp: expand_candidate_def bind_eq_None_conv find_None_iff)

lemma map_filter_ids:
  "map cand_campaign_id (List.map_filter (expand_candidate C fmt) cids) = filter (\<lambda>c. expand_candidate C fmt c \<noteq> None) cids"
  by (induction cids) (auto simp: List.map_filter_simps expand_candidate_from split: option.splits)

lemma set_map_filter: "set (List.map_filter f xs) = {y. \<exists>x \<in> set xs. f x = Some y}"
  by (induction xs) (auto simp: List.map_filter_simps split: option.splits)

lemma filter_sorted_list_of_set:
  "finite A \<Longrightarrow> filter P (sorted_list_of_set A) = sorted_list_of_set {x \<in> A. P x}"
  by (intro sorted_distinct_set_unique) (auto simp: sorted_wrt_filter)

context roaring
begin

lemma set_iter [simp]: "set (bm_iter B b) = bits b"
  by (simp add: bits_iter)

lemma retrieve_from:
  assumes "a \<in> set (retrieve B C ctx i)"
  shows "candidate_from C (imp_ad_format i) a" and "cand_campaign_id a \<in> bits (candidates_for B C (imp_request ctx i))"
  using assms by (auto simp: retrieve_def set_map_filter dest: expand_candidate_from)

lemma retrieve_distinct: "distinct (map cand_campaign_id (retrieve B C ctx i))"
  by (simp add: retrieve_def map_filter_ids bits_iter)

lemma retrieve_ids:
  assumes "wf_catalog bits C"
  shows "map cand_campaign_id (retrieve B C ctx i) =
    sorted_list_of_set {c. campaign_of C c \<noteq> None \<and> matches bits C (imp_request ctx i) c \<and>
       (\<exists>cr \<in> set (creatives_for C c). servable (imp_ad_format i) cr)}"
proof -
  let ?S = "bits (candidates_for B C (imp_request ctx i))"
  have known: "campaign_of C c \<noteq> None \<longleftrightarrow> c \<in> bits (cat_all_campaigns C)" for c
    using assms by (auto simp: wf_catalog_def campaign_of_def hm_get_def map_of_eq_None_iff)
  have "map cand_campaign_id (retrieve B C ctx i) =
      sorted_list_of_set {c \<in> ?S. expand_candidate C (imp_ad_format i) c \<noteq> None}"
    by (simp add: retrieve_def map_filter_ids bits_iter filter_sorted_list_of_set)
  also have "{c \<in> ?S. expand_candidate C (imp_ad_format i) c \<noteq> None} = {c. campaign_of C c \<noteq> None \<and>
      matches bits C (imp_request ctx i) c \<and> (\<exists>cr \<in> set (creatives_for C c). servable (imp_ad_format i) cr)}"
    using candidates_for_bits [OF assms, of "imp_request ctx i"] known by (auto simp: expand_candidate_None)
  finally show ?thesis .
qed

end

text \<open>
  C22. From a context with a catalog and no candidates yet, candidate retrieval fills one list per
  impression. The list of an impression holds, in ascending order of the id and each once, exactly the
  campaigns of the catalog that match the request's segments, geo, device, format and the daypart
  and have a creative the impression can show; every entry carries such a creative and the price and
  caps of its campaign. The services are not touched.
\<close>

theorem retrieval_exact:
  fixes ctx :: "'b bid_context" and w :: 'w
  assumes bitmap: "roaring B bits" and wf: "wf_catalog bits C"
    and ctx: "ctx_catalog ctx = Some C" "req_imp (ctx_request ctx) \<noteq> []"
      "ctx_candidates ctx = replicate (length (req_imp (ctx_request ctx))) []"
    and run: "st_execute (candidate_retrieval_stage B) ctx w = (r, ctx', w')"
  shows "r = Inr () \<and> w' = w \<and> length (ctx_candidates ctx') = length (req_imp (ctx_request ctx)) \<and>
    (\<forall>n < length (req_imp (ctx_request ctx)). let i = req_imp (ctx_request ctx) ! n in
       map cand_campaign_id (ctx_candidates ctx' ! n) =
         sorted_list_of_set {c. campaign_of C c \<noteq> None \<and> matches bits C (imp_request ctx i) c \<and>
           (\<exists>cr \<in> set (creatives_for C c). servable (imp_ad_format i) cr)} \<and>
       (\<forall>a \<in> set (ctx_candidates ctx' ! n). candidate_from C (imp_ad_format i) a))"
proof (cases "catalog_is_empty C")
  case True
  then have "campaign_of C c = None" for c by (simp add: catalog_is_empty_def campaign_of_def)
  then show ?thesis using True run ctx by (auto simp: candidate_retrieval_stage_def)
next
  case False
  then show ?thesis
    using retrieval_execute [OF ctx(2,1) False, of B w] run roaring.retrieve_ids [OF bitmap wf]
      roaring.retrieve_from(1) [OF bitmap] by (auto simp: Let_def)
qed

section \<open>A request and a catalog\<close>

definition ex_imp :: "string \<Rightarrow> banner option \<Rightarrow> video option \<Rightarrow> imp" where
  "ex_imp i b v = \<lparr>imp_id = i, imp_banner = b, imp_video = v, imp_audio = None, imp_native = None,
     imp_pmp = None, imp_displaymanager = None, imp_displaymanagerver = None, imp_instl = 0,
     imp_tagid = None, imp_bidfloor = None, imp_bidfloorcur = None, imp_clickbrowser = 0, imp_secure = 0,
     imp_iframebuster = [], imp_rwdd = None, imp_ssai = None, imp_exp = None, imp_ext_value = None\<rparr>"

definition ex_request :: "string \<Rightarrow> imp list \<Rightarrow> bid_request" where
  "ex_request i imps = \<lparr>req_id = i, req_imp = imps, req_site = None, req_app = None, req_dooh = None,
     req_device = None, req_user = None, req_at = None, req_tmax = None, req_wseat = [], req_bseat = [],
     req_cur = None, req_wlang = [], req_bcat = [], req_badv = [], req_bapp = [], req_source = None,
     req_regs = None, req_test = 0, req_ext_value = None\<rparr>"

definition ex_campaign :: "campaign_id \<Rightarrow> i32 \<Rightarrow> campaign" where
  "ex_campaign i price = \<lparr>camp_id = i, camp_advertiser_id = 1, camp_bid_floor_cents = price,
     camp_daily_budget_cents = 1000, camp_hourly_budget_cents = 100, camp_daily_cap_imps = 5, camp_hourly_cap_imps = 2\<rparr>"

definition ex_creative :: "creative_id \<Rightarrow> campaign_id \<Rightarrow> creative" where
  "ex_creative i c = \<lparr>crea_id = i, crea_campaign_id = c, crea_ad_format = Banner, crea_click_url = [],
     crea_image_url = None, crea_width = None, crea_height = None\<rparr>"

text \<open>Two untargeted campaigns, of which only the first has a creative.\<close>

definition ex_catalog :: "u32 set campaign_catalog" where
  "ex_catalog = new_for_test set_bitmap [(1, ex_campaign 1 120), (2, ex_campaign 2 90)]
     [(1, [ex_creative 11 1])] [] [] [] [] {} {1, 2}"

lemma ex_catalog_wf: "wf_catalog (\<lambda>b. b) ex_catalog"
  by (auto simp: wf_catalog_def ex_catalog_def new_for_test_def idx_bits_def hm_wf_def union_values_def set_bitmap_def)

lemma ex_catalog_serves:
  "{c. campaign_of ex_catalog c \<noteq> None \<and> matches (\<lambda>b. b) ex_catalog (imp_request ctx (ex_imp x None None)) c \<and>
      (\<exists>cr \<in> set (creatives_for ex_catalog c). servable (imp_ad_format (ex_imp x None None)) cr)} = {1}"
  if "ctx_segment_ids ctx = []" "ctx_request ctx = ex_request y is"
  using that
  by (auto simp: campaign_of_def creatives_for_def ex_catalog_def new_for_test_def hm_get_def matches_def
      imp_request_def request_geo_keys_def target_device_def request_device_type_def ex_request_def
      servable_def imp_ad_format_def ex_imp_def split: if_splits)

theorem retrieval_exact_witness:
  "let ctx = (bid_context_new (ex_request ''r'' [ex_imp ''i'' None None]) 0)\<lparr>ctx_catalog := Some ex_catalog\<rparr> in
   \<exists>ctx'. st_execute (candidate_retrieval_stage set_bitmap) ctx () = (Inr (), ctx', ()) \<and>
     map cand_campaign_id (ctx_candidates ctx' ! 0) = [1]"
proof -
  define ctx where "ctx = (bid_context_new (ex_request ''r'' [ex_imp ''i'' None None]) 0)\<lparr>ctx_catalog := Some ex_catalog\<rparr>"
  obtain r ctx' w' where run: "st_execute (candidate_retrieval_stage set_bitmap) ctx () = (r, ctx', w')"
    by (cases "st_execute (candidate_retrieval_stage set_bitmap) ctx ()")
  have ctx: "ctx_catalog ctx = Some ex_catalog" "req_imp (ctx_request ctx) = [ex_imp ''i'' None None]"
      "ctx_candidates ctx = [[]]" "ctx_segment_ids ctx = []" "ctx_request ctx = ex_request ''r'' [ex_imp ''i'' None None]"
    by (simp_all add: ctx_def bid_context_new_def ex_request_def)
  have "r = Inr ()" "map cand_campaign_id (ctx_candidates ctx' ! 0) = [1]"
    using retrieval_exact [OF set_bm.roaring_axioms ex_catalog_wf ctx(1) _ _ run] ctx ex_catalog_serves [OF ctx(4,5), of "''i''"]
    by (simp_all add: Let_def)
  then show ?thesis using run unfolding ctx_def Let_def by (intro exI [of _ ctx']) simp
qed

end
