(* ===== verification/Scorer_Tree.thy ===== *)
theory Scorer_Tree
  imports Ml_Scoring Request_Stages Clock
begin

text \<open>
  The scorers that combine others, \<open>scoring/cascade.rs\<close> and \<open>scoring/ab_test.rs\<close>, the
  construction of the configured scorer in \<open>bidder-server/src/main.rs\<close>, and the scoring stage
  \<open>pipeline/stages/scoring.rs\<close>.

  The locale \<open>two_scorers\<close> has the contract for both parts; its sublocales give it to the cascade
  and to the A/B test. \<open>slice::sort_by\<close> is stable and its result is specified for total orders;
  \<open>sort_by\<close> is the stable insertion sort, and facts on the order assume that no score is NaN.
\<close>

section \<open>Cascade\<close>

fun insert_by :: "('a \<Rightarrow> 'a \<Rightarrow> ordering) \<Rightarrow> 'a \<Rightarrow> 'a list \<Rightarrow> 'a list" where
  "insert_by c x [] = [x]"
| "insert_by c x (y # ys) = (if c x y = Greater then y # insert_by c x ys else x # y # ys)"

definition sort_by :: "('a \<Rightarrow> 'a \<Rightarrow> ordering) \<Rightarrow> 'a list \<Rightarrow> 'a list" where
  "sort_by c xs = foldr (insert_by c) xs []"

type_synonym ref_key = "u32 \<times> u32"

definition cand_ref :: "ad_candidate \<Rightarrow> ref_key" where
  "cand_ref c = (cand_campaign_id c, cand_creative_id c)"

definition score_desc :: "'k \<times> flt \<Rightarrow> 'k \<times> flt \<Rightarrow> ordering" where
  "score_desc a b = (case partial_cmp (snd b) (snd a) of Some r \<Rightarrow> r | None \<Rightarrow> Equal)"

definition advance_keys :: "usize \<Rightarrow> flt \<Rightarrow> ad_candidate list \<Rightarrow> ref_key list" where
  "advance_keys top_k threshold cs =
     (let indexed = sort_by score_desc (map (\<lambda>c. (cand_ref c, cand_score c)) cs);
          keys = map fst (filter (\<lambda>(k, score). flt_ge score threshold) indexed)
      in if 0 < top_k \<and> top_k < length keys then take top_k keys else keys)"

definition write_back :: "ad_candidate list \<Rightarrow> ad_candidate list \<Rightarrow> ad_candidate list" where
  "write_back batch cs =
     (let scores = map_of (rev (map (\<lambda>c. (cand_ref c, cand_score c)) batch))
      in map (\<lambda>c. case scores (cand_ref c) of Some s \<Rightarrow> c\<lparr>cand_score := s\<rparr> | None \<Rightarrow> c) cs)"

definition cascade_scorer :: "'s scorer_ops \<Rightarrow> 's scorer_ops \<Rightarrow> usize \<Rightarrow> flt \<Rightarrow> 's scorer_ops" where
  "cascade_scorer stage1 stage2 top_k threshold =
     \<lparr>sc_score_all = (\<lambda>ctx cs s.
        if cs = [] then (cs, s)
        else
         (let (cs1, s1) = sc_score_all stage1 ctx cs s; keys = advance_keys top_k threshold cs1 in
          if keys = [] then (cs1, s1)
          else
           (let (batch, s2) = sc_score_all stage2 ctx (filter (\<lambda>c. cand_ref c \<in> set keys) cs1) s1
            in (write_back batch cs1, s2))))\<rparr>"

section \<open>A/B test\<close>

type_synonym u64w = "64 word"

definition FNV_OFFSET :: u64w where
  "FNV_OFFSET = 0xcbf29ce484222325"

definition FNV_PRIME :: u64w where
  "FNV_PRIME = 0x100000001b3"

definition fnv_byte :: "u64w \<Rightarrow> char \<Rightarrow> u64w" where
  "fnv_byte h b = (h XOR of_char b) * FNV_PRIME"

definition fnv1a :: "string \<Rightarrow> string \<Rightarrow> u64w" where
  "fnv1a seed uid = foldl fnv_byte (fnv_byte (foldl fnv_byte FNV_OFFSET seed) (CHR ''|'')) uid"

datatype arm = Control | Treatment

definition pick_arm :: "flt \<Rightarrow> string \<Rightarrow> string \<Rightarrow> arm" where
  "pick_arm treatment_share hash_seed uid =
     (if uid = [] \<or> flt_le treatment_share f32_0 then Control
      else if flt_ge treatment_share f32_1 then Treatment
      else
       (let bucket = flt_div binary32 (flt_of_int binary32 (uint (fnv1a hash_seed uid mod 10000))) (flt_lit binary32 10000 1)
        in if flt_lt bucket treatment_share then Treatment else Control))"

definition ab_test_scorer :: "'s scorer_ops \<Rightarrow> 's scorer_ops \<Rightarrow> flt \<Rightarrow> string \<Rightarrow> 's scorer_ops" where
  "ab_test_scorer control treatment treatment_share hash_seed =
     \<lparr>sc_score_all = (\<lambda>ctx cs s.
        case pick_arm treatment_share hash_seed (sx_user_id ctx) of
          Control \<Rightarrow> sc_score_all control ctx cs s
        | Treatment \<Rightarrow> sc_score_all treatment ctx cs s)\<rparr>"

section \<open>The configured scorer\<close>

definition build_ml :: "ml_env \<Rightarrow> scoring_config \<Rightarrow> models \<Rightarrow> models scorer_ops anyhow \<times> models" where
  "build_ml env cfg ms =
     (case scc_ml cfg of
        None \<Rightarrow> (Inl ''[scoring] kind=ml or referenced by decorator but [scoring.ml] missing'', ms)
      | Some ml \<Rightarrow>
          ml_new_with_fallback env
            \<lparr>ml_model_path = mlc_model_path ml, ml_parity_path = mlc_parity_path ml,
             ml_input_tensor_name = mlc_input_tensor_name ml, ml_output_tensor_name = mlc_output_tensor_name ml,
             ml_pool_size = mlc_pool_size ml, ml_max_batch = mlc_max_batch ml, ml_batch_pad_to = mlc_batch_pad_to ml\<rparr>
            (Some (feature_weighted_scorer fw_default)) ms)"

fun build_leaf ::
  "ml_env \<Rightarrow> scoring_config \<Rightarrow> scoring_kind \<Rightarrow> string \<Rightarrow> models \<Rightarrow> models scorer_ops anyhow \<times> models" where
  "build_leaf env cfg FeatureWeighted where_in_config ms = (Inr (feature_weighted_scorer fw_default), ms)"
| "build_leaf env cfg Ml where_in_config ms = build_ml env cfg ms"
| "build_leaf env cfg _ where_in_config ms =
     (Inl (''[scoring.'' @ where_in_config @ ''] cannot be cascade or ab_test''), ms)"

text \<open>Two constructions in a row, as with the \<open>?\<close> operator, and a scorer made from both.\<close>

definition build_pair ::
  "(models \<Rightarrow> 'a anyhow \<times> models) \<Rightarrow> (models \<Rightarrow> 'b anyhow \<times> models) \<Rightarrow> ('a \<Rightarrow> 'b \<Rightarrow> 'c) \<Rightarrow> models \<Rightarrow> 'c anyhow \<times> models" where
  "build_pair f g mk ms =
     (case f ms of
        (Inl e, ms1) \<Rightarrow> (Inl e, ms1)
      | (Inr a, ms1) \<Rightarrow>
          (case g ms1 of (Inl e, ms2) \<Rightarrow> (Inl e, ms2) | (Inr b, ms2) \<Rightarrow> (Inr (mk a b), ms2)))"

definition build_cascade :: "ml_env \<Rightarrow> scoring_config \<Rightarrow> models \<Rightarrow> models scorer_ops anyhow \<times> models" where
  "build_cascade env cfg ms =
     (case scc_cascade cfg of
        None \<Rightarrow> (Inl ''[scoring] kind=cascade but [scoring.cascade] missing'', ms)
      | Some c \<Rightarrow>
          build_pair (build_leaf env cfg (csc_stage1 c) ''cascade.stage1'') (build_leaf env cfg (csc_stage2 c) ''cascade.stage2'')
            (\<lambda>stage1 stage2. cascade_scorer stage1 stage2 (csc_top_k c) (csc_threshold c)) ms)"

fun build_leaf_or_cascade ::
  "ml_env \<Rightarrow> scoring_config \<Rightarrow> scoring_kind \<Rightarrow> string \<Rightarrow> models \<Rightarrow> models scorer_ops anyhow \<times> models" where
  "build_leaf_or_cascade env cfg FeatureWeighted where_in_config ms = (Inr (feature_weighted_scorer fw_default), ms)"
| "build_leaf_or_cascade env cfg Ml where_in_config ms = build_ml env cfg ms"
| "build_leaf_or_cascade env cfg Cascade where_in_config ms = build_cascade env cfg ms"
| "build_leaf_or_cascade env cfg AbTest where_in_config ms =
     (Inl (''[scoring.'' @ where_in_config @ ''] cannot be ab_test''), ms)"

definition build_ab_test :: "ml_env \<Rightarrow> scoring_config \<Rightarrow> models \<Rightarrow> models scorer_ops anyhow \<times> models" where
  "build_ab_test env cfg ms =
     (case scc_ab_test cfg of
        None \<Rightarrow> (Inl ''[scoring] kind=ab_test but [scoring.ab_test] missing'', ms)
      | Some ab \<Rightarrow>
          build_pair (build_leaf_or_cascade env cfg (abc_control ab) ''ab_test.control'')
            (build_leaf_or_cascade env cfg (abc_treatment ab) ''ab_test.treatment'')
            (\<lambda>control treatment. ab_test_scorer control treatment (abc_treatment_share ab) (abc_hash_seed ab)) ms)"

definition build_scorer_root :: "ml_env \<Rightarrow> scoring_config \<Rightarrow> models \<Rightarrow> models scorer_ops anyhow \<times> models" where
  "build_scorer_root env cfg ms =
     (case scc_kind cfg of
        FeatureWeighted \<Rightarrow> (Inr (feature_weighted_scorer fw_default), ms)
      | Ml \<Rightarrow> build_ml env cfg ms
      | Cascade \<Rightarrow> build_cascade env cfg ms
      | AbTest \<Rightarrow> build_ab_test env cfg ms)"

section \<open>The stage\<close>

definition imp_scoring_context :: "u64 \<Rightarrow> 'b bid_context \<Rightarrow> nat \<Rightarrow> scoring_context" where
  "imp_scoring_context unix_secs ctx imp_idx =
     (let req = ctx_request ctx in
      \<lparr>sx_segment_ids = ctx_segment_ids ctx, sx_device_type = target_device req,
       sx_ad_format = (if imp_idx < length (req_imp req) then imp_ad_format (req_imp req ! imp_idx) else None),
       sx_hour_of_day = current_hour_of_day unix_secs, sx_is_weekend = is_weekend_utc unix_secs,
       sx_user_id = (case request_user_id req of Some uid \<Rightarrow> uid | None \<Rightarrow> []), sx_is_top_market = False\<rparr>)"

definition scoring_stage :: "'s scorer_ops \<Rightarrow> u64 \<Rightarrow> ('b, ('b, 'r, 's, 'f, 'p) services) stage" where
  "scoring_stage S unix_secs =
     \<lparr>st_name = ''scoring'',
      st_execute = (\<lambda>ctx w.
        let (cands, s) = mapi_state (\<lambda>imp_idx cs s.
              if cs = [] then (cs, s) else sc_score_all S (imp_scoring_context unix_secs ctx imp_idx) cs s)
              0 (ctx_candidates ctx) (sv_scorer w)
        in (Inr (), ctx\<lparr>ctx_candidates := cands\<rparr>, w\<lparr>sv_scorer := s\<rparr>))\<rparr>"

section \<open>Composed scorers keep the contract\<close>

lemma write_back_keeps: "map unscored (write_back batch cs) = map unscored cs"
  by (simp add: write_back_def Let_def split: option.splits)

locale two_scorers = s1: scorer S1 + s2: scorer S2
  for S1 S2 :: "'s scorer_ops"

sublocale two_scorers \<subseteq> cascade: scorer "cascade_scorer S1 S2 top_k threshold" for top_k threshold
  by unfold_locales
    (auto simp: cascade_scorer_def Let_def write_back_keeps dest: s1.keeps split: if_splits prod.splits)

sublocale two_scorers \<subseteq> ab_test: scorer "ab_test_scorer S1 S2 share seed" for share seed
  by unfold_locales (auto simp: ab_test_scorer_def dest: s1.keeps s2.keeps split: arm.splits)

interpretation fw_then_ml: two_scorers "feature_weighted_scorer fw_default"
    "ml_scorer ln32 cfg slot (Some (feature_weighted_scorer fw_default))" for ln32 cfg slot
  by unfold_locales

context two_scorers
begin

lemma composed: "scorer (cascade_scorer S1 S2 top_k threshold)" "scorer (ab_test_scorer S1 S2 share seed)"
  by (rule cascade.scorer_axioms ab_test.scorer_axioms)+

end

lemmas composed_scorers = two_scorers.composed [OF two_scorers.intro]

lemma build_ml_scorer: "build_ml env cfg ms = (Inr S, ms') \<Longrightarrow> scorer S"
  by (auto simp: build_ml_def ml_new_with_fallback_def intro: ml_fw.with_ml.scorer_axioms split: option.splits sum.splits)

lemma build_leaf_scorer: "build_leaf env cfg kind loc ms = (Inr S, ms') \<Longrightarrow> scorer S"
  by (cases kind) (auto intro: fw.scorer_axioms build_ml_scorer)

lemma build_pair_Inr:
  "build_pair f g mk ms = (Inr c, ms') \<longleftrightarrow> (\<exists>a b ms1. f ms = (Inr a, ms1) \<and> g ms1 = (Inr b, ms') \<and> c = mk a b)"
  by (auto simp: build_pair_def split: prod.splits sum.splits)

lemma build_cascade_scorer: "build_cascade env cfg ms = (Inr S, ms') \<Longrightarrow> scorer S"
  by (auto simp: build_cascade_def build_pair_Inr split: option.splits
      intro: composed_scorers dest!: build_leaf_scorer)

lemma build_leaf_or_cascade_scorer: "build_leaf_or_cascade env cfg kind loc ms = (Inr S, ms') \<Longrightarrow> scorer S"
  by (cases kind) (auto intro: fw.scorer_axioms build_ml_scorer build_cascade_scorer)

lemma build_ab_test_scorer: "build_ab_test env cfg ms = (Inr S, ms') \<Longrightarrow> scorer S"
  by (auto simp: build_ab_test_def build_pair_Inr split: option.splits
      intro: composed_scorers dest!: build_leaf_or_cascade_scorer)

lemma build_scorer_root_scorer: "build_scorer_root env cfg ms = (Inr S, ms') \<Longrightarrow> scorer S"
  by (auto simp: build_scorer_root_def split: scoring_kind.splits
      intro: fw.scorer_axioms build_ml_scorer build_cascade_scorer build_ab_test_scorer)

text \<open>
  C31. Whatever scorer tree the configuration asks for, if it can be built then scoring changes the
  scores of the candidates and nothing else: none is added, dropped or moved, and campaign,
  creative, price and caps stay.
\<close>

theorem configured_scorer_only_scores:
  assumes "build_scorer_root env cfg ms = (Inr S, ms')" "sc_score_all S ctx cs st = (cs', st')"
  shows "map unscored cs' = map unscored cs"
  using scorer.keeps [OF build_scorer_root_scorer [OF assms(1)] assms(2)] .

definition ex_scoring_config :: scoring_config where
  "ex_scoring_config = \<lparr>scc_kind = AbTest, scc_ml = None,
     scc_cascade = Some \<lparr>csc_stage1 = FeatureWeighted, csc_stage2 = FeatureWeighted, csc_top_k = 2, csc_threshold = Num 0 0\<rparr>,
     scc_ab_test = Some \<lparr>abc_control = FeatureWeighted, abc_treatment = Cascade, abc_treatment_share = Num 1 (- 1), abc_hash_seed = ''s''\<rparr>\<rparr>"

theorem configured_scorer_only_scores_witness:
  "\<exists>S cs' st'. build_scorer_root nan_env ex_scoring_config [] = (Inr S, []) \<and>
     sc_score_all S ex_scoring_context (ex_candidates 3) [] = (cs', st') \<and>
     map unscored cs' = map unscored (ex_candidates 3)"
proof -
  obtain S where S: "build_scorer_root nan_env ex_scoring_config [] = (Inr S, [])"
    by (simp add: build_scorer_root_def ex_scoring_config_def build_ab_test_def build_pair_def build_cascade_def)
  obtain cs' st' where run: "sc_score_all S ex_scoring_context (ex_candidates 3) [] = (cs', st')"
    by (cases "sc_score_all S ex_scoring_context (ex_candidates 3) []")
  show ?thesis
    using S run configured_scorer_only_scores [OF S run] by (intro exI [of _ S] exI [of _ cs'] exI [of _ st'] conjI)
qed

section \<open>What the cascade rescores\<close>

lemma mset_sort_by: "mset (sort_by c xs) = mset xs"
proof -
  have "mset (insert_by c x ys) = add_mset x (mset ys)" for x ys by (induction ys) auto
  then show ?thesis by (induction xs) (simp_all add: sort_by_def)
qed

lemma score_desc_key:
  "snd a \<noteq> NaN \<Longrightarrow> snd b \<noteq> NaN \<Longrightarrow> score_desc a b = Greater \<longleftrightarrow> fkey (snd a) < fkey (snd b)"
  by (simp add: score_desc_def partial_cmp_fkey)

lemma sort_by_desc:
  assumes "NaN \<notin> snd ` set xs"
  shows "sorted_wrt (\<lambda>a b. fkey (snd b) \<le> fkey (snd a)) (sort_by score_desc xs)"
  using assms
proof (induction xs)
  case (Cons x xs)
  have ins: "sorted_wrt (\<lambda>a b. fkey (snd b) \<le> fkey (snd a)) (insert_by score_desc x ys)"
    if "sorted_wrt (\<lambda>a b. fkey (snd b) \<le> fkey (snd a)) ys" "NaN \<notin> snd ` set (x # ys)" for ys
    using that
  proof (induction ys)
    case (Cons y ys)
    have set: "set (insert_by score_desc x ys) = insert x (set ys)" by (induction ys) auto
    have "score_desc x y = Greater \<longleftrightarrow> fkey (snd x) < fkey (snd y)"
      using Cons.prems(2) by (intro score_desc_key) auto
    then show ?case using Cons set by (auto simp: not_less intro: order_trans)
  qed simp
  have "set (sort_by score_desc xs) = set xs" using mset_sort_by by (metis set_mset_mset)
  then show ?case using ins [of "sort_by score_desc xs"] Cons by (simp add: sort_by_def)
qed (simp add: sort_by_def)

definition eligible :: "flt \<Rightarrow> ad_candidate list \<Rightarrow> ad_candidate set" where
  "eligible threshold cs = {c \<in> set cs. flt_ge (cand_score c) threshold}"

definition advancing :: "usize \<Rightarrow> flt \<Rightarrow> ad_candidate list \<Rightarrow> ad_candidate set" where
  "advancing top_k threshold cs = {c \<in> set cs. cand_ref c \<in> set (advance_keys top_k threshold cs)}"

text \<open>The eligible candidates in the order the cascade sorts their scores.\<close>

definition ranked :: "flt \<Rightarrow> ad_candidate list \<Rightarrow> ad_candidate list" where
  "ranked t cs = map (\<lambda>p. the (map_of (map (\<lambda>c. (cand_ref c, c)) cs) (fst p)))
     (filter (\<lambda>(k, score). flt_ge score t) (sort_by score_desc (map (\<lambda>c. (cand_ref c, cand_score c)) cs)))"

lemma set_sorted_scores: "set (sort_by score_desc (map f cs)) = f ` set cs"
  by (metis list.set_map mset_sort_by set_mset_mset)

lemma cand_ref_inverse:
  "distinct (map cand_ref cs) \<Longrightarrow> c \<in> set cs \<Longrightarrow> the (map_of (map (\<lambda>c. (cand_ref c, c)) cs) (cand_ref c)) = c"
  by (subst map_of_is_SomeI) (auto simp: o_def)

lemma ranked_scores:
  assumes "distinct (map cand_ref cs)"
  shows "map (\<lambda>c. (cand_ref c, cand_score c)) (ranked t cs)
    = filter (\<lambda>(k, score). flt_ge score t) (sort_by score_desc (map (\<lambda>c. (cand_ref c, cand_score c)) cs))"
  unfolding ranked_def map_map o_def
  by (rule map_idI) (auto simp: set_sorted_scores cand_ref_inverse [OF assms])

lemma set_ranked:
  assumes "distinct (map cand_ref cs)"
  shows "set (ranked t cs) = eligible t cs"
proof -
  have "set (ranked t cs) = (\<lambda>p. the (map_of (map (\<lambda>c. (cand_ref c, c)) cs) (fst p))) `
      {p \<in> (\<lambda>c. (cand_ref c, cand_score c)) ` set cs. flt_ge (snd p) t}"
    by (auto simp: ranked_def set_sorted_scores case_prod_unfold)
  also have "\<dots> = eligible t cs" using cand_ref_inverse [OF assms] by (force simp: eligible_def image_iff)
  finally show ?thesis .
qed

lemma distinct_ranked:
  assumes "distinct (map cand_ref cs)"
  shows "distinct (ranked t cs)"
proof -
  have "distinct (map (\<lambda>c. (cand_ref c, cand_score c)) cs)" using assms by (auto simp: distinct_map inj_on_def)
  then have "distinct (sort_by score_desc (map (\<lambda>c. (cand_ref c, cand_score c)) cs))"
    using mset_sort_by mset_eq_imp_distinct_iff by blast
  then have "distinct (map (\<lambda>c. (cand_ref c, cand_score c)) (ranked t cs))" unfolding ranked_scores [OF assms] by simp
  then show ?thesis by (simp add: distinct_map)
qed

lemma sorted_ranked:
  assumes "distinct (map cand_ref cs)" "NaN \<notin> cand_score ` set cs"
  shows "sorted_wrt (\<lambda>a b. fkey (cand_score b) \<le> fkey (cand_score a)) (ranked t cs)"
proof -
  have "NaN \<notin> snd ` set (map (\<lambda>c. (cand_ref c, cand_score c)) cs)" using assms(2) by auto
  then have "sorted_wrt (\<lambda>a b. fkey (snd b) \<le> fkey (snd a)) (map (\<lambda>c. (cand_ref c, cand_score c)) (ranked t cs))"
    unfolding ranked_scores [OF assms(1)] by (intro sorted_wrt_filter sort_by_desc)
  then show ?thesis by (simp add: sorted_wrt_map)
qed

text \<open>The candidates that advance are a prefix of these.\<close>

lemma advancing_ranked:
  assumes "distinct (map cand_ref cs)"
  shows "advancing k t cs = set (if 0 < k \<and> k < length (ranked t cs) then take k (ranked t cs) else ranked t cs)"
proof -
  let ?ds = "if 0 < k \<and> k < length (ranked t cs) then take k (ranked t cs) else ranked t cs"
  have keys: "advance_keys k t cs = map cand_ref ?ds"
    unfolding advance_keys_def Let_def ranked_scores [OF assms, symmetric] by (simp add: take_map)
  have "set ?ds \<subseteq> set cs" using set_ranked [OF assms, of t] by (auto simp: eligible_def dest: in_set_takeD split: if_splits)
  moreover have "{c \<in> set cs. cand_ref c \<in> cand_ref ` set ds'} = set ds'" if "set ds' \<subseteq> set cs" for ds'
    using that assms by (auto simp: distinct_map inj_on_def)
  ultimately show ?thesis unfolding advancing_def keys set_map by blast
qed

lemma advancing_prefix:
  assumes "distinct (map cand_ref cs)" "NaN \<notin> cand_score ` set cs"
  obtains ds where "distinct ds" "set ds = eligible t cs" "sorted_wrt (\<lambda>a b. fkey (cand_score b) \<le> fkey (cand_score a)) ds"
    "advancing k t cs = set (if 0 < k \<and> k < length ds then take k ds else ds)"
  using that distinct_ranked set_ranked sorted_ranked advancing_ranked assms by blast

lemma advancing_best:
  assumes "distinct (map cand_ref cs)" "NaN \<notin> cand_score ` set cs"
  shows "advancing k t cs \<subseteq> eligible t cs"
    and "card (advancing k t cs) = (if k = 0 then card (eligible t cs) else min k (card (eligible t cs)))"
    and "c \<in> advancing k t cs \<Longrightarrow> d \<in> eligible t cs - advancing k t cs \<Longrightarrow> flt_le (cand_score d) (cand_score c)"
proof -
  obtain ds where ds: "distinct ds" "set ds = eligible t cs" "sorted_wrt (\<lambda>a b. fkey (cand_score b) \<le> fkey (cand_score a)) ds"
    and adv: "advancing k t cs = set (if 0 < k \<and> k < length ds then take k ds else ds)"
    using advancing_prefix [OF assms] by blast
  show "advancing k t cs \<subseteq> eligible t cs" unfolding adv ds(2) [symmetric] by (auto dest: in_set_takeD)
  have "card (set ds) = length ds" "card (set (take k ds)) = min (length ds) k"
    using ds(1) by (simp_all add: distinct_card)
  then show "card (advancing k t cs) = (if k = 0 then card (eligible t cs) else min k (card (eligible t cs)))"
    unfolding adv ds(2) [symmetric] by auto
  assume c: "c \<in> advancing k t cs" and d: "d \<in> eligible t cs - advancing k t cs"
  then have "d \<in> set ds" "0 < k \<and> k < length ds" using adv ds(2) by (auto split: if_splits)
  then have "c \<in> set (take k ds)" "d \<in> set (drop k ds)"
    using c d adv by (auto simp flip: in_set_conv_decomp) (metis Un_iff append_take_drop_id set_append)
  then have "fkey (cand_score d) \<le> fkey (cand_score c)"
    using ds(3) by (metis append_take_drop_id sorted_wrt_append)
  moreover have "c \<in> set cs" "d \<in> set cs" using c d by (auto simp: advancing_def eligible_def)
  then have "cand_score c \<noteq> NaN" "cand_score d \<noteq> NaN" using assms(2) by (metis imageI)+
  ultimately show "flt_le (cand_score d) (cand_score c)" by (simp add: flt_le_fkey)
qed

lemma unscored_rescore: "unscored b = unscored c \<Longrightarrow> c\<lparr>cand_score := cand_score b\<rparr> = b"
  by (cases b; cases c) (simp add: unscored_def)

lemma write_back_nth:
  assumes keep: "map unscored batch = map unscored (filter (\<lambda>c. c \<in> A) cs)" and dist: "distinct (map cand_ref cs)"
    and i: "i < length cs"
  shows "if cs ! i \<in> A then write_back batch cs ! i \<in> set batch \<and> cand_ref (write_back batch cs ! i) = cand_ref (cs ! i)
         else write_back batch cs ! i = cs ! i"
proof -
  define refs where "refs = map (\<lambda>c. (cand_ref c, cand_score c)) batch"
  have ref: "cand_ref a = cand_ref b" if "unscored a = unscored b" for a b
    using unscored_fields [OF that] by (simp add: cand_ref_def)
  have refs_batch: "map cand_ref batch = map cand_ref (filter (\<lambda>c. c \<in> A) cs)"
  proof -
    have "map cand_ref xs = map cand_ref (map unscored xs)" for xs by (simp add: cand_ref_def unscored_def)
    then show ?thesis using keep by metis
  qed
  then have "distinct (map cand_ref batch)" using dist by (simp add: distinct_map_filter)
  then have "distinct (map fst (rev refs))" by (simp add: refs_def rev_map [symmetric] o_def)
  note lookup = map_of_eq_Some_iff [OF this]
  show ?thesis
  proof (cases "cs ! i \<in> A")
    case True
    then have "cs ! i \<in> set (filter (\<lambda>c. c \<in> A) cs)" using i by simp
    then have "unscored (cs ! i) \<in> set (map unscored batch)" using keep by simp
    then obtain b where b: "b \<in> set batch" "unscored b = unscored (cs ! i)" by auto
    then have "map_of (rev refs) (cand_ref (cs ! i)) = Some (cand_score b)"
      using imageI [OF b(1), of "\<lambda>c. (cand_ref c, cand_score c)"] ref [OF b(2)] unfolding lookup by (simp add: refs_def)
    moreover have "(cs ! i)\<lparr>cand_score := cand_score b\<rparr> = b"
      by (rule unscored_rescore [OF b(2)])
    ultimately have "write_back batch cs ! i = b" using i by (simp add: write_back_def Let_def refs_def [symmetric])
    then show ?thesis using True b(1) ref [OF b(2)] by simp
  next
    case False
    have "cand_ref (cs ! i) \<notin> cand_ref ` set batch"
    proof
      assume "cand_ref (cs ! i) \<in> cand_ref ` set batch"
      then have "cand_ref (cs ! i) \<in> cand_ref ` set (filter (\<lambda>c. c \<in> A) cs)" using refs_batch by (metis list.set_map)
      then obtain d where "d \<in> set cs" "d \<in> A" "cand_ref d = cand_ref (cs ! i)" by auto
      then show False using False dist i by (auto simp: distinct_map dest: inj_onD)
    qed
    then have "map_of (rev refs) (cand_ref (cs ! i)) = None" by (auto simp: map_of_eq_None_iff refs_def)
    then show ?thesis using False i by (simp add: write_back_def Let_def refs_def [symmetric])
  qed
qed

text \<open>
  C33. A cascade scores every candidate with its first stage and rescores with the second exactly the
  best \<open>top_k\<close> of those that reach the threshold (all of them when \<open>top_k\<close> is 0): none of the others
  that reach it has a higher first score, each of the others keeps its first score, and the score of
  an advanced candidate is the one the second stage gave it.
\<close>

theorem cascade_rescores_best:
  assumes scorers: "scorer S1" "scorer S2" and dist: "distinct (map cand_ref cs)"
    and stage1: "sc_score_all S1 ctx cs s = (cs1, s1)" "NaN \<notin> cand_score ` set cs1"
    and run: "sc_score_all (cascade_scorer S1 S2 k t) ctx cs s = (out, s')"
  shows "\<exists>A \<subseteq> eligible t cs1.
    card A = (if k = 0 then card (eligible t cs1) else min k (card (eligible t cs1))) \<and>
    (\<forall>c \<in> A. \<forall>d \<in> eligible t cs1 - A. flt_le (cand_score d) (cand_score c)) \<and>
    length out = length cs1 \<and>
    (\<forall>i < length cs1.
       if cs1 ! i \<in> A
       then out ! i \<in> set (fst (sc_score_all S2 ctx (filter (\<lambda>c. c \<in> A) cs1) s1)) \<and> cand_ref (out ! i) = cand_ref (cs1 ! i)
       else out ! i = cs1 ! i)"
proof -
  have "map unscored cs1 = map unscored cs" using scorer.keeps [OF scorers(1) stage1(1)] .
  moreover have "map cand_ref xs = map cand_ref (map unscored xs)" for xs by (simp add: cand_ref_def unscored_def)
  ultimately have dist1: "distinct (map cand_ref cs1)" using dist by metis
  let ?A = "advancing k t cs1"
  note best = advancing_best [OF dist1 stage1(2), where k = k and t = t]
  have filt: "filter (\<lambda>c. cand_ref c \<in> set (advance_keys k t cs1)) cs1 = filter (\<lambda>c. c \<in> ?A) cs1"
    by (intro filter_cong) (auto simp: advancing_def)
  obtain batch s2 where stage2: "sc_score_all S2 ctx (filter (\<lambda>c. c \<in> ?A) cs1) s1 = (batch, s2)"
    by (cases "sc_score_all S2 ctx (filter (\<lambda>c. c \<in> ?A) cs1) s1")
  have out: "out = (if cs = [] \<or> advance_keys k t cs1 = [] then cs1 else write_back batch cs1)"
    using run stage1(1) stage2 scorer.keeps [OF scorers(1) stage1(1)]
    by (auto simp: cascade_scorer_def Let_def filt split: if_splits)
  have "length out = length cs1" using out by (simp add: write_back_def Let_def)
  moreover have "if cs1 ! i \<in> ?A then out ! i \<in> set batch \<and> cand_ref (out ! i) = cand_ref (cs1 ! i) else out ! i = cs1 ! i"
    if i: "i < length cs1" for i
  proof (cases "cs = [] \<or> advance_keys k t cs1 = []")
    case True
    then have "?A = {}" using scorer.keeps_length [OF scorers(1) stage1(1)] by (auto simp: advancing_def)
    then show ?thesis using out True by simp
  next
    case False
    then show ?thesis
      using write_back_nth [OF scorer.keeps [OF scorers(2) stage2] dist1 i] out by simp
  qed
  ultimately show ?thesis
    using best stage2 by (intro exI [of _ ?A] conjI) auto
qed

definition ex_priced :: "ad_candidate list" where
  "ex_priced = map (\<lambda>(i, p). \<lparr>cand_campaign_id = i, cand_creative_id = 1, cand_bid_price_cents = p, cand_score = Num 0 0,
     cand_daily_cap_imps = 5, cand_hourly_cap_imps = 5\<rparr>) [(1, 100), (2, 500), (3, 900)]"

text \<open>Three candidates that all reach the threshold 0: exactly one is rescored.\<close>

theorem cascade_rescores_best_witness:
  "\<exists>A cs1. cs1 = map (\<lambda>c. c\<lparr>cand_score := fw_score fw_default ex_scoring_context c\<rparr>) ex_priced \<and>
     A \<subseteq> set cs1 \<and> card A = 1 \<and>
     (\<forall>i < 3. cs1 ! i \<in> A \<or> fst (sc_score_all (cascade_scorer (feature_weighted_scorer fw_default)
         (feature_weighted_scorer (fw_default\<lparr>fw_weight_price := Num 1 0\<rparr>)) 1 (Num 0 0)) ex_scoring_context ex_priced ()) ! i = cs1 ! i)"
proof -
  define S1 S2 :: "unit scorer_ops" where "S1 = feature_weighted_scorer fw_default"
    and "S2 = feature_weighted_scorer (fw_default\<lparr>fw_weight_price := Num 1 0\<rparr>)"
  define cs1 where "cs1 = map (\<lambda>c. c\<lparr>cand_score := fw_score fw_default ex_scoring_context c\<rparr>) ex_priced"
  obtain out s' where run: "sc_score_all (cascade_scorer S1 S2 1 (Num 0 0)) ex_scoring_context ex_priced () = (out, s')"
    by (cases "sc_score_all (cascade_scorer S1 S2 1 (Num 0 0)) ex_scoring_context ex_priced ()")
  have stage1: "sc_score_all S1 ex_scoring_context ex_priced () = (cs1, ())"
    by (simp add: S1_def cs1_def feature_weighted_scorer_def)
  have prices: "0 \<le> cand_bid_price_cents c" "in_i32 (cand_bid_price_cents c)" if "c \<in> set ex_priced" for c
    using that by (auto simp: ex_priced_def in_i32_def)
  then have unit: "unit_flt (cand_score c)" if "c \<in> set cs1" for c
    using that fw_score_unit by (auto simp: cs1_def)
  then have nan: "NaN \<notin> cand_score ` set cs1" using unit_fltD(2) by force
  have elig: "eligible (Num 0 0) cs1 = set cs1"
    using unit unit_fltD by (fastforce simp: eligible_def flt_ge_fkey f32_consts)
  have dist: "distinct (map cand_ref ex_priced)" by (simp add: ex_priced_def cand_ref_def)
  have len: "length cs1 = 3" "distinct cs1"
    by (simp_all add: cs1_def ex_priced_def)
  have scorers: "scorer S1" "scorer S2" by (simp_all add: S1_def S2_def fw.scorer_axioms)
  obtain A where "A \<subseteq> set cs1" "card A = min 1 (card (set cs1))" "\<forall>i < length cs1. cs1 ! i \<in> A \<or> out ! i = cs1 ! i"
    using cascade_rescores_best [OF scorers dist stage1 nan run] unfolding elig by (auto split: if_splits)
  moreover have "card (set cs1) = 3" using len by (simp add: distinct_card)
  ultimately show ?thesis
    using run len unfolding S1_def S2_def cs1_def by (intro exI [of _ A] exI conjI refl) auto
qed

section \<open>Assignment to the arms\<close>

text \<open>
  Assignment to the arms is stable while an experiment is ramped up: a user in the treatment arm
  stays there when the treatment share grows. Anonymous requests are always in control, a share of 0
  puts everyone in control and a share of 1 every identified user in treatment.
\<close>

theorem ab_ramp_up_stable:
  "(flt_le share share' \<and> pick_arm share seed uid = Treatment \<longrightarrow> pick_arm share' seed uid = Treatment) \<and>
   pick_arm share seed [] = Control \<and> pick_arm f32_0 seed uid = Control \<and>
   (pick_arm f32_1 seed uid = Treatment \<longleftrightarrow> uid \<noteq> [])"
proof -
  define bucket where
    "bucket = flt_div binary32 (flt_of_int binary32 (uint (fnv1a seed uid mod 10000))) (flt_lit binary32 10000 1)"
  have "flt_lit binary32 10000 1 = Num 625 4" by code_simp
  then have "bucket \<noteq> NaN"
    unfolding bucket_def using flt_of_int_def [of binary32] rnd_not_NaN
    by (cases "flt_of_int binary32 (uint (fnv1a seed uid mod 10000))") (auto simp: flt_inf_def)
  moreover have "f32_0 \<noteq> NaN" "f32_1 \<noteq> NaN" by (simp_all add: f32_consts)
  ultimately have "pick_arm share' seed uid = Treatment"
    if "flt_le share share'" "pick_arm share seed uid = Treatment"
  proof -
    have num: "share \<noteq> NaN" "share' \<noteq> NaN" 
      using that(1) partial_cmp_None_iff [of share share'] unfolding flt_le_def by (metis option.distinct(1))+
    then show ?thesis
      using that \<open>bucket \<noteq> NaN\<close> \<open>f32_0 \<noteq> NaN\<close> \<open>f32_1 \<noteq> NaN\<close> unfolding pick_arm_def bucket_def [symmetric] Let_def
      by (auto simp: flt_le_fkey flt_ge_fkey flt_lt_fkey split: if_splits)
  qed
  moreover have "flt_le f32_0 f32_0" "\<not> flt_le f32_1 f32_0" "flt_ge f32_1 f32_1" by code_simp+
  ultimately show ?thesis by (auto simp: pick_arm_def)
qed

theorem ab_ramp_up_stable_witness:
  "pick_arm (Num 1 (- 1)) ''exp'' ''user-2'' = Treatment \<and> pick_arm (Num 3 (- 2)) ''exp'' ''user-2'' = Treatment"
proof -
  have "pick_arm (Num 1 (- 1)) ''exp'' ''user-2'' = Treatment" "flt_le (Num 1 (- 1)) (Num 3 (- 2))" by code_simp+
  then show ?thesis using ab_ramp_up_stable [of "Num 1 (- 1)" "Num 3 (- 2)" "''exp''" "''user-2''"] by blast
qed

end
