(* ===== verification/Bid_Pipeline.thy ===== *)
theory Bid_Pipeline
  imports Candidate_Limit Scorer_Tree Auction_Stages
begin

text \<open>
  The last stage, \<open>pipeline/stages/response_build.rs\<close> with the types of \<open>notice.rs\<close>, and the
  pipeline that \<open>main.rs\<close> assembles from all nine stages.

  The record \<open>wiring\<close> holds what \<open>main.rs\<close> passes to the stages. The locale \<open>wired\<close> collects the
  contracts the stages rely on (bitmaps, scorer, pacer); in it, \<open>phase k\<close> says what holds before
  stage \<open>k\<close>, and the properties of a whole run follow from \<open>pipeline_phases\<close>.
\<close>

section \<open>Notice URLs\<close>

record win_notice_request =
  wnr_request_id :: string
  wnr_imp_id :: string
  wnr_campaign_id :: u32
  wnr_creative_id :: u32
  wnr_clearing_price_micros :: i64
  wnr_user_id :: string
  wnr_exchange_id :: string

type_synonym notice_url_builder = "win_notice_request \<Rightarrow> string option"

definition no_notice_url :: notice_url_builder where
  "no_notice_url req = None"

section \<open>The response\<close>

text \<open>\<open>json!\<close> of a float: a number that is not finite becomes null.\<close>

fun json_of_flt :: "flt \<Rightarrow> json" where
  "json_of_flt (Num m e) = JNumber (Num m e)"
| "json_of_flt x = JNull"

definition winner_notice :: "string \<Rightarrow> bid_request \<Rightarrow> imp_winner \<Rightarrow> win_notice_request" where
  "winner_notice exchange_id req v =
     \<lparr>wnr_request_id = req_id req, wnr_imp_id = win_imp_id v, wnr_campaign_id = win_campaign_id v,
      wnr_creative_id = win_creative_id v, wnr_clearing_price_micros = win_bid_price_cents v * 10000,
      wnr_user_id = (case request_user_id req of Some uid \<Rightarrow> uid | None \<Rightarrow> []), wnr_exchange_id = exchange_id\<rparr>"

definition usd_of_cents :: "i32 \<Rightarrow> flt" where
  "usd_of_cents c = flt_div binary64 (flt_of_int binary64 c) (flt_lit binary64 100 1)"

definition winner_bid :: "notice_url_builder \<Rightarrow> string \<Rightarrow> bid_request \<Rightarrow> imp_winner \<Rightarrow> bid" where
  "winner_bid urls exchange_id req v =
     \<lparr>bid_id = req_id req @ ''-'' @ win_imp_id v, bid_impid = win_imp_id v,
      bid_price = usd_of_cents (win_bid_price_cents v), bid_adid = Some (u32_str (win_creative_id v)),
      bid_nurl = urls (winner_notice exchange_id req v), bid_burl = None, bid_lurl = None, bid_adm = None,
      bid_adomain = None, bid_bundle = None, bid_iurl = None, bid_cid = Some (u32_str (win_campaign_id v)),
      bid_crid = Some (u32_str (win_creative_id v)), bid_tactic = None, bid_cat = [], bid_attr = [],
      bid_api = None, bid_protocol = None, bid_qagmediarating = None, bid_language = None, bid_dealid = None,
      bid_w = None, bid_h = None, bid_wratio = None, bid_hratio = None, bid_exp = None,
      bid_ext_value = Some (JObject [(''bidder_pctr'', json_of_flt (win_score v)), (''bidder_score'', json_of_flt (win_score v))])\<rparr>"

definition winners_response :: "notice_url_builder \<Rightarrow> string \<Rightarrow> bid_request \<Rightarrow> imp_winner list \<Rightarrow> bid_response" where
  "winners_response urls exchange_id req ws =
     \<lparr>resp_id = req_id req,
      resp_seatbid = [\<lparr>sb_bid = map (winner_bid urls exchange_id req) ws, sb_seat = None, sb_group = 0, sb_ext_value = None\<rparr>],
      resp_bidid = None, resp_cur = Some ''USD'', resp_customdata = None, resp_nbr = None, resp_ext_value = None\<rparr>"

definition response_build_stage :: "notice_url_builder \<Rightarrow> string \<Rightarrow> ('b, 'w) stage" where
  "response_build_stage urls exchange_id =
     \<lparr>st_name = ''response_build'',
      st_execute = (\<lambda>ctx w.
        let outcome = (if ctx_outcome ctx = Pending then NoBid NO_ELIGIBLE_BIDS else ctx_outcome ctx);
            response = (case outcome of
                          NoBid reason \<Rightarrow> no_bid (req_id (ctx_request ctx)) reason
                        | _ \<Rightarrow> winners_response urls exchange_id (ctx_request ctx) (ctx_winners ctx))
        in (Inr (), ctx\<lparr>ctx_outcome := outcome, ctx_bid_response := Some response\<rparr>, w))\<rparr>"

section \<open>The pipeline of the server\<close>

record ('b, 'r, 's, 'f, 'p) wiring =
  wi_segments :: "'r segment_source"
  wi_bitmaps :: "'b bitmap_ops"
  wi_max_candidates_per_imp :: usize
  wi_scorer :: "'s scorer_ops"
  wi_scoring_secs :: u64
  wi_capper :: "'f capper_ops"
  wi_capping_secs :: u64
  wi_pacer :: "'p budget_pacer_ops"
  wi_notice_urls :: notice_url_builder
  wi_exchange_id :: string

definition bidder_pipeline ::
  "latency_budget_config \<Rightarrow> ('b, 'r, 's, 'f, 'p) wiring \<Rightarrow> ('b, ('b, 'r, 's, 'f, 'p) services) pipeline" where
  "bidder_pipeline budget D =
     add_stage (response_build_stage (wi_notice_urls D) (wi_exchange_id D))
     (add_stage (ranking_stage (wi_pacer D))
     (add_stage (budget_pacing_stage (wi_pacer D))
     (add_stage (freq_cap_stage (wi_capper D) (wi_capping_secs D))
     (add_stage (scoring_stage (wi_scorer D) (wi_scoring_secs D))
     (add_stage (candidate_limit_stage (wi_max_candidates_per_imp D))
     (add_stage (candidate_retrieval_stage (wi_bitmaps D))
     (add_stage (user_enrichment_stage (wi_segments D))
     (add_stage request_validation_stage
        (pipeline_new budget)))))))))"

definition bidder_stages :: "('b, 'r, 's, 'f, 'p) wiring \<Rightarrow> ('b, ('b, 'r, 's, 'f, 'p) services) stage list" where
  "bidder_stages D =
     [request_validation_stage, user_enrichment_stage (wi_segments D), candidate_retrieval_stage (wi_bitmaps D),
      candidate_limit_stage (wi_max_candidates_per_imp D), scoring_stage (wi_scorer D) (wi_scoring_secs D),
      freq_cap_stage (wi_capper D) (wi_capping_secs D), budget_pacing_stage (wi_pacer D), ranking_stage (wi_pacer D),
      response_build_stage (wi_notice_urls D) (wi_exchange_id D)]"

lemma bidder_pipeline_stages [simp]: "pl_stages (bidder_pipeline budget D) = bidder_stages D"
  by (simp add: bidder_pipeline_def bidder_stages_def add_stage_def pipeline_new_def)

lemma length_bidder_stages: "length (bidder_stages D) = 9"
  by (simp add: bidder_stages_def)

section \<open>What the candidates are\<close>

text \<open>
  The candidates of impression \<open>i\<close>: one per campaign, each offering a creative of a campaign of the
  catalog that matches the request, and none reported as capped.
\<close>

definition offers :: "('b \<Rightarrow> u32 set) \<Rightarrow> 'b campaign_catalog \<Rightarrow> 'b bid_context \<Rightarrow> nat \<Rightarrow> ad_candidate \<Rightarrow> bool" where
  "offers bits C ctx i a \<longleftrightarrow>
     i < length (req_imp (ctx_request ctx)) \<and>
     candidate_from C (imp_ad_format (req_imp (ctx_request ctx) ! i)) a \<and>
     matches bits C (imp_request ctx (req_imp (ctx_request ctx) ! i)) (cand_campaign_id a) \<and>
     (i, cand_campaign_id a, True) \<notin> set (ctx_freq_cap_results ctx)"

definition offered :: "('b \<Rightarrow> u32 set) \<Rightarrow> 'b campaign_catalog \<Rightarrow> 'b bid_context \<Rightarrow> bool" where
  "offered bits C ctx \<longleftrightarrow>
     (\<forall>i < length (ctx_candidates ctx). distinct_campaigns (ctx_candidates ctx ! i) \<and>
        (\<forall>a \<in> set (ctx_candidates ctx ! i). offers bits C ctx i a))"

text \<open>What limiting, scoring, capping and pacing do to the candidates of an impression.\<close>

definition thins :: "ad_candidate list \<Rightarrow> ad_candidate list \<Rightarrow> bool" where
  "thins cs cs' \<longleftrightarrow> (distinct_campaigns cs \<longrightarrow> distinct_campaigns cs') \<and> unscored ` set cs' \<subseteq> unscored ` set cs"

lemma thins_filter [simp]: "thins cs (filter P cs)"
  by (auto simp: thins_def distinct_campaigns_def distinct_map_filter)

lemma thins_refl [simp]: "thins cs cs"
  by (simp add: thins_def)

lemma thins_limit: "thins cs (limit_candidates k cs)"
  using limit_candidates_subset [of k cs] limit_candidates_distinct [of cs k]
  by (auto simp: thins_def distinct_campaigns_def)

lemma unscored_ids: "map cand_campaign_id (map unscored cs) = map cand_campaign_id cs"
  by (simp add: unscored_def)

lemma thins_scored:
  assumes "map unscored cs' = map unscored cs"
  shows "thins cs cs'"
proof -
  have "map cand_campaign_id cs' = map cand_campaign_id cs"
    using arg_cong [OF assms, of "map cand_campaign_id"] unfolding unscored_ids .
  moreover have "unscored ` set cs' = unscored ` set cs" using arg_cong [OF assms, of set] unfolding set_map .
  ultimately show ?thesis by (simp add: thins_def distinct_campaigns_def)
qed

lemma offers_unscored:
  assumes "unscored a = unscored b"
  shows "offers bits C ctx i a = offers bits C ctx i b"
  unfolding offers_def candidate_from_def unscored_fields [OF assms] ..

lemma offered_thins:
  assumes "offered bits C ctx" "list_all2 thins (ctx_candidates ctx) css"
    and "ctx_request ctx' = ctx_request ctx" "ctx_segment_ids ctx' = ctx_segment_ids ctx"
      "ctx_freq_cap_results ctx' = ctx_freq_cap_results ctx" "ctx_candidates ctx' = css"
  shows "offered bits C ctx'"
proof -
  have same: "offers bits C ctx' i a = offers bits C ctx i a" for i a
    using assms(3-5) by (simp add: offers_def imp_request_def)
  have "offers bits C ctx i a" if i: "i < length css" and a: "a \<in> set (css ! i)" for i a
  proof -
    have "thins (ctx_candidates ctx ! i) (css ! i)" using assms(2) i by (simp add: list_all2_conv_all_nth)
    then obtain b where b: "b \<in> set (ctx_candidates ctx ! i)" "unscored a = unscored b"
      using a unfolding thins_def by blast
    then have "offers bits C ctx i b" using assms(1,2) i by (auto simp: offered_def list_all2_conv_all_nth)
    then show ?thesis using offers_unscored [OF b(2)] by (rule iffD2 [rotated])
  qed
  then show ?thesis
    using assms(1,2,6) same by (auto simp: offered_def thins_def list_all2_conv_all_nth)
qed

section \<open>What holds before each stage\<close>

text \<open>
  \<open>taken k ctx c\<close> is what the request has taken from campaign \<open>c\<close> before stage \<open>k\<close>: nothing until
  pacing, then the prices of its candidates, and after ranking those of its winners.
\<close>

definition taken :: "nat \<Rightarrow> 'b bid_context \<Rightarrow> campaign_id \<Rightarrow> int" where
  "taken k ctx = (if k \<le> 6 then (\<lambda>c. 0) else if k = 7 then held (concat (ctx_candidates ctx)) else sold (ctx_winners ctx))"

text \<open>Every winner is a candidate of its own impression.\<close>

definition winners_from :: "'b bid_context \<Rightarrow> bool" where
  "winners_from ctx \<longleftrightarrow>
     (\<exists>best. ctx_winners ctx = map (\<lambda>i. winner_of (ctx_request ctx) i (best i)) (open_imps 0 (ctx_candidates ctx)) \<and>
        (\<forall>i \<in> set (open_imps 0 (ctx_candidates ctx)). best i \<in> set (ctx_candidates ctx ! i)))"

definition phase ::
  "('b, 'r, 's, 'f, 'p) wiring \<Rightarrow> ('b \<Rightarrow> u32 set) \<Rightarrow> ('p \<Rightarrow> (campaign_id \<rightharpoonup> i64)) \<Rightarrow> ('p \<Rightarrow> bool)
   \<Rightarrow> bid_request \<Rightarrow> ('b, 'r, 's, 'f, 'p) services \<Rightarrow> nat \<Rightarrow> 'b bid_context \<Rightarrow> ('b, 'r, 's, 'f, 'p) services \<Rightarrow> bool" where
  "phase D bits remaining invar req w0 k ctx w \<longleftrightarrow>
     wf_catalog bits (sv_catalog w0) \<and> ctx_request ctx = req \<and> sv_catalog w = sv_catalog w0 \<and> offered bits (sv_catalog w0) ctx \<and>
     invar (sv_pacer w0) \<and> invar (sv_pacer w) \<and> remaining (sv_pacer w) = spend (taken k ctx) (remaining (sv_pacer w0)) \<and>
     (1 \<le> k \<longrightarrow> req_imp req \<noteq> []) \<and>
     (2 \<le> k \<longrightarrow> ctx_catalog ctx = Some (sv_catalog w0)) \<and>
     (k \<le> 2 \<longrightarrow> (\<forall>cs \<in> set (ctx_candidates ctx). cs = [])) \<and>
     (k \<le> 5 \<longrightarrow> ctx_freq_cap_results ctx = []) \<and>
     (k \<le> 7 \<longrightarrow> ctx_outcome ctx = Pending \<and> ctx_winners ctx = []) \<and>
     (8 \<le> k \<longrightarrow> ctx_outcome ctx = Bid \<and> ctx_winners ctx \<noteq> [] \<and> winners_from ctx) \<and>
     ctx_bid_response ctx =
       (if k \<le> 8 then None else Some (winners_response (wi_notice_urls D) (wi_exchange_id D) req (ctx_winners ctx)))"

lemma offered_no_candidates: "\<forall>cs \<in> set (ctx_candidates ctx). cs = [] \<Longrightarrow> offered bits C ctx"
  by (simp add: offered_def distinct_campaigns_def all_set_conv_all_nth)

lemma offered_distinct: "offered bits C ctx \<Longrightarrow> \<forall>cs \<in> set (ctx_candidates ctx). distinct_campaigns cs"
  by (auto simp: offered_def in_set_conv_nth)

lemma taken_simps [simp]:
  "k \<le> 6 \<Longrightarrow> taken k ctx = (\<lambda>c. 0)"
  "taken 7 ctx = held (concat (ctx_candidates ctx))"
  "8 \<le> k \<Longrightarrow> taken k ctx = sold (ctx_winners ctx)"
  by (simp_all add: taken_def)

locale wired =
  bm: roaring "wi_bitmaps D" bits + sc: scorer "wi_scorer D" + bp: budget_pacer "wi_pacer D" remaining invar
  for D :: "('b, 'r, 's, 'f, 'p) wiring" and bits and remaining and invar
begin

lemma phase_validation:
  assumes "phase D bits remaining invar req w0 0 ctx w" "st_execute request_validation_stage ctx w = (Inr (), ctx', w')"
    "\<not> is_no_bid (ctx_outcome ctx')"
  shows "phase D bits remaining invar req w0 1 ctx' w'"
  using assms by (auto simp: request_validation_stage_def phase_def Let_def split: if_splits)

lemma phase_enrichment:
  assumes "phase D bits remaining invar req w0 1 ctx w" "st_execute (user_enrichment_stage (wi_segments D)) ctx w = (Inr (), ctx', w')"
  shows "phase D bits remaining invar req w0 2 ctx' w'"
  using assms
  by (auto simp: user_enrichment_stage_def phase_def Let_def intro: offered_no_candidates
      split: option.splits prod.splits sum.splits)

lemma phase_retrieval:
  assumes "phase D bits remaining invar req w0 2 ctx w"
    "st_execute (candidate_retrieval_stage (wi_bitmaps D)) ctx w = (Inr (), ctx', w')"
  shows "phase D bits remaining invar req w0 3 ctx' w'"
proof (cases "catalog_is_empty (sv_catalog w0)")
  case True
  then have "ctx' = ctx" "w' = w" using assms by (auto simp: candidate_retrieval_stage_def phase_def)
  then show ?thesis using assms(1) by (simp add: phase_def)
next
  case False
  let ?C = "sv_catalog w0" and ?imps = "req_imp req"
  have ctx: "ctx_request ctx = req" "ctx_catalog ctx = Some ?C" "?imps \<noteq> []" "ctx_freq_cap_results ctx = []"
    using assms(1) by (simp_all add: phase_def)
  have run: "ctx' = ctx\<lparr>ctx_candidates := map (retrieve (wi_bitmaps D) ?C ctx) ?imps\<rparr>" "w' = w"
    using retrieval_execute [of ctx ?C "wi_bitmaps D" w] False assms(2) ctx by simp_all
  have match: "matches bits ?C (imp_request ctx x) (cand_campaign_id a)" if "a \<in> set (retrieve (wi_bitmaps D) ?C ctx x)" for a x
    using bm.retrieve_from(2) [OF that] bm.candidates_for_bits assms(1) by (simp add: phase_def)
  have "imp_request ctx' x = imp_request ctx x" for x using run by (simp add: imp_request_def)
  then have "offered bits ?C ctx'"
    using run ctx match bm.retrieve_from(1) bm.retrieve_distinct
    by (auto simp: offered_def offers_def distinct_campaigns_def)
  then show ?thesis using assms(1) run by (simp add: phase_def)
qed

lemma phase_limit:
  assumes "phase D bits remaining invar req w0 3 ctx w"
    "st_execute (candidate_limit_stage (wi_max_candidates_per_imp D)) ctx w = (Inr (), ctx', w')"
  shows "phase D bits remaining invar req w0 4 ctx' w'"
proof -
  let ?css = "map (limit_candidates (wi_max_candidates_per_imp D)) (ctx_candidates ctx)"
  have run: "ctx' = ctx\<lparr>ctx_candidates := ?css\<rparr>" "w' = w" using assms(2) by (simp_all add: candidate_limit_stage_def)
  have "list_all2 thins (ctx_candidates ctx) ?css" by (simp add: list_all2_conv_all_nth thins_limit)
  then have "offered bits (sv_catalog w0) ctx'"
    using offered_thins [of bits _ ctx ?css ctx'] assms(1) run by (simp add: phase_def)
  then show ?thesis using assms(1) run by (simp add: phase_def)
qed

lemma phase_scoring:
  assumes "phase D bits remaining invar req w0 4 ctx w"
    "st_execute (scoring_stage (wi_scorer D) (wi_scoring_secs D)) ctx w = (Inr (), ctx', w')"
  shows "phase D bits remaining invar req w0 5 ctx' w'"
proof -
  let ?f = "\<lambda>i cs s. if cs = [] then (cs, s) else sc_score_all (wi_scorer D) (imp_scoring_context (wi_scoring_secs D) ctx i) cs s"
  obtain css s where css: "mapi_state ?f 0 (ctx_candidates ctx) (sv_scorer w) = (css, s)"
    by (cases "mapi_state ?f 0 (ctx_candidates ctx) (sv_scorer w)")
  have run: "ctx' = ctx\<lparr>ctx_candidates := css\<rparr>" "w' = w\<lparr>sv_scorer := s\<rparr>"
    using assms(2) css by (simp_all add: scoring_stage_def)
  have "thins cs (fst (?f i cs st))" for i cs st
  proof (cases "sc_score_all (wi_scorer D) (imp_scoring_context (wi_scoring_secs D) ctx i) cs st")
    case (Pair cs' st')
    then show ?thesis using thins_scored [OF sc.keeps [OF Pair]] by simp
  qed
  then have "list_all2 thins (ctx_candidates ctx) css"
    using mapi_state_rel [of thins ?f "ctx_candidates ctx" 0 "sv_scorer w"] css by simp
  then have "offered bits (sv_catalog w0) ctx'"
    using offered_thins [of bits _ ctx css ctx'] assms(1) run by (simp add: phase_def)
  then show ?thesis using assms(1) run by (simp add: phase_def)
qed

lemma phase_capping:
  assumes "phase D bits remaining invar req w0 5 ctx w"
    "st_execute (freq_cap_stage (wi_capper D) (wi_capping_secs D)) ctx w = (Inr (), ctx', w')"
  shows "phase D bits remaining invar req w0 6 ctx' w'"
proof (cases "request_user_id (ctx_request ctx)")
  case None
  then show ?thesis using assms by (auto simp: freq_cap_stage_def phase_def)
next
  case (Some uid)
  define dt where "dt = (case request_device_type (ctx_request ctx) of Some dt \<Rightarrow> device_type_raw dt | None \<Rightarrow> 0)"
  obtain css rs f where css: "mapi_state (cap_imp (wi_capper D) uid dt (current_hour_of_day (wi_capping_secs D))) 0
      (ctx_candidates ctx) ([], sv_capper w) = (css, rs, f)"
    using prod_cases3 by blast
  have run: "ctx' = ctx\<lparr>ctx_candidates := css, ctx_freq_cap_results := rs\<rparr>" "w' = w\<lparr>sv_capper := f\<rparr>"
    using assms Some css by (auto simp: freq_cap_stage_def Let_def dt_def phase_def)
  have kept: "length css = length (ctx_candidates ctx)" "\<forall>i < length (ctx_candidates ctx).
      css ! i = filter (\<lambda>c. (i, cand_campaign_id c, True) \<notin> set rs) (ctx_candidates ctx ! i)"
    using cap_all_filters [OF css] by auto
  have "offered bits (sv_catalog w0) ctx" using assms(1) by (simp add: phase_def)
  then have "offered bits (sv_catalog w0) ctx'"
    using run kept by (auto simp: offered_def offers_def imp_request_def distinct_campaigns_def distinct_map_filter)
  then show ?thesis using assms(1) run by (simp add: phase_def)
qed

lemma phase_pacing:
  assumes "phase D bits remaining invar req w0 6 ctx w"
    "st_execute (budget_pacing_stage (wi_pacer D)) ctx w = (Inr (), ctx', w')"
  shows "invar (sv_pacer w')"
    and "\<not> is_no_bid (ctx_outcome ctx') \<Longrightarrow> phase D bits remaining invar req w0 7 ctx' w'"
    and "is_no_bid (ctx_outcome ctx') \<Longrightarrow> remaining (sv_pacer w') = remaining (sv_pacer w0)"
proof -
  have ctx: "offered bits (sv_catalog w0) ctx" "invar (sv_pacer w)" "ctx_outcome ctx = Pending"
      "remaining (sv_pacer w) = remaining (sv_pacer w0)" "invar (sv_pacer w0)"
    using assms(1) spend_zero [OF bp.invar_balances] by (simp_all add: phase_def)
  obtain css p where css: "mapi_state (pace_imp (wi_pacer D)) 0 (ctx_candidates ctx) (sv_pacer w) = (css, p)"
    by (cases "mapi_state (pace_imp (wi_pacer D)) 0 (ctx_candidates ctx) (sv_pacer w)")
  have run: "ctx' = (if \<forall>cs \<in> set css. cs = [] then ctx\<lparr>ctx_candidates := css, ctx_outcome := NoBid NO_ELIGIBLE_BIDS\<rparr>
      else ctx\<lparr>ctx_candidates := css\<rparr>)" "w' = w\<lparr>sv_pacer := p\<rparr>"
    using assms(2) css by (auto simp: budget_pacing_stage_def Let_def)
  have paced: "invar p" "remaining p = spend (held (concat css)) (remaining (sv_pacer w))"
      "list_all2 (\<lambda>cs' cs. set cs' \<subseteq> set cs \<and> distinct_campaigns cs') css (ctx_candidates ctx)"
    using bp.pace_all_remaining [OF ctx(2) offered_distinct [OF ctx(1)] css] by simp_all
  then show "invar (sv_pacer w')" using run by simp
  have "list_all2 thins (ctx_candidates ctx) css"
    using paced(3) by (simp add: list_all2_conv_all_nth thins_def image_mono)
  then show "phase D bits remaining invar req w0 7 ctx' w'" if "\<not> is_no_bid (ctx_outcome ctx')"
    using that assms(1) run paced ctx offered_thins [of bits _ ctx css ctx'] by (auto simp: phase_def split: if_splits)
  show "remaining (sv_pacer w') = remaining (sv_pacer w0)" if "is_no_bid (ctx_outcome ctx')"
  proof -
    have "\<forall>cs \<in> set css. cs = []" using that run(1) ctx(3) by (auto split: if_splits)
    then have "held (concat css) = (\<lambda>c. 0)" by (metis concat_eq_Nil_conv held_simps(1))
    then show ?thesis using run paced(2) ctx(4) spend_zero [OF bp.invar_balances [OF ctx(5)]] by simp
  qed
qed

lemma phase_ranking:
  assumes "phase D bits remaining invar req w0 7 ctx w"
    "st_execute (ranking_stage (wi_pacer D)) ctx w = (Inr (), ctx', w')"
  shows "\<not> is_no_bid (ctx_outcome ctx') \<Longrightarrow> phase D bits remaining invar req w0 8 ctx' w'"
    and "is_no_bid (ctx_outcome ctx') \<Longrightarrow> remaining (sv_pacer w') = remaining (sv_pacer w0)"
    and "invar (sv_pacer w')"
proof -
  let ?css = "ctx_candidates ctx"
  have ctx: "offered bits (sv_catalog w0) ctx" "invar (sv_pacer w)" "ctx_winners ctx = []" "ctx_request ctx = req"
      "remaining (sv_pacer w) = spend (held (concat ?css)) (remaining (sv_pacer w0))" "invar (sv_pacer w0)"
    using assms(1) by (simp_all add: phase_def)
  obtain ws p where ws: "mapi_state (rank_imp (wi_pacer D) req) 0 ?css (sv_pacer w) = (ws, p)"
    by (cases "mapi_state (rank_imp (wi_pacer D) req) 0 ?css (sv_pacer w)")
  have run: "ctx' = ctx\<lparr>ctx_winners := somes ws, ctx_outcome := (if somes ws = [] then NoBid NO_ELIGIBLE_BIDS else Bid)\<rparr>"
      "w' = w\<lparr>sv_pacer := p\<rparr>"
    using assms(2) ws ctx by (auto simp: ranking_stage_def Let_def)
  have "(\<lambda>c. held (concat ?css) c + (sold (somes ws) c - held (concat ?css) c)) = sold (somes ws)" by simp
  then have paid: "invar p" "remaining p = spend (sold (somes ws)) (remaining (sv_pacer w0))"
    using bp.rank_all_remaining [OF ctx(2) offered_distinct [OF ctx(1)] ws] ctx(5) by simp_all
  then show "invar (sv_pacer w')" using run(2) by simp
  show "remaining (sv_pacer w') = remaining (sv_pacer w0)" if "is_no_bid (ctx_outcome ctx')"
    using that run paid(2) spend_zero [OF bp.invar_balances [OF ctx(6)]] by (auto split: if_splits)
  have "somes ws = map (\<lambda>i. winner_of req i (the (max_by rank_cmp (?css ! i)))) (open_imps 0 ?css)"
    using rank_all_winners [of "wi_pacer D" req 0 ?css "sv_pacer w"] ws by simp
  moreover have "the (max_by rank_cmp (?css ! i)) \<in> set (?css ! i)" if "i \<in> set (open_imps 0 ?css)" for i
  proof (cases "max_by rank_cmp (?css ! i)")
    case None
    then show ?thesis using open_imps_bounds [OF that] by simp
  next
    case (Some a)
    then show ?thesis using max_by_in [OF Some] by simp
  qed
  ultimately have "winners_from ctx'" using run(1) ctx(4) unfolding winners_from_def by force
  moreover have "offered bits (sv_catalog w0) ctx'"
    using offered_thins [of bits _ ctx ?css ctx'] ctx(1) run(1) by (simp add: list_all2_refl)
  ultimately show "phase D bits remaining invar req w0 8 ctx' w'" if "\<not> is_no_bid (ctx_outcome ctx')"
    using that assms(1) run paid by (auto simp: phase_def split: if_splits)
qed

lemma phase_response:
  assumes "phase D bits remaining invar req w0 8 ctx w"
    "st_execute (response_build_stage (wi_notice_urls D) (wi_exchange_id D)) ctx w = (Inr (), ctx', w')"
  shows "phase D bits remaining invar req w0 9 ctx' w'"
proof -
  have run: "ctx' = ctx\<lparr>ctx_outcome := Bid,
      ctx_bid_response := Some (winners_response (wi_notice_urls D) (wi_exchange_id D) req (ctx_winners ctx))\<rparr>" "w' = w"
    using assms by (auto simp: response_build_stage_def phase_def Let_def)
  then have "offered bits (sv_catalog w0) ctx'"
    using offered_thins [of bits _ ctx "ctx_candidates ctx" ctx'] assms(1) by (simp add: phase_def list_all2_refl)
  moreover have "winners_from ctx' = winners_from ctx" using run by (simp add: winners_from_def)
  ultimately show ?thesis using assms(1) run by (simp add: phase_def)
qed

lemma stages_upto: "k < length (bidder_stages D) \<Longrightarrow> k \<in> {0, 1, 2, 3, 4, 5, 6, 7, 8}"
  by (auto simp: bidder_stages_def)

lemmas phase_lemmas = phase_validation phase_enrichment phase_retrieval phase_limit phase_scoring phase_capping
  phase_pacing(2) phase_ranking(1) phase_response

lemma phase_step:
  assumes "k < length (bidder_stages D)" "phase D bits remaining invar req w0 k ctx w"
    "st_execute (bidder_stages D ! k) ctx w = (Inr (), ctx', w')" "\<not> is_no_bid (ctx_outcome ctx')"
  shows "phase D bits remaining invar req w0 (Suc k) ctx' w'"
  using stages_upto [OF assms(1)] assms(2-4) phase_lemmas [of req w0 ctx w ctx' w']
  by (auto simp: bidder_stages_def numeral_2_eq_2 [symmetric])

end

sublocale wired \<subseteq> phases: pipeline_phases "bidder_stages D" "phase D bits remaining invar req w0" for req w0
  by unfold_locales (rule phase_step)

section \<open>How a request ends\<close>

text \<open>No stage returns an error, and only validation, pacing and ranking decide not to bid.\<close>

lemma stage_never_fails:
  assumes "n < length (bidder_stages D)" "st_execute (bidder_stages D ! n) ctx w = (r, ctx', w')"
  shows "r = Inr ()"
proof -
  have "n \<in> {0, 1, 2, 3, 4, 5, 6, 7, 8}" using assms(1) by (auto simp: bidder_stages_def)
  then show ?thesis
    using assms(2)
    by (auto simp: bidder_stages_def request_validation_stage_def user_enrichment_stage_def candidate_retrieval_stage_def
        candidate_limit_stage_def scoring_stage_def freq_cap_stage_def budget_pacing_stage_def ranking_stage_def
        response_build_stage_def Let_def split: if_splits option.splits prod.splits sum.splits)
qed

lemma stage_stops:
  assumes "n < length (bidder_stages D)" "st_execute (bidder_stages D ! n) ctx w = (r, ctx', w')"
    and "is_no_bid (ctx_outcome ctx')" "\<not> is_no_bid (ctx_outcome ctx)" "8 \<le> n \<longrightarrow> ctx_outcome ctx = Bid"
  shows "n = 0 \<and> w' = w \<or> n = 6 \<or> n = 7" and "ctx_bid_response ctx' = ctx_bid_response ctx"
proof -
  have n: "n \<in> {0, 1, 2, 3, 4, 5, 6, 7, 8}" using assms(1) by (auto simp: bidder_stages_def)
  then show "n = 0 \<and> w' = w \<or> n = 6 \<or> n = 7"
    using assms(2-5)
    by (auto simp: bidder_stages_def request_validation_stage_def user_enrichment_stage_def candidate_retrieval_stage_def
        candidate_limit_stage_def scoring_stage_def freq_cap_stage_def
        response_build_stage_def Let_def split: if_splits option.splits prod.splits sum.splits)
  then show "ctx_bid_response ctx' = ctx_bid_response ctx"
    using assms(2)
    by (auto simp: bidder_stages_def request_validation_stage_def budget_pacing_stage_def ranking_stage_def Let_def
        split: if_splits prod.splits)
qed

context wired
begin

lemma phase_start:
  "wf_catalog bits (sv_catalog w) \<Longrightarrow> invar (sv_pacer w) \<Longrightarrow> phase D bits remaining invar req w 0 (bid_context_new req t) w"
  using spend_zero [OF bp.invar_balances [of "sv_pacer w"]]
  by (auto simp: phase_def bid_context_new_def Let_def intro: offered_no_candidates)

lemma stop_unpaid:
  assumes "n < length (bidder_stages D)" "phase D bits remaining invar req w0 n ctx w"
    "st_execute (bidder_stages D ! n) ctx w = (Inr (), ctx', w')" "is_no_bid (ctx_outcome ctx')"
  shows "remaining (sv_pacer w') = remaining (sv_pacer w0) \<and> ctx_bid_response ctx' = None"
proof -
  have out: "\<not> is_no_bid (ctx_outcome ctx)" "8 \<le> n \<longrightarrow> ctx_outcome ctx = Bid"
    using assms(2) by (cases "n \<le> 7"; simp add: phase_def)+
  note stop = stage_stops [OF assms(1,3,4) out]
  have w0: "invar (sv_pacer w0)" using assms(2) by (simp add: phase_def)
  from stop(1) consider "n = 0" "w' = w" | "n = 6" | "n = 7" by blast
  then show ?thesis
  proof cases
    case 1
    then show ?thesis using assms(2) stop(2) spend_zero [OF bp.invar_balances [OF w0]] by (simp add: phase_def)
  next
    case 2
    then show ?thesis using phase_pacing(3) [of req w0 ctx w ctx' w'] assms stop(2) by (simp add: bidder_stages_def phase_def)
  next
    case 3
    then show ?thesis using phase_ranking(2) [of req w0 ctx w ctx' w'] assms stop(2) by (simp add: bidder_stages_def phase_def)
  qed
qed

lemma stop_keeps:
  assumes "n < length (bidder_stages D)" "phase D bits remaining invar req w0 n ctx w"
    "st_execute (bidder_stages D ! n) ctx w = (Inr (), ctx', w')" "is_no_bid (ctx_outcome ctx')"
  shows "sv_catalog w' = sv_catalog w0 \<and> invar (sv_pacer w')"
proof -
  have out: "\<not> is_no_bid (ctx_outcome ctx)" "8 \<le> n \<longrightarrow> ctx_outcome ctx = Bid"
    using assms(2) by (cases "n \<le> 7"; simp add: phase_def)+
  from stage_stops(1) [OF assms(1,3,4) out] consider "n = 0" "w' = w" | "n = 6" | "n = 7" by blast
  then have "sv_catalog w' = sv_catalog w \<and> invar (sv_pacer w')"
  proof cases
    case 1
    then show ?thesis using assms(2) by (simp add: phase_def)
  next
    case 2
    then show ?thesis using phase_pacing(1) [of req w0 ctx w ctx' w'] assms(2,3)
      by (auto simp: bidder_stages_def budget_pacing_stage_def Let_def split: if_splits prod.splits)
  next
    case 3
    then show ?thesis using phase_ranking(3) [of req w0 ctx w ctx' w'] assms(2,3)
      by (auto simp: bidder_stages_def ranking_stage_def Let_def split: if_splits prod.splits)
  qed
  then show ?thesis using assms(2) by (simp add: phase_def)
qed

lemma run_keeps:
  assumes "wf_catalog bits (sv_catalog w)" "invar (sv_pacer w)"
    and run: "pipeline_execute now (bidder_pipeline budget D) (bid_context_new req t) w = (r, ctx', w')"
  shows "sv_catalog w' = sv_catalog w \<and> invar (sv_pacer w')"
proof -
  have "run_ends (bidder_stages D) (phase D bits remaining invar req w) r ctx' w'"
    using phases.pipeline_ends [OF run] phase_start [OF assms(1,2)] by simp
  then show ?thesis
  proof cases
    case (failed n ctx w1 e)
    then show ?thesis using stage_never_fails by blast
  next
    case (stopped n ctx w1)
    then show ?thesis using stop_keeps [OF stopped(2-5)] by simp
  qed (simp_all add: phase_def)
qed

lemma run_result:
  assumes "wf_catalog bits (sv_catalog w)" "invar (sv_pacer w)"
    and run: "pipeline_execute now (bidder_pipeline budget D) (bid_context_new req t) w = (r, ctx', w')"
  shows "r = Inr ()"
    and "phase D bits remaining invar req w 9 ctx' w' \<or>
      (\<exists>reason. ctx_outcome ctx' = NoBid reason \<and> ctx_bid_response ctx' = None \<and>
         (reason = PIPELINE_DEADLINE \<or> remaining (sv_pacer w') = remaining (sv_pacer w)))"
proof -
  have "run_ends (bidder_stages D) (phase D bits remaining invar req w) r ctx' w'"
    using phases.pipeline_ends [OF run] phase_start [OF assms(1,2)] by simp
  then have "r = Inr () \<and> (phase D bits remaining invar req w 9 ctx' w' \<or>
      (\<exists>reason. ctx_outcome ctx' = NoBid reason \<and> ctx_bid_response ctx' = None \<and>
         (reason = PIPELINE_DEADLINE \<or> remaining (sv_pacer w') = remaining (sv_pacer w))))"
  proof cases
    case finished
    then show ?thesis by (simp add: length_bidder_stages)
  next
    case (dropped n ctx)
    then show ?thesis by (auto simp: phase_def length_bidder_stages)
  next
    case (failed n ctx w1 e)
    then show ?thesis using stage_never_fails by blast
  next
    case (stopped n ctx w1)
    then show ?thesis using stop_unpaid [OF stopped(2-5)] by (auto simp: is_no_bid_iff)
  qed
  then show "r = Inr ()" "phase D bits remaining invar req w 9 ctx' w' \<or>
      (\<exists>reason. ctx_outcome ctx' = NoBid reason \<and> ctx_bid_response ctx' = None \<and>
         (reason = PIPELINE_DEADLINE \<or> remaining (sv_pacer w') = remaining (sv_pacer w)))"
    by simp_all
qed

lemma phase_end_bid:
  assumes "phase D bits remaining invar req w0 9 ctx w" "v \<in> set (ctx_winners ctx)"
  shows "\<exists>i a. i < length (req_imp req) \<and> v = winner_of req i a \<and> win_imp_id v = imp_id (req_imp req ! i) \<and>
    offers bits (sv_catalog w0) ctx i a"
proof -
  obtain best where best: "ctx_winners ctx = map (\<lambda>i. winner_of req i (best i)) (open_imps 0 (ctx_candidates ctx))"
      "\<forall>i \<in> set (open_imps 0 (ctx_candidates ctx)). best i \<in> set (ctx_candidates ctx ! i)"
    using assms(1) by (auto simp: phase_def winners_from_def)
  then obtain i where i: "i \<in> set (open_imps 0 (ctx_candidates ctx))" "v = winner_of req i (best i)" using assms(2) by auto
  have "offers bits (sv_catalog w0) ctx i (best i)"
    using assms(1) best(2) i(1) open_imps_bounds [OF i(1)] by (simp add: phase_def offered_def)
  moreover have "ctx_request ctx = req" using assms(1) by (simp add: phase_def)
  ultimately show ?thesis using i(2) by (auto simp: offers_def winner_of_def winner_imp_id_def)
qed

lemma phase_end_imps:
  assumes "phase D bits remaining invar req w0 9 ctx w"
  shows "map win_imp_id (ctx_winners ctx) = map (\<lambda>i. imp_id (req_imp req ! i)) (open_imps 0 (ctx_candidates ctx))"
    and "set (open_imps 0 (ctx_candidates ctx)) \<subseteq> {..<length (req_imp req)}"
proof -
  let ?open = "open_imps 0 (ctx_candidates ctx)"
  obtain best where best: "ctx_winners ctx = map (\<lambda>i. winner_of req i (best i)) ?open"
    using assms by (auto simp: phase_def winners_from_def)
  have inside: "i < length (req_imp req)" if i: "i \<in> set ?open" for i
  proof -
    obtain a where "a \<in> set (ctx_candidates ctx ! i)" using open_imps_bounds [OF i] by (cases "ctx_candidates ctx ! i") auto
    then show ?thesis using assms open_imps_bounds [OF i] by (auto simp: phase_def offered_def offers_def)
  qed
  then show "set ?open \<subseteq> {..<length (req_imp req)}" by auto
  show "map win_imp_id (ctx_winners ctx) = map (\<lambda>i. imp_id (req_imp req ! i)) ?open"
    using inside unfolding best by (simp add: winner_of_def winner_imp_id_def)
qed

lemma phase_end_one_per_imp:
  assumes "phase D bits remaining invar req w0 9 ctx w" "distinct (map imp_id (req_imp req))"
  shows "distinct (map win_imp_id (ctx_winners ctx))"
proof -
  let ?open = "open_imps 0 (ctx_candidates ctx)"
  have "distinct ?open" by (simp add: open_imps_def)
  moreover have "inj_on (\<lambda>i. imp_id (req_imp req ! i)) (set ?open)"
    using phase_end_imps(2) [OF assms(1)] assms(2) by (intro inj_onI) (metis distinct_conv_nth length_map lessThan_iff nth_map subsetD)
  ultimately show ?thesis by (simp add: phase_end_imps(1) [OF assms(1)] distinct_map)
qed

end

text \<open>The server's wiring: the local pacer, a scorer built from the configuration, any bitmaps that are sets.\<close>

lemma server_wired:
  assumes "roaring (wi_bitmaps D) bits" "build_scorer_root env cfg ms = (Inr (wi_scorer D), ms')" "wi_pacer D = LocalBudgetPacer"
  shows "wired D bits (\<lambda>s. s) balances_ok"
  using assms build_scorer_root_scorer [OF assms(2)] local_bp.budget_pacer_axioms by (simp add: wired_def)

definition default_wiring ::
  "'r segment_source \<Rightarrow> 'f capper_ops \<Rightarrow> notice_url_builder \<Rightarrow> string \<Rightarrow> usize \<Rightarrow> u64 \<Rightarrow> u64
   \<Rightarrow> (u32 set, 'r, models, 'f, local_pacer) wiring" where
  "default_wiring segs capper urls exchange_id top_k t1 t2 =
     \<lparr>wi_segments = segs, wi_bitmaps = set_bitmap, wi_max_candidates_per_imp = top_k,
      wi_scorer = feature_weighted_scorer fw_default, wi_scoring_secs = t1, wi_capper = capper, wi_capping_secs = t2,
      wi_pacer = LocalBudgetPacer, wi_notice_urls = urls, wi_exchange_id = exchange_id\<rparr>"

interpretation default_server: wired "default_wiring segs capper urls exchange_id top_k t1 t2" "\<lambda>b. b" "\<lambda>s. s" balances_ok
  for segs capper urls exchange_id top_k t1 t2
  using set_bm.roaring_axioms fw.scorer_axioms local_bp.budget_pacer_axioms by (simp add: wired_def default_wiring_def)

section \<open>Properties of a whole run\<close>

text \<open>The bids of a run that got to its end.\<close>

lemma ended_bid:
  assumes wired: "wired D bits (\<lambda>s. s) balances_ok" and ended: "phase D bits (\<lambda>s. s) balances_ok req w 9 ctx' w'"
    and bid: "sb \<in> set (resp_seatbid (winners_response (wi_notice_urls D) (wi_exchange_id D) req (ctx_winners ctx')))" "b \<in> set (sb_bid sb)"
  shows "\<exists>i c campaign creative. i < length (req_imp req) \<and> bid_impid b = imp_id (req_imp req ! i) \<and>
    campaign_of (sv_catalog w) c = Some campaign \<and>
    matches bits (sv_catalog w) (imp_request ctx' (req_imp req ! i)) c \<and>
    (i, c, True) \<notin> set (ctx_freq_cap_results ctx') \<and>
    creative \<in> set (creatives_for (sv_catalog w) c) \<and> servable (imp_ad_format (req_imp req ! i)) creative \<and>
    bid_cid b = Some (u32_str c) \<and> bid_crid b = Some (u32_str (crea_id creative)) \<and>
    bid_price b = usd_of_cents (camp_bid_floor_cents campaign)"
proof -
  have req: "ctx_request ctx' = req" using ended by (simp add: phase_def)
  obtain v where v: "v \<in> set (ctx_winners ctx')" "b = winner_bid (wi_notice_urls D) (wi_exchange_id D) req v"
    using bid by (auto simp: winners_response_def)
  obtain i a where a: "i < length (req_imp req)" "v = winner_of req i a" "win_imp_id v = imp_id (req_imp req ! i)"
      "offers bits (sv_catalog w) ctx' i a"
    using wired.phase_end_bid [OF wired ended v(1)] by blast
  then obtain campaign creative where "campaign_of (sv_catalog w) (cand_campaign_id a) = Some campaign"
      "creative \<in> set (creatives_for (sv_catalog w) (cand_campaign_id a))"
      "servable (imp_ad_format (req_imp req ! i)) creative" "cand_creative_id a = crea_id creative"
      "cand_bid_price_cents a = camp_bid_floor_cents campaign"
    using req by (auto simp: offers_def candidate_from_def)
  then show ?thesis
    using a v(2) req
    by (intro exI [of _ i] exI [of _ "cand_campaign_id a"] exI [of _ campaign] exI [of _ creative])
       (simp add: offers_def winner_bid_def winner_of_def)
qed

text \<open>
  C2. Every bid the server answers with is for an impression of the request, under that impression's
  id, and offers a campaign of the current catalog snapshot that matches the request's targeting and
  was not reported as capped for the impression, with a creative of that campaign that the impression
  can show, at the campaign's price. This holds for every scorer the configuration can build, every
  capper, clock and segment store.
\<close>

theorem bid_is_sound:
  fixes D :: "('b, 'r, models, 'f, local_pacer) wiring"
  assumes wiring: "roaring (wi_bitmaps D) bits" "build_scorer_root env cfg ms = (Inr (wi_scorer D), ms')" "wi_pacer D = LocalBudgetPacer"
    and state: "wf_catalog bits (sv_catalog w)" "balances_ok (sv_pacer w)"
    and run: "pipeline_execute now (bidder_pipeline budget D) (bid_context_new req t) w = (r, ctx', w')"
    and bid: "ctx_bid_response ctx' = Some resp" "sb \<in> set (resp_seatbid resp)" "b \<in> set (sb_bid sb)"
  shows "\<exists>i c campaign creative. i < length (req_imp req) \<and> bid_impid b = imp_id (req_imp req ! i) \<and>
    campaign_of (sv_catalog w) c = Some campaign \<and>
    matches bits (sv_catalog w) (imp_request ctx' (req_imp req ! i)) c \<and>
    (i, c, True) \<notin> set (ctx_freq_cap_results ctx') \<and>
    creative \<in> set (creatives_for (sv_catalog w) c) \<and> servable (imp_ad_format (req_imp req ! i)) creative \<and>
    bid_cid b = Some (u32_str c) \<and> bid_crid b = Some (u32_str (crea_id creative)) \<and>
    bid_price b = usd_of_cents (camp_bid_floor_cents campaign)"
proof -
  have ended: "phase D bits (\<lambda>s. s) balances_ok req w 9 ctx' w'"
    using wired.run_result(2) [OF server_wired [OF wiring] state run] bid(1) by auto
  then have "resp = winners_response (wi_notice_urls D) (wi_exchange_id D) req (ctx_winners ctx')"
    using bid(1) by (simp add: phase_def)
  then show ?thesis using ended_bid [OF server_wired [OF wiring] ended] bid(2,3) by blast
qed

text \<open>
  C6. Every run of the server's pipeline returns without an error and with a decision. It has a
  response exactly if it decided to bid. The response then has one seat, and the seat one bid for every
  impression that has a candidate left after pacing, in the order of the impressions, and no other
  bid; there is at least one such impression. The branches of the last stage for requests without a
  bid are never reached.
\<close>

theorem pipeline_decides:
  fixes D :: "('b, 'r, models, 'f, local_pacer) wiring"
  assumes wiring: "roaring (wi_bitmaps D) bits" "build_scorer_root env cfg ms = (Inr (wi_scorer D), ms')" "wi_pacer D = LocalBudgetPacer"
    and state: "wf_catalog bits (sv_catalog w)" "balances_ok (sv_pacer w)"
    and run: "pipeline_execute now (bidder_pipeline budget D) (bid_context_new req t) w = (r, ctx', w')"
  shows "r = Inr () \<and> ctx_outcome ctx' \<noteq> Pending \<and>
    (ctx_outcome ctx' = Bid \<longleftrightarrow> ctx_bid_response ctx' \<noteq> None) \<and>
    (\<forall>resp. ctx_bid_response ctx' = Some resp \<longrightarrow>
       (let with_candidates = filter (\<lambda>i. ctx_candidates ctx' ! i \<noteq> []) [0..<length (ctx_candidates ctx')] in
        with_candidates \<noteq> [] \<and> set with_candidates \<subseteq> {..<length (req_imp req)} \<and>
        (\<exists>sb. resp_seatbid resp = [sb] \<and> map bid_impid (sb_bid sb) = map (\<lambda>i. imp_id (req_imp req ! i)) with_candidates)))"
proof -
  note result = wired.run_result [OF server_wired [OF wiring] state run]
  show ?thesis
  proof (cases "phase D bits (\<lambda>s. s) balances_ok req w 9 ctx' w'")
    case True
    let ?urls = "wi_notice_urls D" and ?x = "wi_exchange_id D"
    have "ctx_bid_response ctx' = Some (winners_response ?urls ?x req (ctx_winners ctx'))" "ctx_outcome ctx' = Bid"
        "ctx_winners ctx' \<noteq> []"
      using True by (simp_all add: phase_def)
    moreover have "bid_impid \<circ> winner_bid ?urls ?x req = win_imp_id" by (simp add: fun_eq_iff winner_bid_def)
    moreover have "filter (\<lambda>i. ctx_candidates ctx' ! i \<noteq> []) [0..<length (ctx_candidates ctx')] = open_imps 0 (ctx_candidates ctx')"
      by (simp add: open_imps_def)
    ultimately show ?thesis
      using result(1) wired.phase_end_imps [OF server_wired [OF wiring] True] by (auto simp: winners_response_def Let_def)
  next
    case False
    then show ?thesis using result by auto
  qed
qed

text \<open>
  C3. A run that ends in a bid has taken from every campaign's budget exactly the prices of the
  impressions the campaign won; a run that ends without a bid has taken nothing, unless it was cut
  off by the deadline.
\<close>

theorem pipeline_settles_budget:
  fixes D :: "('b, 'r, models, 'f, local_pacer) wiring"
  assumes wiring: "roaring (wi_bitmaps D) bits" "build_scorer_root env cfg ms = (Inr (wi_scorer D), ms')" "wi_pacer D = LocalBudgetPacer"
    and state: "wf_catalog bits (sv_catalog w)" "balances_ok (sv_pacer w)"
    and run: "pipeline_execute now (bidder_pipeline budget D) (bid_context_new req t) w = (r, ctx', w')"
  shows "(ctx_outcome ctx' = Bid \<longrightarrow> sv_pacer w' = spend (sold (ctx_winners ctx')) (sv_pacer w)) \<and>
    (\<forall>reason. ctx_outcome ctx' = NoBid reason \<and> reason \<noteq> PIPELINE_DEADLINE \<longrightarrow> sv_pacer w' = sv_pacer w)"
  using wired.run_result(2) [OF server_wired [OF wiring] state run] by (auto simp: phase_def)

text \<open>
  C15. A request under GDPR without a consent string gets no bid, and no service is touched for it: the
  user's segments are not looked up, no cap is checked and no budget is reserved.
\<close>

theorem no_consent_no_processing:
  fixes D :: "('b, 'r, 's, 'f, 'p) wiring"
  assumes "gdpr_applies req" "\<not> has_consent req"
    and run: "pipeline_execute now (bidder_pipeline budget D) (bid_context_new req t) w = (r, ctx', w')"
  shows "r = Inr () \<and> is_no_bid (ctx_outcome ctx') \<and> ctx_bid_response ctx' = None \<and> ctx_segment_ids ctx' = [] \<and> w' = w"
  using run assms(1,2)
  by (auto simp: pipeline_execute_def bidder_stages_def request_validation_stage_def bid_context_new_def Let_def split: if_splits)

section \<open>A run\<close>

definition ex_budget :: latency_budget_config where
  "ex_budget = \<lparr>http_parse_ms = 2, request_validate_ms = 1, user_enrichment_ms = 8, candidate_retrieval_ms = 6,
     candidate_limit_ms = 1, scoring_ms = 5, frequency_cap_ms = 5, ranking_ms = 2, budget_pacing_ms = 3,
     response_build_ms = 2, pipeline_deadline_ms = 35, http_timeout_ms = 50, win_timeout_ms = 100\<rparr>"

definition ex_wiring :: "(u32 set, unit, models, unit, local_pacer) wiring" where
  "ex_wiring = default_wiring \<lparr>ss_get_or_fetch = (\<lambda>s uid. (Inr [], s))\<rparr> \<lparr>fc_check = (\<lambda>f uid cs dt hour. (SkippedTimeout, f))\<rparr>
     no_notice_url ''openrtb-generic'' 5 0 0"

definition ex_world :: "(u32 set, unit, models, unit, local_pacer) services" where
  "ex_world = \<lparr>sv_catalog = ex_catalog, sv_segments = (), sv_scorer = [], sv_capper = (), sv_pacer = [1 \<mapsto> 1000]\<rparr>"

abbreviation "ex_req \<equiv> ex_request ''r1'' [ex_imp ''i1'' None None]"

text \<open>A request for one banner slot that no targeting restricts.\<close>

definition plain_request :: "bid_request \<Rightarrow> imp \<Rightarrow> bool" where
  "plain_request req i \<longleftrightarrow> req_id req \<noteq> [] \<and> req_imp req = [i] \<and> \<not> gdpr_applies req \<and> request_user_id req = None \<and>
     request_geo_keys req = None \<and> target_device req = None \<and> imp_ad_format i \<in> {None, Some Banner}"

lemma plain_serves:
  assumes "plain_request req i" "ctx_segment_ids ctx = []" "ctx_request ctx = req"
  shows "{c. campaign_of ex_catalog c \<noteq> None \<and> matches (\<lambda>b. b) ex_catalog (imp_request ctx i) c \<and>
      (\<exists>cr \<in> set (creatives_for ex_catalog c). servable (imp_ad_format i) cr)} = {1}"
  using assms
  by (auto simp: plain_request_def campaign_of_def creatives_for_def ex_catalog_def new_for_test_def hm_get_def matches_def
      imp_request_def servable_def ex_creative_def idx_bits_def union_values_def set_bitmap_def split: if_splits)

lemma plain_retrieve:
  assumes "plain_request req i" "ctx_segment_ids ctx = []" "ctx_request ctx = req"
  shows "retrieve set_bitmap ex_catalog ctx i =
    [\<lparr>cand_campaign_id = 1, cand_creative_id = 11, cand_bid_price_cents = 120, cand_score = flt_lit binary32 0 1,
      cand_daily_cap_imps = 5, cand_hourly_cap_imps = 2\<rparr>]"
proof -
  have ids: "map cand_campaign_id (retrieve set_bitmap ex_catalog ctx i) = [1]"
    using set_bm.retrieve_ids [OF ex_catalog_wf] plain_serves [OF assms] by simp
  then obtain a where a: "retrieve set_bitmap ex_catalog ctx i = [a]" "cand_campaign_id a = 1" by auto
  then have "a \<in> set (retrieve set_bitmap ex_catalog ctx i)" by simp
  then obtain c where "expand_candidate ex_catalog (imp_ad_format i) c = Some a"
    by (auto simp: retrieve_def set_map_filter)
  moreover from this have "c = 1" using expand_candidate_from(2) a(2) by force
  ultimately show ?thesis
    using a(1) assms(1) by (auto simp: expand_candidate_def campaign_of_def creatives_for_def ex_catalog_def new_for_test_def hm_get_def
        servable_def plain_request_def ex_campaign_def ex_creative_def)
qed

lemma elapsed_zero: "ctx_started_at ctx = 0 \<Longrightarrow> elapsed_ms ctx 0 = 0"
  using elapsed_none [of ctx] by simp

lemma bidder_pipeline_budget [simp]: "pl_budget (bidder_pipeline budget D) = budget"
  by (simp add: bidder_pipeline_def add_stage_def pipeline_new_def)

lemma plain_ex_req: "plain_request ex_req (ex_imp ''i1'' None None)"
  by (simp add: plain_request_def ex_request_def gdpr_applies_def request_user_id_def request_geo_keys_def
      target_device_def request_device_type_def imp_ad_format_def ex_imp_def)

lemma ex_catalog_not_empty: "\<not> catalog_is_empty ex_catalog"
  by (simp add: catalog_is_empty_def ex_catalog_def new_for_test_def)

lemma ex_wiring_simps:
  "wi_segments ex_wiring = \<lparr>ss_get_or_fetch = (\<lambda>s uid. (Inr [], s))\<rparr>" "wi_bitmaps ex_wiring = set_bitmap"
  "wi_max_candidates_per_imp ex_wiring = 5" "wi_scorer ex_wiring = feature_weighted_scorer fw_default"
  "wi_pacer ex_wiring = LocalBudgetPacer"
  by (simp_all add: ex_wiring_def default_wiring_def)

text \<open>With the clock standing still, the only campaign with a creative wins the impression.\<close>

lemma plain_run:
  assumes "plain_request req i"
  shows "\<exists>ctx' w'. pipeline_execute (\<lambda>_. 0) (bidder_pipeline ex_budget ex_wiring) (bid_context_new req 0) ex_world = (Inr (), ctx', w') \<and>
     ctx_outcome ctx' = Bid \<and> sold (ctx_winners ctx') = (\<lambda>c. if c = 1 then 120 else 0)"
proof -
  let ?ctx0 = "bid_context_new req 0 :: u32 set bid_context"
  have c0: "ctx_request ?ctx0 = req" "ctx_outcome ?ctx0 = Pending" "ctx_started_at ?ctx0 = 0" "ctx_segment_ids ?ctx0 = []"
      "ctx_winners ?ctx0 = []"
    by (simp_all add: bid_context_new_def)
  have req: "req_id req \<noteq> []" "req_imp req = [i]" "\<not> gdpr_applies req" "request_user_id req = None"
    using assms by (simp_all add: plain_request_def)
  show ?thesis
    using c0 by (simp add: pipeline_execute_def ex_budget_def bidder_stages_def ex_wiring_simps elapsed_zero request_validation_stage_def
        req user_enrichment_stage_def ex_world_def retrieval_execute [where C = ex_catalog] ex_catalog_not_empty plain_retrieve [OF assms]
        candidate_limit_stage_def limit_candidates_def scoring_stage_def feature_weighted_scorer_def freq_cap_stage_def
        budget_pacing_stage_def pace_imp_def ranking_stage_def rank_imp_def max_by_def response_build_stage_def
        release_all_def local_pacer_simps fun_eq_iff Let_def)
qed

lemmas ex_run = plain_run [OF plain_ex_req]

lemma ex_world_ok: "wf_catalog (\<lambda>b. b) (sv_catalog ex_world)" "balances_ok (sv_pacer ex_world)"
  using ex_catalog_wf by (auto simp: ex_world_def balances_ok_def in_i64_def split: if_splits)

definition fw_config :: scoring_config where
  "fw_config = \<lparr>scc_kind = FeatureWeighted, scc_ml = None, scc_cascade = None, scc_ab_test = None\<rparr>"

lemma ex_wiring_ok:
  "roaring (wi_bitmaps ex_wiring) (\<lambda>b. b)" "build_scorer_root nan_env fw_config [] = (Inr (wi_scorer ex_wiring), [])"
  "wi_pacer ex_wiring = LocalBudgetPacer"
  using set_bm.roaring_axioms by (simp_all add: ex_wiring_simps build_scorer_root_def fw_config_def)

theorem pipeline_decides_witness:
  "\<exists>ctx' w' resp sb. pipeline_execute (\<lambda>_. 0) (bidder_pipeline ex_budget ex_wiring) (bid_context_new ex_req 0) ex_world = (Inr (), ctx', w') \<and>
     ctx_outcome ctx' = Bid \<and> ctx_bid_response ctx' = Some resp \<and> resp_seatbid resp = [sb] \<and> sb_bid sb \<noteq> []"
proof -
  obtain ctx' w' where run: "pipeline_execute (\<lambda>_. 0) (bidder_pipeline ex_budget ex_wiring) (bid_context_new ex_req 0) ex_world = (Inr (), ctx', w')"
    and bid: "ctx_outcome ctx' = Bid"
    using ex_run by blast
  note decides = pipeline_decides [OF ex_wiring_ok ex_world_ok run]
  then obtain resp where resp: "ctx_bid_response ctx' = Some resp" using bid by blast
  let ?open = "filter (\<lambda>i. ctx_candidates ctx' ! i \<noteq> []) [0..<length (ctx_candidates ctx')]"
  obtain sb where sb: "resp_seatbid resp = [sb]" "map bid_impid (sb_bid sb) = map (\<lambda>i. imp_id (req_imp ex_req ! i)) ?open" "?open \<noteq> []"
    using decides resp unfolding Let_def by blast
  then have "sb_bid sb \<noteq> []" by (metis list.map_disc_iff)
  then show ?thesis using run bid resp sb(1) by blast
qed

theorem bid_is_sound_witness:
  "\<exists>ctx' w' resp sb b. pipeline_execute (\<lambda>_. 0) (bidder_pipeline ex_budget ex_wiring) (bid_context_new ex_req 0) ex_world = (Inr (), ctx', w') \<and>
     ctx_bid_response ctx' = Some resp \<and> sb \<in> set (resp_seatbid resp) \<and> b \<in> set (sb_bid sb) \<and> bid_impid b = ''i1''"
proof -
  obtain ctx' w' where run: "pipeline_execute (\<lambda>_. 0) (bidder_pipeline ex_budget ex_wiring) (bid_context_new ex_req 0) ex_world = (Inr (), ctx', w')"
    and bid: "ctx_outcome ctx' = Bid"
    using ex_run by blast
  have ended: "phase ex_wiring (\<lambda>b. b) (\<lambda>s. s) balances_ok ex_req ex_world 9 ctx' w'"
    using wired.run_result(2) [OF server_wired [OF ex_wiring_ok] ex_world_ok run] bid by auto
  then obtain v vs where "ctx_winners ctx' = v # vs" by (cases "ctx_winners ctx'") (auto simp: phase_def)
  then have resp: "ctx_bid_response ctx' =
      Some (winners_response (wi_notice_urls ex_wiring) (wi_exchange_id ex_wiring) ex_req (v # vs))"
    using ended by (simp add: phase_def)
  obtain sb b where sb: "sb \<in> set (resp_seatbid (winners_response (wi_notice_urls ex_wiring) (wi_exchange_id ex_wiring) ex_req (v # vs)))"
      "b \<in> set (sb_bid sb)"
    by (auto simp: winners_response_def)
  note b = resp sb
  have "bid_impid b = ''i1''"
    using bid_is_sound [OF ex_wiring_ok ex_world_ok run b] by (auto simp: ex_request_def ex_imp_def)
  then show ?thesis using run b by blast
qed

theorem pipeline_settles_budget_witness:
  "\<exists>ctx' w'. pipeline_execute (\<lambda>_. 0) (bidder_pipeline ex_budget ex_wiring) (bid_context_new ex_req 0) ex_world = (Inr (), ctx', w') \<and>
     sv_pacer w' 1 = Some 880"
proof -
  obtain ctx' w' where run: "pipeline_execute (\<lambda>_. 0) (bidder_pipeline ex_budget ex_wiring) (bid_context_new ex_req 0) ex_world = (Inr (), ctx', w')"
    and bid: "ctx_outcome ctx' = Bid" "sold (ctx_winners ctx') = (\<lambda>c. if c = 1 then 120 else 0)"
    using ex_run by blast
  have "sv_pacer w' = spend (sold (ctx_winners ctx')) (sv_pacer ex_world)"
    using pipeline_settles_budget [OF ex_wiring_ok ex_world_ok run] bid(1) by simp
  then show ?thesis using run bid(2) by (auto simp: spend_def ex_world_def i64_wrap_def)
qed

definition ex_regs :: regs where
  "ex_regs = \<lparr>regs_coppa = None, regs_gdpr = Some 1, regs_us_privacy = None, regs_gpp = None, regs_gpp_sid = [], regs_ext_value = None\<rparr>"

theorem no_consent_no_processing_witness:
  "\<exists>ctx'. pipeline_execute (\<lambda>_. 0) (bidder_pipeline ex_budget ex_wiring) (bid_context_new (ex_req\<lparr>req_regs := Some ex_regs\<rparr>) 0) ex_world
     = (Inr (), ctx', ex_world) \<and> ctx_bid_response ctx' = None"
proof -
  obtain r ctx' w' where run: "pipeline_execute (\<lambda>_. 0) (bidder_pipeline ex_budget ex_wiring)
      (bid_context_new (ex_req\<lparr>req_regs := Some ex_regs\<rparr>) 0) ex_world = (r, ctx', w')"
    using prod_cases3 by blast
  have "gdpr_applies (ex_req\<lparr>req_regs := Some ex_regs\<rparr>)" "\<not> has_consent (ex_req\<lparr>req_regs := Some ex_regs\<rparr>)"
    by (simp_all add: gdpr_applies_def ex_regs_def has_consent_def ex_request_def)
  then show ?thesis using no_consent_no_processing [OF _ _ run] run by auto
qed

end
