(* ===== verification/Float_Conversion.thy ===== *)
theory Float_Conversion
  imports Rust_Float
begin

text \<open>
  How far a rounded value is from the exact one, and the conversions from floats back to integers:
  \<open>f64::round\<close> and the cast to \<open>i64\<close>. A value that is off an integer by less than a half rounds to
  it, which is how a price in cents survives its way through dollars into micros.
\<close>

section \<open>The rounding error\<close>

lemma round_ne_error: "\<bar>of_int (round_ne x) - x\<bar> \<le> 1 / 2"
proof -
  have "of_int \<lfloor>x\<rfloor> \<le> x" "x < of_int \<lfloor>x\<rfloor> + 1" by linarith+
  then show ?thesis unfolding round_ne_def Let_def abs_le_iff by (simp split: if_split) linarith
qed

lemma round_at_error:
  assumes "pow2 e \<le> r" "emin F \<le> e"
  shows "\<bar>round_at F e r - r\<bar> \<le> pow2 (- int (prec F)) * r"
proof -
  define u where "u = pow2 (ulp_exp F e)"
  have u: "0 < u" by (simp add: u_def)
  have "round_at F e r - r = (of_int (round_ne (r / u)) - r / u) * u"
    using u by (simp add: round_at_def u_def field_simps)
  then have "\<bar>round_at F e r - r\<bar> = \<bar>of_int (round_ne (r / u)) - r / u\<bar> * u" using u by (simp add: abs_mult)
  also have "\<dots> \<le> 1 / 2 * u" using round_ne_error [of "r / u"] u by (intro mult_right_mono) auto
  also have "\<dots> = pow2 (- int (prec F)) * pow2 e"
    using assms(2) pow2_add [of "- int (prec F)" e] pow2_add [of "e - int (prec F)" 1]
    by (simp add: u_def ulp_exp_def max_def algebra_simps)
  also have "\<dots> \<le> pow2 (- int (prec F)) * r" using assms(1) by (intro mult_left_mono) simp_all
  finally show ?thesis .
qed

lemma rnd_error_pos:
  assumes F: "wf_format F" and nd: "0 < n" "0 < d" and lo: "pow2 (emin F) \<le> exact n d s" and hi: "exact n d s \<le> pow2 (emax F)"
  shows "is_num (rnd F n d s)" and "\<bar>fval (rnd F n d s) - exact n d s\<bar> \<le> pow2 (- int (prec F)) * exact n d s"
proof -
  have "rnd F 1 1 (emax F) = mk_num 1 (emax F)"
    using F by (intro rnd_exact) (auto simp: wf_format_def)
  moreover have "fkey (rnd F n d s) \<le> fkey (rnd F 1 1 (emax F))"
    using F nd hi by (intro rnd_mono) (simp_all add: exact_def)
  ultimately show num: "is_num (rnd F n d s)"
    using rnd_fkey_pos_ge [OF F nd, of s] by (intro is_num_between(1) [where a = 0]) auto
  define e where "e = exp_of n d s"
  have e: "pow2 e \<le> exact n d s" "exact n d s < pow2 (e + 1)" using exp_of_bounds [OF nd] by (simp_all add: e_def)
  have "emin F \<le> e"
  proof -
    have "pow2 (emin F) < pow2 (e + 1)" using lo e(2) by linarith
    then show ?thesis by (simp only: pow2_less_iff)
  qed
  moreover have "fval (rnd F n d s) = round_at F e (exact n d s)"
    using num rnd_fkey_pos [OF F nd, of s] by (auto simp: fkey_num clip_def e_def split: if_splits)
  ultimately show "\<bar>fval (rnd F n d s) - exact n d s\<bar> \<le> pow2 (- int (prec F)) * exact n d s"
    using round_at_error [OF e(1)] by simp
qed

theorem rnd_error:
  assumes F: "wf_format F" and d: "0 < d" and v: "exact n d s = v" "v = 0 \<or> pow2 (emin F) \<le> \<bar>v\<bar> \<and> \<bar>v\<bar> \<le> pow2 (emax F)"
  shows "is_num (rnd F n d s)" and "\<bar>fval (rnd F n d s) - v\<bar> \<le> pow2 (- int (prec F)) * \<bar>v\<bar>"
proof -
  consider "n = 0" | "0 < n" | "n < 0" by linarith
  then have "is_num (rnd F n d s) \<and> \<bar>fval (rnd F n d s) - v\<bar> \<le> pow2 (- int (prec F)) * \<bar>v\<bar>"
  proof cases
    case 1
    then show ?thesis using v by (simp add: rnd_def exact_def)
  next
    case 2
    then have "0 < v" using exact_pos [OF 2 d, of s] v(1) by simp
    then show ?thesis using rnd_error_pos [OF F 2 d, of s] v by auto
  next
    case 3
    have neg: "exact (- n) d s = - v" using v(1) by (simp add: exact_neg)
    have "0 < - v" using exact_pos [of "- n" d s] 3 d neg by simp
    then have pos: "is_num (rnd F (- n) d s)" "\<bar>fval (rnd F (- n) d s) - (- v)\<bar> \<le> pow2 (- int (prec F)) * (- v)"
      using rnd_error_pos [OF F _ d, of "- n" s] 3 v(2) neg by auto
    have key: "fkey (rnd F n d s) = (0, - fval (rnd F (- n) d s))"
      using rnd_fkey_neg [OF F 3 d, of s] pos(1) by (simp add: fkey_num neg_key_def)
    then have "is_num (rnd F n d s)" using is_num_between(1) [OF rnd_not_NaN, of _ F n d s] by fastforce
    then show ?thesis using key pos(2) \<open>0 < - v\<close> by (simp add: fkey_num abs_if split: if_splits)
  qed
  then show "is_num (rnd F n d s)" "\<bar>fval (rnd F n d s) - v\<bar> \<le> pow2 (- int (prec F)) * \<bar>v\<bar>" by simp_all
qed

text \<open>A cast to \<open>i64\<close> truncates towards zero and saturates; NaN becomes 0.\<close>

definition i64_clamp :: "int \<Rightarrow> i64" where
  "i64_clamp i = max (- (2 ^ 63)) (min i (2 ^ 63 - 1))"

fun flt_as_i64 :: "flt \<Rightarrow> i64" where
  "flt_as_i64 (Num m e) = i64_clamp (sgn m * num_floor \<bar>m\<bar> e)"
| "flt_as_i64 PosInf = 2 ^ 63 - 1"
| "flt_as_i64 NegInf = - (2 ^ 63)"
| "flt_as_i64 NaN = 0"

text \<open>\<open>round\<close> goes to the nearest integer, half away from zero.\<close>

fun flt_round :: "flt \<Rightarrow> flt" where
  "flt_round (Num m e) =
     (if 0 \<le> e then mk_num m e else mk_num (sgn m * num_floor (2 * \<bar>m\<bar> + 2 ^ nat (- e)) (e - 1)) 0)"
| "flt_round x = x"

lemma num_floor_value: "num_floor m e = \<lfloor>of_int m * pow2 e\<rfloor>"
proof (cases "0 \<le> e")
  case True
  then have "(of_int m * pow2 e :: rat) = of_int (m * 2 ^ nat e)" by (simp add: pow2_nat)
  then show ?thesis using True by (simp only: num_floor_def floor_of_int if_True)
next
  case False
  then have "(of_int m * pow2 e :: rat) = of_int m / of_int (2 ^ nat (- e))" by (simp add: pow2_neg)
  then show ?thesis using False by (simp only: num_floor_def floor_divide_of_int_eq if_False)
qed

lemma flt_as_i64_int: "in_i64 k \<Longrightarrow> flt_as_i64 (mk_num k 0) = k"
proof -
  assume k: "in_i64 k"
  obtain m e where me: "mk_num k 0 = Num m e" using mk_num_Num by blast
  have v: "of_int m * pow2 e = (of_int k :: rat)" using mk_num_fkey [of k 0] by (simp add: me)
  have sgn: "sgn m = sgn k"
  proof -
    have "sgn (of_int k :: rat) = sgn (of_int m :: rat)" unfolding v [symmetric] by (simp add: sgn_mult)
    then show ?thesis by (auto simp: sgn_if split: if_splits)
  qed
  have "(of_int \<bar>m\<bar> * pow2 e :: rat) = of_int \<bar>k\<bar>" using arg_cong [OF v, of abs] by (simp add: abs_mult)
  then have "num_floor \<bar>m\<bar> e = \<bar>k\<bar>" unfolding num_floor_value by (simp only: floor_of_int)
  then have "sgn m * num_floor \<bar>m\<bar> e = k" by (simp add: sgn sgn_mult_abs)
  then show ?thesis using k by (simp add: me i64_clamp_def in_i64_def)
qed

lemma flt_round_near:
  assumes "is_num x" "\<bar>fval x - of_int k\<bar> < 1 / 2"
  shows "flt_round x = mk_num k 0"
proof -
  obtain m e where x: "x = Num m e" using assms(1) by (blast elim: is_numE)
  show ?thesis
  proof (cases "0 \<le> e")
    case True
    then have v: "of_int m * pow2 e = (of_int (m * 2 ^ nat e) :: rat)" by (simp add: pow2_nat)
    have "\<bar>of_int (m * 2 ^ nat e) - of_int k\<bar> < (1 / 2 :: rat)" using assms(2) unfolding x fval_simps v .
    then have "\<bar>of_int (m * 2 ^ nat e - k)\<bar> < (1 :: rat)" unfolding of_int_diff by linarith
    then have "m * 2 ^ nat e = k" by (simp only: of_int_abs [symmetric] of_int_less_1_iff)
    then show ?thesis using True v by (simp add: x mk_num_eqI)
  next
    case False
    have half: "of_int (2 * \<bar>m\<bar> + 2 ^ nat (- e)) * pow2 (e - 1) = of_int \<bar>m\<bar> * pow2 e + (1 / 2 :: rat)"
      using False pow2_add [of "e - 1" 1] pow2_neg [of e] by (simp add: algebra_simps power_int_diff)
    have "\<bar>fval x\<bar> = of_int \<bar>m\<bar> * pow2 e" by (simp add: x abs_mult)
    moreover have "\<bar>\<bar>fval x\<bar> - of_int \<bar>k\<bar>\<bar> < 1 / 2" using assms(2) by (simp add: abs_if split: if_splits)
    ultimately have "num_floor (2 * \<bar>m\<bar> + 2 ^ nat (- e)) (e - 1) = \<bar>k\<bar>"
      unfolding num_floor_value half by (intro floor_unique; linarith)
    moreover have "k = 0 \<or> sgn m = sgn k"
    proof -
      have "sgn (fval x) = of_int (sgn m)" by (simp add: x sgn_mult) (simp add: sgn_if)
      moreover have "of_int 1 \<le> (of_int k :: rat)" if "1 \<le> k" using that by (simp only: of_int_le_iff)
      moreover have "(of_int k :: rat) \<le> of_int (- 1)" if "k \<le> - 1" using that by (simp only: of_int_le_iff)
      ultimately show ?thesis
        using assms(2) by (cases "k = 0"; cases "0 < k") (auto simp: abs_less_iff sgn_if split: if_splits)
    qed
    ultimately show ?thesis using False by (auto simp: x sgn_mult_abs)
  qed
qed

end
