(* ===== verification/Exchange_Adapters.thy ===== *)
theory Exchange_Adapters
  imports Bid_Pipeline Float_Conversion
begin

text \<open>
  The exchange adapters: the interface of \<open>exchange/mod.rs\<close>, the generic OpenRTB adapter of
  \<open>exchange/openrtb_generic.rs\<close> and the Google AdX adapter of \<open>exchange/google_adx.rs\<close>, with the
  messages of \<open>bidder-protos/proto/adx.proto\<close>. The JSON and protobuf codecs are arguments.

  A string is its UTF-8 bytes, one character per byte. The AdX adapter goes through a JSON value to
  fill the fields it does not name with the defaults of the struct definitions; here the records are
  written out with these defaults, and the last step cannot fail.
\<close>

section \<open>The interface and the generic adapter\<close>

record exchange_adapter =
  ad_id :: string
  ad_decode_request :: "u8 list \<Rightarrow> bid_request anyhow"
  ad_encode_response :: "bid_response \<Rightarrow> (u8 list \<times> string) anyhow"

definition openrtb_generic_adapter ::
  "(u8 list \<Rightarrow> bid_request option) \<Rightarrow> (bid_response \<Rightarrow> u8 list option) \<Rightarrow> exchange_adapter" where
  "openrtb_generic_adapter from_slice to_vec =
     \<lparr>ad_id = ''openrtb-generic'',
      ad_decode_request = (\<lambda>body.
        case from_slice body of Some r \<Rightarrow> Inr r | None \<Rightarrow> Inl ''simd-json bid request decode failed''),
      ad_encode_response = (\<lambda>response.
        case to_vec response of Some body \<Rightarrow> Inr (body, ''application/json'') | None \<Rightarrow> Inl ''bid response JSON encode failed'')\<rparr>"

section \<open>AdX messages\<close>

record adx_slot =
  slot_id :: u32
  slot_width :: "u32 list"
  slot_height :: "u32 list"
  slot_minimum_cpm_micros :: i64

record adx_site =
  adx_url :: string
  adx_referrer :: string

record adx_mobile =
  adx_app_id :: string
  adx_device_type :: u32

record adx_user =
  adx_google_user_id :: string

record adx_geo =
  adx_country :: string
  adx_region :: string
  adx_city :: string

record adx_device =
  adx_ua :: string
  adx_ip :: string

record adx_bid_request =
  adx_req_id :: "u8 list"
  adx_adslot :: "adx_slot option"
  adx_site_of :: "adx_site option"
  adx_mobile_of :: "adx_mobile option"
  adx_user_of :: "adx_user option"
  adx_geo_of :: "adx_geo option"
  adx_device_of :: "adx_device option"

record adx_ad =
  ad_max_cpm_micros :: i64
  ad_buyer_creative_id :: u32
  ad_adslot_id :: u32
  ad_nurl :: string
  ad_ext_json :: string

record adx_bid_response =
  adx_resp_id :: "u8 list"
  adx_ads :: "adx_ad list"

section \<open>Strings of the standard library\<close>

definition string_of_bytes :: "u8 list \<Rightarrow> string" where
  "string_of_bytes bs = map (\<lambda>b. char_of (unat b)) bs"

definition as_bytes :: "string \<Rightarrow> u8 list" where
  "as_bytes s = map of_char s"

text \<open>\<open>str::from_utf8\<close>: the well-formed byte sequences, without overlong forms and surrogates.\<close>

definition utf8_tail :: "u8 \<Rightarrow> bool" where
  "utf8_tail b \<longleftrightarrow> 0x80 \<le> b \<and> b \<le> 0xBF"

fun utf8_valid :: "u8 list \<Rightarrow> bool" where
  "utf8_valid [] = True"
| "utf8_valid (a # bs) =
     (if a \<le> 0x7F then utf8_valid bs
      else if 0xC2 \<le> a \<and> a \<le> 0xDF then
        (case bs of b # rest \<Rightarrow> utf8_tail b \<and> utf8_valid rest | _ \<Rightarrow> False)
      else if 0xE0 \<le> a \<and> a \<le> 0xEF then
        (case bs of
           b # c # rest \<Rightarrow>
             (if a = 0xE0 then 0xA0 \<le> b \<and> b \<le> 0xBF else if a = 0xED then 0x80 \<le> b \<and> b \<le> 0x9F else utf8_tail b)
             \<and> utf8_tail c \<and> utf8_valid rest
         | _ \<Rightarrow> False)
      else if 0xF0 \<le> a \<and> a \<le> 0xF4 then
        (case bs of
           b # c # d # rest \<Rightarrow>
             (if a = 0xF0 then 0x90 \<le> b \<and> b \<le> 0xBF else if a = 0xF4 then 0x80 \<le> b \<and> b \<le> 0x8F else utf8_tail b)
             \<and> utf8_tail c \<and> utf8_tail d \<and> utf8_valid rest
         | _ \<Rightarrow> False)
      else False)"

text \<open>\<open>str::parse::<u32>\<close>: an optional plus sign and decimal digits; too large a number is an error.\<close>

definition parse_u32 :: "string \<Rightarrow> u32 option" where
  "parse_u32 s =
     (let digits = (case s of c # cs \<Rightarrow> if c = CHR ''+'' then cs else s | [] \<Rightarrow> [])
      in if digits \<noteq> [] \<and> list_all is_digit digits \<and> str_nat digits 0 < 2 ^ 32
         then Some (of_nat (str_nat digits 0)) else None)"

section \<open>The AdX adapter\<close>

definition bytes_to_string_lossy :: "u8 list \<Rightarrow> string" where
  "bytes_to_string_lossy b =
     (if utf8_valid b then string_of_bytes b else concat (map (\<lambda>byte. byte_hex_lower (unat byte)) b))"

text \<open>The parts of the request, with the defaults for what AdX does not send.\<close>

definition adx_banner :: "i32 \<Rightarrow> i32 \<Rightarrow> banner" where
  "adx_banner w h =
     \<lparr>banner_format = [], banner_w = Some w, banner_h = Some h, banner_wmax = None, banner_hmax = None,
      banner_wmin = None, banner_hmin = None, banner_btype = [], banner_battr = [], banner_pos = None,
      banner_mimes = [], banner_topframe = None, banner_expdir = [], banner_api = [], banner_id = None,
      banner_vcm = None, banner_ext_value = None\<rparr>"

definition adx_imp :: "adx_slot \<Rightarrow> imp" where
  "adx_imp slot =
     (let w = (case slot_width slot of x # _ \<Rightarrow> sint x | [] \<Rightarrow> 0);
          h = (case slot_height slot of x # _ \<Rightarrow> sint x | [] \<Rightarrow> 0);
          floor_usd = flt_div binary64 (flt_of_int binary64 (slot_minimum_cpm_micros slot)) (flt_lit binary64 1000000 1)
      in \<lparr>imp_id = u32_str (slot_id slot), imp_banner = Some (adx_banner w h), imp_video = None, imp_audio = None,
          imp_native = None, imp_pmp = None, imp_displaymanager = None, imp_displaymanagerver = None, imp_instl = 0,
          imp_tagid = None, imp_bidfloor = Some floor_usd, imp_bidfloorcur = None, imp_clickbrowser = 0, imp_secure = 0,
          imp_iframebuster = [], imp_rwdd = None, imp_ssai = None, imp_exp = None, imp_ext_value = None\<rparr>)"

definition adx_internal_user :: "adx_user \<Rightarrow> user" where
  "adx_internal_user u =
     \<lparr>user_id = Some (adx_google_user_id u), user_buyeruid = None, user_yob = None, user_gender = None,
      user_keywords = None, user_customdata = None, user_geo = None, user_data = [], user_eids = None,
      user_ext_value = None\<rparr>"

definition adx_internal_site :: "adx_site \<Rightarrow> site" where
  "adx_internal_site s =
     \<lparr>site_id = None, site_name = None, site_domain = None, site_cat = [], site_sectioncat = [], site_pagecat = [],
      site_page = Some (adx_url s), site_ref = Some (adx_referrer s), site_search = None, site_mobile = None,
      site_privacypolicy = None, site_publisher = None, site_content = None, site_keywords = None,
      site_ext_value = None\<rparr>"

definition adx_internal_geo :: "adx_geo \<Rightarrow> geo" where
  "adx_internal_geo g =
     \<lparr>geo_lat = None, geo_lon = None, geo_type = None, geo_accuracy = None, geo_lastfix = None, geo_ipservice = None,
      geo_country = Some (adx_country g), geo_region = Some (adx_region g), geo_regionfips104 = None, geo_metro = None,
      geo_city = Some (adx_city g), geo_zip = None, geo_utcoffset = None, geo_ext_value = None\<rparr>"

definition adx_internal_device :: "adx_device option \<Rightarrow> adx_geo option \<Rightarrow> device" where
  "adx_internal_device d g =
     \<lparr>dev_ua = map_option adx_ua d, dev_geo = map_option adx_internal_geo g, dev_dnt = None, dev_lmt = None,
      dev_ip = map_option adx_ip d, dev_ipv6 = None, dev_devicetype = None, dev_make = None, dev_model = None,
      dev_os = None, dev_osv = None, dev_hwv = None, dev_h = None, dev_w = None, dev_ppi = None, dev_pxratio = None,
      dev_js = None, dev_geofetch = None, dev_flashver = None, dev_language = None, dev_carrier = None,
      dev_mccmnc = None, dev_connectiontype = None, dev_ifa = None, dev_didsha1 = None, dev_didmd5 = None,
      dev_dpidsha1 = None, dev_dpidmd5 = None, dev_macsha1 = None, dev_macmd5 = None, dev_ext_value = None\<rparr>"

definition adx_to_internal :: "adx_bid_request \<Rightarrow> bid_request anyhow" where
  "adx_to_internal raw =
     (case adx_adslot raw of
        None \<Rightarrow> Inl ''adx bid request missing adslot''
      | Some slot \<Rightarrow>
          Inr \<lparr>req_id = bytes_to_string_lossy (adx_req_id raw), req_imp = [adx_imp slot],
               req_site = map_option adx_internal_site (adx_site_of raw), req_app = None, req_dooh = None,
               req_device = (if adx_device_of raw \<noteq> None \<or> adx_geo_of raw \<noteq> None
                             then Some (adx_internal_device (adx_device_of raw) (adx_geo_of raw)) else None),
               req_user = map_option adx_internal_user (adx_user_of raw), req_at = None, req_tmax = None,
               req_wseat = [], req_bseat = [], req_cur = None, req_wlang = [], req_bcat = [], req_badv = [],
               req_bapp = [], req_source = None, req_regs = None, req_test = 0, req_ext_value = None\<rparr>)"

definition adx_ad_of :: "(json \<Rightarrow> string) \<Rightarrow> bid \<Rightarrow> adx_ad" where
  "adx_ad_of json_text b =
     \<lparr>ad_max_cpm_micros = flt_as_i64 (flt_round (flt_mul binary64 (bid_price b) (flt_lit binary64 1000000 1))),
      ad_buyer_creative_id = (case Option.bind (bid_crid b) parse_u32 of Some c \<Rightarrow> c | None \<Rightarrow> 0),
      ad_adslot_id = (case parse_u32 (bid_impid b) of Some i \<Rightarrow> i | None \<Rightarrow> 0),
      ad_nurl = (case bid_nurl b of Some u \<Rightarrow> u | None \<Rightarrow> []),
      ad_ext_json = (case bid_ext_value b of Some v \<Rightarrow> json_text v | None \<Rightarrow> [])\<rparr>"

definition internal_to_adx :: "(json \<Rightarrow> string) \<Rightarrow> bid_response \<Rightarrow> adx_bid_response" where
  "internal_to_adx json_text resp =
     \<lparr>adx_resp_id = as_bytes (resp_id resp),
      adx_ads = concat (map (\<lambda>seatbid. map (adx_ad_of json_text) (sb_bid seatbid)) (resp_seatbid resp))\<rparr>"

definition google_adx_adapter ::
  "(u8 list \<Rightarrow> adx_bid_request option) \<Rightarrow> (adx_bid_response \<Rightarrow> u8 list option) \<Rightarrow> (json \<Rightarrow> string) \<Rightarrow> exchange_adapter" where
  "google_adx_adapter decode encode json_text =
     \<lparr>ad_id = ''google-adx'',
      ad_decode_request = (\<lambda>body.
        case decode body of Some raw \<Rightarrow> adx_to_internal raw | None \<Rightarrow> Inl ''adx protobuf bid request decode failed''),
      ad_encode_response = (\<lambda>response.
        case encode (internal_to_adx json_text response) of
          Some buf \<Rightarrow> Inr (buf, ''application/octet-stream'')
        | None \<Rightarrow> Inl ''adx protobuf bid response encode failed'')\<rparr>"

section \<open>Strings\<close>

lemma as_bytes_of_bytes [simp]: "as_bytes (string_of_bytes bs) = bs"
proof -
  have "(of_char (char_of (unat b)) :: u8) = b" for b :: u8
  proof -
    have "(of_char (char_of (unat b)) :: u8) = of_nat (of_char (char_of (unat b)))" by (simp only: of_nat_of_char)
    also have "\<dots> = of_nat (unat b mod 256)" by simp
    also have "unat b mod 256 = unat b" by (rule mod_less, rule order_less_le_trans [OF unsigned_less]) simp
    finally show ?thesis by simp
  qed
  then show ?thesis by (simp add: as_bytes_def string_of_bytes_def o_def)
qed

lemma parse_u32_str [simp]: "parse_u32 (u32_str w) = Some w"
proof -
  let ?s = "u32_str w"
  have digits: "list_all is_digit ?s" using nat_str_digits [of _ "unat w"] by (auto simp: u32_str_def list_all_iff)
  have val: "str_nat ?s 0 = unat w" by (simp add: u32_str_def str_nat_nat_str)
  obtain c cs where s: "?s = c # cs" using nat_str.simps [of "unat w"] by (cases ?s) (auto simp: u32_str_def split: if_splits)
  have "c \<noteq> CHR ''+''" using digits by (auto simp: s is_digit_def)
  moreover have "unat w < 2 ^ 32" by (rule order_less_le_trans [OF unsigned_less]) simp
  ultimately show ?thesis using digits val by (simp add: parse_u32_def s)
qed

section \<open>Prices\<close>

lemma prec64: "prec binary64 = 53" "emin binary64 = - 1022" "emax binary64 = 1023"
  by (simp_all add: binary64_def)

lemma f64_int: "\<bar>i\<bar> \<le> 2 ^ 53 \<Longrightarrow> flt_of_int binary64 i = mk_num i 0"
  by (intro flt_of_int_exact) (simp_all add: prec64)

lemma flt_lit_int: "flt_lit F i 1 = flt_of_int F i"
  by (simp add: flt_lit_def flt_of_int_def)

lemma normal_range:
  assumes "v = 0 \<or> 1 / 1000 \<le> \<bar>v\<bar>" "\<bar>v\<bar> \<le> 2 ^ 100"
  shows "v = 0 \<or> pow2 (emin binary64) \<le> \<bar>v\<bar> \<and> \<bar>v\<bar> \<le> pow2 (emax binary64)"
proof -
  have "pow2 (emin binary64) \<le> pow2 (- 10)" "pow2 100 \<le> pow2 (emax binary64)" by (simp_all only: prec64 pow2_le_iff)
  moreover have "pow2 (- 10) \<le> 1 / 1000" "pow2 100 = 2 ^ 100" by (simp_all add: pow2_neg pow2_nat)
  ultimately show ?thesis using assms by linarith
qed

lemma usd_of_cents_error:
  assumes "in_i32 c"
  shows "is_num (usd_of_cents c)" and "\<bar>fval (usd_of_cents c) - of_int c / 100\<bar> \<le> \<bar>of_int c\<bar> / 100 / 2 ^ 53"
proof -
  have c: "\<bar>c\<bar> \<le> 2 ^ 31" using assms by (simp add: in_i32_def abs_le_iff)
  have "flt_of_int binary64 c = mk_num c 0" "flt_lit binary64 100 1 = mk_num 100 0"
    using c by (simp_all add: flt_lit_int f64_int)
  then obtain n d e where div: "0 < d" "usd_of_cents c = rnd binary64 n d e" "exact n d e = of_int c / 100"
    using flt_div_rnd [of "mk_num c 0" "mk_num 100 0" binary64] by (auto simp: usd_of_cents_def)
  have "(of_int \<bar>c\<bar> :: rat) \<le> of_int (2 ^ 31)" "c = 0 \<or> of_int 1 \<le> (of_int \<bar>c\<bar> :: rat)"
    using c by (simp_all only: of_int_le_iff) linarith
  then have "of_int c / 100 = (0 :: rat) \<or> pow2 (emin binary64) \<le> \<bar>of_int c / 100\<bar> \<and> \<bar>of_int c / 100\<bar> \<le> pow2 (emax binary64)"
    by (intro normal_range) auto
  from rnd_error [OF _ div(1,3) this] show "is_num (usd_of_cents c)"
      "\<bar>fval (usd_of_cents c) - of_int c / 100\<bar> \<le> \<bar>of_int c\<bar> / 100 / 2 ^ 53"
    by (simp_all add: div(2) prec64 pow2_neg)
qed

lemma usd_of_cents_bounds:
  assumes "in_i32 c"
  shows "\<bar>fval (usd_of_cents c) - of_int c / 100\<bar> \<le> 1 / 4000000" and "\<bar>fval (usd_of_cents c)\<bar> \<le> 2 ^ 25"
    and "fval (usd_of_cents c) = 0 \<or> 1 / 200 \<le> \<bar>fval (usd_of_cents c)\<bar>"
proof -
  define p x where "p = fval (usd_of_cents c)" and "x = (of_int c :: rat)"
  have err: "\<bar>p - x / 100\<bar> \<le> \<bar>x\<bar> / 100 / 2 ^ 53"
    using usd_of_cents_error(2) [OF assms] by (simp add: p_def x_def)
  have "\<bar>c\<bar> \<le> 2 ^ 31" using assms by (simp add: in_i32_def abs_le_iff)
  then have "(of_int \<bar>c\<bar> :: rat) \<le> of_int (2 ^ 31)" by (simp only: of_int_le_iff)
  then have x: "\<bar>x\<bar> \<le> 2147483648" by (simp add: x_def)
  then have "\<bar>x\<bar> / 100 / 2 ^ 53 \<le> 1 / 4000000" "\<bar>x\<bar> / 100 / 2 ^ 53 \<le> \<bar>x\<bar> / 1000" by simp_all
  then have e: "\<bar>p - x / 100\<bar> \<le> 1 / 4000000" "\<bar>p - x / 100\<bar> \<le> \<bar>x\<bar> / 1000" using err by linarith+
  then have "\<bar>p\<bar> \<le> 33554432" using x by linarith
  then show "\<bar>fval (usd_of_cents c) - of_int c / 100\<bar> \<le> 1 / 4000000" "\<bar>fval (usd_of_cents c)\<bar> \<le> 2 ^ 25"
    using e(1) by (simp_all add: p_def x_def)
  have "c = 0 \<or> (of_int 1 :: rat) \<le> of_int \<bar>c\<bar>" by (simp only: of_int_le_iff) linarith
  then have "x = 0 \<or> 1 \<le> \<bar>x\<bar>" by (simp add: x_def)
  then have "p = 0 \<or> 1 / 200 \<le> \<bar>p\<bar>" using e(2) by linarith
  then show "fval (usd_of_cents c) = 0 \<or> 1 / 200 \<le> \<bar>fval (usd_of_cents c)\<bar>" by (simp add: p_def)
qed

text \<open>A price in cents reaches the exchange as ten thousand micros per cent.\<close>

theorem cents_to_micros:
  assumes "in_i32 c"
  shows "flt_as_i64 (flt_round (flt_mul binary64 (usd_of_cents c) (flt_lit binary64 1000000 1))) = c * 10000"
proof -
  define p where "p = fval (usd_of_cents c)"
  note p = usd_of_cents_bounds [OF assms, folded p_def]
  obtain m e where mul: "flt_mul binary64 (usd_of_cents c) (flt_lit binary64 1000000 1) = rnd binary64 m 1 e"
      "exact m 1 e = p * 1000000"
    using flt_mul_rnd [OF usd_of_cents_error(1) [OF assms], of "mk_num 1000000 0" binary64]
    by (auto simp: flt_lit_int f64_int p_def)
  have "p * 1000000 = 0 \<or> pow2 (emin binary64) \<le> \<bar>p * 1000000\<bar> \<and> \<bar>p * 1000000\<bar> \<le> pow2 (emax binary64)"
    using p(2,3) by (cases "p = 0", simp, intro normal_range) (auto simp: abs_mult)
  from rnd_error [OF _ _ mul(2) this]
  have r: "is_num (rnd binary64 m 1 e)" "\<bar>fval (rnd binary64 m 1 e) - p * 1000000\<bar> \<le> \<bar>p * 1000000\<bar> / 2 ^ 53"
    by (simp_all add: prec64 pow2_neg)
  have "\<bar>p * 1000000\<bar> / 2 ^ 53 < 1 / 4" using p(2) by (simp add: abs_mult)
  moreover have "\<bar>p * 1000000 - of_int c * 10000\<bar> \<le> 1 / 4" using p(1) by linarith
  ultimately have "\<bar>fval (rnd binary64 m 1 e) - of_int c * 10000\<bar> < 1 / 2" using r(2) by linarith
  then have "flt_round (rnd binary64 m 1 e) = mk_num (c * 10000) 0"
    by (intro flt_round_near r(1)) simp
  moreover have "in_i64 (c * 10000)" using assms by (simp add: in_i32_def in_i64_def)
  ultimately show ?thesis by (simp add: mul(1) flt_as_i64_int)
qed

end
