(* ===== verification/Win_Notice.thy ===== *)
theory Win_Notice
  imports Bid_Pipeline
begin

text \<open>
  The win-notice gate of \<open>bidder-server/win_notice.rs\<close>: signing and verification of notices, the
  deduplication in Redis and the notice URL in every bid.

  HMAC and the hex codec are crates: the record \<open>crypto_ops\<close> has their calls and the locale
  \<open>notice_crypto\<close> what the code relies on: HMAC takes every key, decoding inverts encoding, and
  encoded text has hex digits only. Redis is the record \<open>dedup_ops\<close> with \<open>SET NX EX\<close>, and the locale \<open>dedup_store\<close> says
  what the command does. A command can time out or fail with or without having taken effect.
\<close>

section \<open>Percent encoding\<close>

definition percent_safe :: "char \<Rightarrow> bool" where
  "percent_safe c \<longleftrightarrow>
     (let b = (of_char c :: nat) in
      65 \<le> b \<and> b \<le> 90 \<or> 97 \<le> b \<and> b \<le> 122 \<or> 48 \<le> b \<and> b \<le> 57 \<or>
      c = CHR ''-'' \<or> c = CHR ''_'' \<or> c = CHR ''.'' \<or> c = CHR ''~'')"

fun percent_encode :: "string \<Rightarrow> string" where
  "percent_encode [] = []"
| "percent_encode (c # s) =
     (if percent_safe c then c # percent_encode s
      else CHR ''%'' # byte_hex_upper (of_char c) @ percent_encode s)"

section \<open>Signing\<close>

record crypto_ops =
  cy_hmac :: "string \<Rightarrow> string \<Rightarrow> u8 list option"
  cy_hex_encode :: "u8 list \<Rightarrow> string"
  cy_hex_decode :: "string \<Rightarrow> u8 list option"

record win_notice_gate_service =
  wg_cfg :: win_notice_config
  wg_secret :: "string option"
  wg_secrets :: "(string, string) hmap"

definition win_gate_new :: "win_notice_config \<Rightarrow> win_notice_gate_service" where
  "win_gate_new cfg =
     \<lparr>wg_cfg = cfg,
      wg_secret = (if wnc_require_auth cfg \<and> wnc_secret cfg \<noteq> [] then Some (wnc_secret cfg) else None),
      wg_secrets = filter (\<lambda>(k, v). v \<noteq> []) (wnc_secrets cfg)\<rparr>"

definition secret_for :: "win_notice_gate_service \<Rightarrow> string \<Rightarrow> string option" where
  "secret_for g exchange_id =
     (if exchange_id \<noteq> []
      then (case hm_get (wg_secrets g) exchange_id of Some s \<Rightarrow> Some s | None \<Rightarrow> wg_secret g)
      else wg_secret g)"

definition signing_message :: "string \<Rightarrow> string \<Rightarrow> u32 \<Rightarrow> u32 \<Rightarrow> string" where
  "signing_message request_id impid campaign_id creative_id =
     request_id @ ''|'' @ impid @ ''|'' @ u32_str campaign_id @ ''|'' @ u32_str creative_id"

definition sign :: "crypto_ops \<Rightarrow> win_notice_gate_service \<Rightarrow> string \<Rightarrow> string \<Rightarrow> string option" where
  "sign K g message exchange_id =
     Option.bind (secret_for g exchange_id) (\<lambda>secret.
     Option.bind (cy_hmac K secret message) (\<lambda>mac. Some (cy_hex_encode K mac)))"

definition verify_token :: "crypto_ops \<Rightarrow> win_notice_gate_service \<Rightarrow> string \<Rightarrow> string option \<Rightarrow> string \<Rightarrow> bool" where
  "verify_token K g message presented_hex exchange_id =
     (case secret_for g exchange_id of
        None \<Rightarrow> True
      | Some secret \<Rightarrow>
         (case presented_hex of
            None \<Rightarrow> False
          | Some hex \<Rightarrow>
             (if hex = [] then False
              else case cy_hex_decode K hex of
                     None \<Rightarrow> False
                   | Some presented \<Rightarrow>
                       (case cy_hmac K secret message of
                          None \<Rightarrow> False
                        | Some expected \<Rightarrow> expected = presented))))"

section \<open>The gate\<close>

datatype win_notice_gate = Accept | AuthFailed | Duplicate | DedupUnavailable

record 'd dedup_ops =
  dd_set_nx :: "nat \<Rightarrow> string \<Rightarrow> i64 \<Rightarrow> 'd \<Rightarrow> bool option \<times> 'd"

text \<open>
  What comes back within the 50 ms: the reply, or no usable reply to a command that was or was not
  executed.
\<close>

datatype dedup_reply = Reply | NoReply bool

record notice_call =
  nc_now :: nat
  nc_reply :: dedup_reply
  nc_request_id :: string
  nc_imp_id :: string
  nc_campaign_id :: u32
  nc_creative_id :: u32
  nc_token :: "string option"
  nc_exchange_id :: string

definition dedup_key :: "string \<Rightarrow> string \<Rightarrow> string" where
  "dedup_key request_id impid = ''v1:winx:'' @ request_id @ '':'' @ impid"

definition dedup_ttl :: "win_notice_config \<Rightarrow> i64" where
  "dedup_ttl cfg = i64_wrap (int (max (wnc_dedup_ttl_secs cfg) 1))"

definition gate_check ::
  "crypto_ops \<Rightarrow> 'd dedup_ops \<Rightarrow> win_notice_gate_service \<Rightarrow> notice_call \<Rightarrow> 'd \<Rightarrow> win_notice_gate \<times> 'd" where
  "gate_check K R g call d =
     (let message = signing_message (nc_request_id call) (nc_imp_id call) (nc_campaign_id call) (nc_creative_id call) in
      if \<not> verify_token K g message (nc_token call) (nc_exchange_id call) then (AuthFailed, d)
      else
       (let key = dedup_key (nc_request_id call) (nc_imp_id call);
            (set_result, d1) = dd_set_nx R (nc_now call) key (dedup_ttl (wg_cfg g)) d
        in case nc_reply call of
             Reply \<Rightarrow> (if set_result = Some True then Accept else Duplicate, d1)
           | NoReply executed \<Rightarrow> (DedupUnavailable, if executed then d1 else d)))"

section \<open>The notice URL\<close>

definition notice_url :: "crypto_ops \<Rightarrow> win_notice_gate_service \<Rightarrow> notice_url_builder" where
  "notice_url K g req =
     (if wnc_notice_base_url (wg_cfg g) = [] then None
      else
       (let message = signing_message (wnr_request_id req) (wnr_imp_id req) (wnr_campaign_id req) (wnr_creative_id req);
            token_param = (case sign K g message (wnr_exchange_id req) of Some t \<Rightarrow> ''&token='' @ t | None \<Rightarrow> []);
            exchange_param = (if wnr_exchange_id req = [] then [] else ''&exchange_id='' @ percent_encode (wnr_exchange_id req))
        in Some (wnc_notice_base_url (wg_cfg g) @ ''?request_id='' @ percent_encode (wnr_request_id req)
             @ ''&imp_id='' @ percent_encode (wnr_imp_id req) @ ''&campaign_id='' @ u32_str (wnr_campaign_id req)
             @ ''&creative_id='' @ u32_str (wnr_creative_id req)
             @ ''&clearing_price_micros='' @ int_str (wnr_clearing_price_micros req)
             @ ''&user_id='' @ percent_encode (wnr_user_id req) @ exchange_param @ token_param)))"

section \<open>The services\<close>

definition is_hex_digit :: "char \<Rightarrow> bool" where
  "is_hex_digit c \<longleftrightarrow> (let b = (of_char c :: nat) in 48 \<le> b \<and> b \<le> 57 \<or> 97 \<le> b \<and> b \<le> 102)"

locale notice_crypto =
  fixes K :: crypto_ops
  assumes hmac_mac: "\<exists>mac. cy_hmac K secret message = Some mac \<and> mac \<noteq> []"
    and decode_encode: "cy_hex_decode K (cy_hex_encode K bs) = Some bs"
    and encode_digits: "c \<in> set (cy_hex_encode K bs) \<Longrightarrow> is_hex_digit c"
    and encode_empty: "cy_hex_encode K bs = [] \<longleftrightarrow> bs = []"

text \<open>\<open>expires d k\<close> is the time until which key \<open>k\<close> is set.\<close>

locale dedup_store =
  fixes R :: "'d dedup_ops" and expires :: "'d \<Rightarrow> string \<Rightarrow> int"
  assumes set_nx_result: "0 < ttl \<Longrightarrow> dd_set_nx R now k ttl d = (r, d') \<Longrightarrow> r = Some True \<longleftrightarrow> expires d k \<le> int now"
    and set_nx_expires: "0 < ttl \<Longrightarrow> dd_set_nx R now k ttl d = (r, d') \<Longrightarrow>
      expires d' = (if expires d k \<le> int now then (expires d)(k := int now + ttl) else expires d)"

text \<open>A map from keys to expiry times.\<close>

definition map_dedup :: "(string \<Rightarrow> int) dedup_ops" where
  "map_dedup = \<lparr>dd_set_nx = (\<lambda>now k ttl d. if d k \<le> int now then (Some True, d(k := int now + ttl)) else (None, d))\<rparr>"

interpretation map_dedup: dedup_store map_dedup "\<lambda>d. d"
  by unfold_locales (auto simp: map_dedup_def split: if_splits)

text \<open>Hex digits of either case, as the crate reads them; it writes lower case.\<close>

definition hex_value :: "char \<Rightarrow> nat option" where
  "hex_value c =
     (let b = (of_char c :: nat) in
      if 48 \<le> b \<and> b \<le> 57 then Some (b - 48)
      else if 97 \<le> b \<and> b \<le> 102 then Some (b - 87)
      else if 65 \<le> b \<and> b \<le> 70 then Some (b - 55)
      else None)"

fun hex_encode :: "u8 list \<Rightarrow> string" where
  "hex_encode [] = []"
| "hex_encode (b # bs) = byte_hex_lower (unat b) @ hex_encode bs"

fun hex_decode :: "string \<Rightarrow> u8 list option" where
  "hex_decode [] = Some []"
| "hex_decode [c] = None"
| "hex_decode (c # c' # s) =
     (case (hex_value c, hex_value c', hex_decode s) of
        (Some a, Some b, Some bs) \<Rightarrow> Some (of_nat (16 * a + b) # bs)
      | _ \<Rightarrow> None)"

lemma hex_value_lower:
  assumes "n < 16"
  shows "hex_value (hex_lower n) = Some n" "is_hex_digit (hex_lower n)"
  using assms by (cases "n < 10"; simp add: hex_value_def hex_lower_def is_hex_digit_def Let_def)+

lemma hex_value_upper:
  assumes "n < 16"
  shows "hex_value (hex_upper n) = Some n" "percent_safe (hex_upper n)"
  using assms by (cases "n < 10"; simp add: hex_value_def hex_upper_def percent_safe_def Let_def)+

lemma byte_parts: "unat (b :: u8) div 16 < 16" "unat (b :: u8) mod 16 < 16" "of_nat (16 * (unat b div 16) + unat b mod 16) = b"
proof -
  have "unat b < 256" using unsigned_less [of b, where 'a = nat] by simp
  then show "unat b div 16 < 16" by simp
  show "unat b mod 16 < 16" by simp
  have "16 * (unat b div 16) + unat b mod 16 = unat b" by simp
  then show "of_nat (16 * (unat b div 16) + unat b mod 16) = b" by (simp only:) simp
qed

text \<open>A stand-in for HMAC: the bytes of the key and the message.\<close>

definition demo_hmac :: "string \<Rightarrow> string \<Rightarrow> u8 list option" where
  "demo_hmac key msg = Some (0 # map of_char (key @ msg))"

definition demo_crypto :: crypto_ops where
  "demo_crypto = \<lparr>cy_hmac = demo_hmac, cy_hex_encode = hex_encode, cy_hex_decode = hex_decode\<rparr>"

interpretation demo: notice_crypto demo_crypto
proof unfold_locales
  show "\<exists>mac. cy_hmac demo_crypto secret message = Some mac \<and> mac \<noteq> []" for secret message
    by (simp add: demo_crypto_def demo_hmac_def)
  show "cy_hex_decode demo_crypto (cy_hex_encode demo_crypto bs) = Some bs" for bs
    by (induction bs) (simp_all add: demo_crypto_def byte_hex_lower_def hex_value_lower byte_parts)
  show "is_hex_digit c" if "c \<in> set (cy_hex_encode demo_crypto bs)" for c bs
    using that by (induction bs) (auto simp: demo_crypto_def byte_hex_lower_def hex_value_lower byte_parts)
  show "cy_hex_encode demo_crypto bs = [] \<longleftrightarrow> bs = []" for bs
    by (cases bs) (simp_all add: demo_crypto_def byte_hex_lower_def)
qed

section \<open>Authentication\<close>

text \<open>
  C19. The gate turns a notice away for its token exactly if a secret applies to the notice's exchange
  and the token is not the hex form of the HMAC of the notice under that secret; it does so before
  Redis is touched. No other field, the price included, matters.
\<close>

theorem gate_auth_exact:
  assumes "gate_check K R g call d = (outcome, d')"
    and "message = signing_message (nc_request_id call) (nc_imp_id call) (nc_campaign_id call) (nc_creative_id call)"
  shows "(outcome = AuthFailed \<longleftrightarrow>
      (\<exists>secret. secret_for g (nc_exchange_id call) = Some secret \<and>
         (\<forall>hex mac. nc_token call = Some hex \<and> hex \<noteq> [] \<and> cy_hex_decode K hex = Some mac \<longrightarrow> cy_hmac K secret message \<noteq> Some mac))) \<and>
    (outcome = AuthFailed \<longrightarrow> d' = d)"
proof -
  let ?ok = "verify_token K g message (nc_token call) (nc_exchange_id call)"
  have "outcome = AuthFailed \<longleftrightarrow> \<not> ?ok" and "outcome = AuthFailed \<longrightarrow> d' = d"
    using assms by (auto simp: gate_check_def Let_def split: if_splits prod.splits dedup_reply.splits)
  moreover have "\<not> ?ok \<longleftrightarrow> (\<exists>secret. secret_for g (nc_exchange_id call) = Some secret \<and>
         (\<forall>hex mac. nc_token call = Some hex \<and> hex \<noteq> [] \<and> cy_hex_decode K hex = Some mac \<longrightarrow> cy_hmac K secret message \<noteq> Some mac))"
    by (auto simp: verify_token_def split: option.splits)
  ultimately show ?thesis by blast
qed

definition ex_win_config :: "string \<Rightarrow> (string, string) hmap \<Rightarrow> win_notice_config" where
  "ex_win_config secret secrets = \<lparr>wnc_require_auth = True, wnc_secret = secret, wnc_secrets = secrets,
     wnc_dedup_ttl_secs = 3600, wnc_notice_base_url = ''https://b.example/rtb/win''\<rparr>"

definition ex_call :: "string option \<Rightarrow> string \<Rightarrow> nat \<Rightarrow> notice_call" where
  "ex_call token exchange now = \<lparr>nc_now = now, nc_reply = Reply, nc_request_id = ''r1'', nc_imp_id = ''i1'',
     nc_campaign_id = 7, nc_creative_id = 9, nc_token = token, nc_exchange_id = exchange\<rparr>"

theorem gate_auth_exact_witness:
  "fst (gate_check demo_crypto map_dedup (win_gate_new (ex_win_config ''s'' [])) (ex_call None [] 0) (\<lambda>_. 0)) = AuthFailed"
proof -
  obtain outcome d' where run: "gate_check demo_crypto map_dedup (win_gate_new (ex_win_config ''s'' [])) (ex_call None [] 0) (\<lambda>_. 0) = (outcome, d')"
    by (cases "gate_check demo_crypto map_dedup (win_gate_new (ex_win_config ''s'' [])) (ex_call None [] 0) (\<lambda>_. 0)")
  have "secret_for (win_gate_new (ex_win_config ''s'' [])) (nc_exchange_id (ex_call None [] 0)) = Some ''s''"
    by (simp add: secret_for_def win_gate_new_def ex_win_config_def ex_call_def)
  then show ?thesis using gate_auth_exact [OF run refl] run by (simp add: ex_call_def)
qed

text \<open>
  With authentication required, an empty default secret and any set of secrets per exchange, a
  notice that names no exchange or an exchange without a secret passes the gate with any token or none.
\<close>

theorem no_default_secret_open:
  assumes "wnc_secret cfg = []" "nc_exchange_id call = [] \<or> nc_exchange_id call \<notin> fst ` set (wnc_secrets cfg)"
  shows "fst (gate_check K R (win_gate_new cfg) call d) \<noteq> AuthFailed"
proof -
  have "secret_for (win_gate_new cfg) (nc_exchange_id call) = None"
    using assms by (force simp: secret_for_def win_gate_new_def hm_get_def split: option.splits dest!: map_of_SomeD)
  then show ?thesis
    by (auto simp: gate_check_def verify_token_def Let_def split: prod.splits dedup_reply.splits)
qed

theorem no_default_secret_open_witness:
  "fst (gate_check demo_crypto map_dedup (win_gate_new (ex_win_config [] [(''adx'', ''s'')])) (ex_call None [] 0) (\<lambda>_. 0)) \<noteq> AuthFailed"
  by (rule no_default_secret_open) (simp_all add: ex_win_config_def ex_call_def)

text \<open>The separator may occur in the ids, so different notices can share a signature.\<close>

lemma signing_message_collision:
  "signing_message ''a|b'' ''c'' k l = signing_message ''a'' ''b|c'' k l"
  by (simp add: signing_message_def)

lemma dedup_key_collision: "dedup_key ''a:b'' ''c'' = dedup_key ''a'' ''b:c''"
  by (simp add: dedup_key_def)

section \<open>At most one win\<close>

fun gate_run :: "crypto_ops \<Rightarrow> 'd dedup_ops \<Rightarrow> win_notice_gate_service \<Rightarrow> notice_call list \<Rightarrow> 'd \<Rightarrow> win_notice_gate list" where
  "gate_run K R g [] d = []"
| "gate_run K R g (call # calls) d = (let (outcome, d1) = gate_check K R g call d in outcome # gate_run K R g calls d1)"

definition accepted :: "string \<Rightarrow> string \<Rightarrow> (notice_call \<times> win_notice_gate) list \<Rightarrow> nat" where
  "accepted rid i outcomes =
     length (filter (\<lambda>(call, outcome). outcome = Accept \<and> nc_request_id call = rid \<and> nc_imp_id call = i) outcomes)"

context dedup_store
begin

lemma check_expires:
  assumes "0 < dedup_ttl (wg_cfg g)" "gate_check K R g call d = (outcome, d')"
  shows "expires d k \<le> expires d' k \<or> expires d k \<le> int (nc_now call)"
    and "outcome = Accept \<Longrightarrow> expires d (dedup_key (nc_request_id call) (nc_imp_id call)) \<le> int (nc_now call)"
    and "outcome = Accept \<Longrightarrow>
      expires d' (dedup_key (nc_request_id call) (nc_imp_id call)) = int (nc_now call) + dedup_ttl (wg_cfg g)"
proof -
  let ?key = "dedup_key (nc_request_id call) (nc_imp_id call)" and ?ttl = "dedup_ttl (wg_cfg g)"
  obtain r d1 where set: "dd_set_nx R (nc_now call) ?key ?ttl d = (r, d1)" by (cases "dd_set_nx R (nc_now call) ?key ?ttl d")
  note nx = set_nx_result [OF assms(1) set] set_nx_expires [OF assms(1) set]
  have d': "d' = d \<or> d' = d1" and accept: "outcome = Accept \<Longrightarrow> r = Some True \<and> d' = d1"
    using assms(2) set by (auto simp: gate_check_def Let_def split: if_splits dedup_reply.splits)
  show "expires d k \<le> expires d' k \<or> expires d k \<le> int (nc_now call)" using d' nx(2) by auto
  show "expires d ?key \<le> int (nc_now call)" "expires d' ?key = int (nc_now call) + ?ttl" if "outcome = Accept"
    using accept [OF that] nx by auto
qed

lemma blocked:
  assumes "0 < dedup_ttl (wg_cfg g)" "\<forall>c \<in> set calls. int (nc_now c) < bound" "bound \<le> expires d (dedup_key rid i)"
  shows "accepted rid i (zip calls (gate_run K R g calls d)) = 0"
  using assms(2,3)
proof (induction calls arbitrary: d)
  case (Cons call calls)
  obtain outcome d' where step: "gate_check K R g call d = (outcome, d')" by (cases "gate_check K R g call d")
  have "bound \<le> expires d' (dedup_key rid i)" using check_expires(1) [OF assms(1) step, of "dedup_key rid i"] Cons.prems by auto
  moreover have "\<not> (outcome = Accept \<and> nc_request_id call = rid \<and> nc_imp_id call = i)"
    using check_expires(2) [OF assms(1) step] Cons.prems by auto
  ultimately show ?case using Cons step by (auto simp: accepted_def)
qed (simp add: accepted_def)

lemma accepted_once:
  assumes "0 < dedup_ttl (wg_cfg g)"
    and "\<forall>c \<in> set calls. t0 \<le> int (nc_now c) \<and> int (nc_now c) < t0 + dedup_ttl (wg_cfg g)"
  shows "accepted rid i (zip calls (gate_run K R g calls d)) \<le> 1"
  using assms(2)
proof (induction calls arbitrary: d)
  case (Cons call calls)
  obtain outcome d' where step: "gate_check K R g call d = (outcome, d')" by (cases "gate_check K R g call d")
  show ?case
  proof (cases "outcome = Accept \<and> nc_request_id call = rid \<and> nc_imp_id call = i")
    case True
    then have "t0 + dedup_ttl (wg_cfg g) \<le> expires d' (dedup_key rid i)"
      using check_expires(3) [OF assms(1) step] Cons.prems by auto
    then have "accepted rid i (zip calls (gate_run K R g calls d')) = 0"
      using Cons.prems by (intro blocked [OF assms(1)]) auto
    then show ?thesis using step by (simp add: accepted_def)
  next
    case False
    then show ?thesis using Cons step by (auto simp: accepted_def)
  qed
qed (simp add: accepted_def)

end

text \<open>
  C9. However often and in whatever order the notices for an impression arrive within one
  deduplication period, with valid or forged tokens and with Redis answering, timing out or failing,
  at most one of them is accepted, so that a win is counted at most once.
\<close>

theorem win_accepted_once:
  assumes "dedup_store R expires" "wnc_dedup_ttl_secs cfg < 2 ^ 63"
    and "\<forall>c \<in> set calls. t0 \<le> int (nc_now c) \<and> int (nc_now c) < t0 + int (max (wnc_dedup_ttl_secs cfg) 1)"
  shows "accepted rid i (zip calls (gate_run K R (win_gate_new cfg) calls d)) \<le> 1"
proof -
  have "dedup_ttl (wg_cfg (win_gate_new cfg)) = int (max (wnc_dedup_ttl_secs cfg) 1)"
    using assms(2) by (simp add: dedup_ttl_def win_gate_new_def i64_wrap_id in_i64_def)
  then show ?thesis using dedup_store.accepted_once [OF assms(1), of "win_gate_new cfg" calls t0] assms(3) by simp
qed

theorem win_accepted_once_witness:
  "let calls = [ex_call None [] 5, ex_call None [] 10, ex_call None [] 3000];
       outcomes = gate_run demo_crypto map_dedup (win_gate_new (ex_win_config [] [])) calls (\<lambda>_. 0)
   in outcomes = [Accept, Duplicate, Duplicate] \<and> accepted ''r1'' ''i1'' (zip calls outcomes) \<le> 1"
proof -
  let ?calls = "[ex_call None [] 5, ex_call None [] 10, ex_call None [] 3000]"
  have "accepted ''r1'' ''i1'' (zip ?calls (gate_run demo_crypto map_dedup (win_gate_new (ex_win_config [] [])) ?calls (\<lambda>_. 0))) \<le> 1"
    by (rule win_accepted_once [OF map_dedup.dedup_store_axioms, where ?t0.0 = 0]) (simp_all add: ex_win_config_def ex_call_def)
  moreover have "gate_run demo_crypto map_dedup (win_gate_new (ex_win_config [] [])) ?calls (\<lambda>_. 0) = [Accept, Duplicate, Duplicate]"
    by (simp add: gate_check_def verify_token_def secret_for_def win_gate_new_def ex_win_config_def ex_call_def
        map_dedup_def dedup_ttl_def i64_wrap_def)
  ultimately show ?thesis by (simp add: Let_def)
qed

section \<open>The URL carries the notice\<close>

text \<open>Decoding of a query string, as the server's framework does it for the win endpoint.\<close>

fun split_on :: "char \<Rightarrow> string \<Rightarrow> string list" where
  "split_on c [] = [[]]"
| "split_on c (x # xs) =
     (if x = c then [] # split_on c xs
      else (case split_on c xs of [] \<Rightarrow> [[x]] | y # ys \<Rightarrow> (x # y) # ys))"

fun percent_decode :: "string \<Rightarrow> string" where
  "percent_decode [] = []"
| "percent_decode (c # s) =
     (if c = CHR ''%''
      then (case s of
              a # b # t \<Rightarrow>
                (case (hex_value a, hex_value b) of
                   (Some x, Some y) \<Rightarrow> char_of (16 * x + y) # percent_decode t
                 | _ \<Rightarrow> c # percent_decode s)
            | _ \<Rightarrow> c # percent_decode s)
      else (if c = CHR ''+'' then CHR '' '' else c) # percent_decode s)"

definition parse_pair :: "string \<Rightarrow> string \<times> string" where
  "parse_pair s = (percent_decode (takeWhile (\<lambda>c. c \<noteq> CHR ''='') s), percent_decode (tl (dropWhile (\<lambda>c. c \<noteq> CHR ''='') s)))"

definition parse_query :: "string \<Rightarrow> (string \<times> string) list" where
  "parse_query q = map parse_pair (split_on (CHR ''&'') q)"

lemma split_on_free: "c \<notin> set xs \<Longrightarrow> split_on c xs = [xs]"
  by (induction xs) auto

lemma split_on_sep: "c \<notin> set xs \<Longrightarrow> split_on c (xs @ c # ys) = xs # split_on c ys"
  by (induction xs) auto

lemma percent_safe_plain: "percent_safe c \<Longrightarrow> c \<noteq> CHR ''%'' \<and> c \<noteq> CHR ''+'' \<and> c \<noteq> CHR ''&'' \<and> c \<noteq> CHR ''=''"
  by (auto simp: percent_safe_def Let_def)

lemma char_parts: "of_char (c :: char) div (16 :: nat) < 16" "of_char (c :: char) mod (16 :: nat) < 16"
  by (rule less_mult_imp_div_less, simp, simp)

lemma percent_encode_plain: "c \<in> set (percent_encode s) \<Longrightarrow> percent_safe c \<or> c = CHR ''%''"
  by (induction s) (auto simp: byte_hex_upper_def hex_value_upper(2) char_parts split: if_splits)

lemma percent_roundtrip [simp]: "percent_decode (percent_encode s) = s"
proof (induction s)
  case (Cons c s)
  have "16 * (of_char c div (16 :: nat)) + of_char c mod 16 = of_char c" by simp
  then have "char_of (16 * (of_char c div (16 :: nat)) + of_char c mod 16) = c" by (simp only: char_of_char)
  then show ?case using Cons percent_safe_plain [of c] by (auto simp: byte_hex_upper_def hex_value_upper(1) char_parts)
qed simp

lemma percent_decode_plain: "\<forall>c \<in> set s. c \<noteq> CHR ''%'' \<and> c \<noteq> CHR ''+'' \<Longrightarrow> percent_decode s = s"
  by (induction s) auto

text \<open>A text that can stand for a value in a query.\<close>

definition query_value :: "string \<Rightarrow> bool" where
  "query_value s \<longleftrightarrow> CHR ''&'' \<notin> set s"

lemma query_value_encode [simp]: "query_value (percent_encode s)"
  using percent_encode_plain percent_safe_plain unfolding query_value_def by blast

lemma number_chars: "is_digit c \<Longrightarrow> c \<noteq> CHR ''%'' \<and> c \<noteq> CHR ''+'' \<and> c \<noteq> CHR ''&''"
  by (auto simp: is_digit_def)

lemma query_value_numbers [simp]:
  "query_value (u32_str n)" "percent_decode (u32_str n) = u32_str n"
  "query_value (int_str z)" "percent_decode (int_str z) = int_str z"
  using nat_str_digits number_chars
  by (auto simp: query_value_def u32_str_def int_str_def intro!: percent_decode_plain)

lemma parse_pair_split:
  assumes "CHR ''='' \<notin> set k" "percent_decode k = k"
  shows "parse_pair (k @ CHR ''='' # v) = (k, percent_decode v)"
proof -
  have "takeWhile (\<lambda>c. c \<noteq> CHR ''='') (k @ CHR ''='' # v) = k" "dropWhile (\<lambda>c. c \<noteq> CHR ''='') (k @ CHR ''='' # v) = CHR ''='' # v"
    using assms(1) by (auto simp: takeWhile_append dropWhile_append)
  then show ?thesis using assms(2) by (simp add: parse_pair_def)
qed

lemma parse_query_pair:
  assumes "query_value v" "CHR ''&'' \<notin> set k" "CHR ''='' \<notin> set k" "percent_decode k = k"
  shows "parse_query (k @ CHR ''='' # v) = [(k, percent_decode v)]"
    and "parse_query (k @ CHR ''='' # v @ CHR ''&'' # q) = (k, percent_decode v) # parse_query q"
proof -
  have free: "CHR ''&'' \<notin> set (k @ CHR ''='' # v)" using assms(1,2) by (simp add: query_value_def)
  show "parse_query (k @ CHR ''='' # v) = [(k, percent_decode v)]"
    unfolding parse_query_def split_on_free [OF free] using parse_pair_split [OF assms(3,4)] by simp
  have "k @ CHR ''='' # v @ CHR ''&'' # q = (k @ CHR ''='' # v) @ CHR ''&'' # q" by simp
  then show "parse_query (k @ CHR ''='' # v @ CHR ''&'' # q) = (k, percent_decode v) # parse_query q"
    unfolding parse_query_def by (simp only: split_on_sep [OF free] list.map parse_pair_split [OF assms(3,4)])
qed

text \<open>The query of a list of pairs, in the form the URL builder writes.\<close>

fun query_of :: "(string \<times> string) list \<Rightarrow> string" where
  "query_of [] = []"
| "query_of [(k, v)] = k @ CHR ''='' # v"
| "query_of ((k, v) # p # ps) = k @ CHR ''='' # v @ CHR ''&'' # query_of (p # ps)"

definition query_key :: "string \<Rightarrow> bool" where
  "query_key k \<longleftrightarrow> CHR ''&'' \<notin> set k \<and> CHR ''='' \<notin> set k \<and> percent_decode k = k"

lemma parse_query_of:
  assumes "ps \<noteq> []" "\<forall>(k, v) \<in> set ps. query_key k \<and> query_value v"
  shows "parse_query (query_of ps) = map (\<lambda>(k, v). (k, percent_decode v)) ps"
  using assms
  by (induction ps rule: query_of.induct) (auto simp: query_key_def parse_query_pair)

definition notice_fields :: "crypto_ops \<Rightarrow> win_notice_gate_service \<Rightarrow> win_notice_request \<Rightarrow> (string \<times> string) list" where
  "notice_fields K g req =
     [(''request_id'', wnr_request_id req), (''imp_id'', wnr_imp_id req), (''campaign_id'', u32_str (wnr_campaign_id req)),
      (''creative_id'', u32_str (wnr_creative_id req)), (''clearing_price_micros'', int_str (wnr_clearing_price_micros req)),
      (''user_id'', wnr_user_id req)] @
     (if wnr_exchange_id req = [] then [] else [(''exchange_id'', wnr_exchange_id req)]) @
     (case sign K g (signing_message (wnr_request_id req) (wnr_imp_id req) (wnr_campaign_id req) (wnr_creative_id req))
             (wnr_exchange_id req) of
        Some t \<Rightarrow> [(''token'', t)]
      | None \<Rightarrow> [])"

context notice_crypto
begin

lemma sign_verifies: "verify_token K g message (sign K g message exchange_id) exchange_id"
proof (cases "secret_for g exchange_id")
  case None
  then show ?thesis by (simp add: verify_token_def)
next
  case (Some secret)
  obtain mac where "cy_hmac K secret message = Some mac" "mac \<noteq> []" using hmac_mac by blast
  then show ?thesis using Some by (simp add: verify_token_def sign_def decode_encode encode_empty)
qed

lemma sign_plain:
  assumes "sign K g message exchange_id = Some t"
  shows "query_value t" and "percent_decode t = t"
proof -
  have "is_hex_digit c" if "c \<in> set t" for c
    using assms that encode_digits by (auto simp: sign_def bind_eq_Some_conv)
  moreover have "is_hex_digit c \<Longrightarrow> c \<noteq> CHR ''%'' \<and> c \<noteq> CHR ''+'' \<and> c \<noteq> CHR ''&''" for c
    by (auto simp: is_hex_digit_def Let_def)
  ultimately show "query_value t" "percent_decode t = t"
    by (auto simp: query_value_def intro!: percent_decode_plain)
qed

lemma notice_url_parses:
  assumes "wnc_notice_base_url (wg_cfg g) \<noteq> []"
  shows "\<exists>q. notice_url K g req = Some (wnc_notice_base_url (wg_cfg g) @ ''?'' @ q) \<and> parse_query q = notice_fields K g req"
proof -
  let ?msg = "signing_message (wnr_request_id req) (wnr_imp_id req) (wnr_campaign_id req) (wnr_creative_id req)"
  let ?token = "sign K g ?msg (wnr_exchange_id req)"
  define ps where "ps = [(''request_id'', percent_encode (wnr_request_id req)), (''imp_id'', percent_encode (wnr_imp_id req)),
      (''campaign_id'', u32_str (wnr_campaign_id req)), (''creative_id'', u32_str (wnr_creative_id req)),
      (''clearing_price_micros'', int_str (wnr_clearing_price_micros req)), (''user_id'', percent_encode (wnr_user_id req))] @
     (if wnr_exchange_id req = [] then [] else [(''exchange_id'', percent_encode (wnr_exchange_id req))]) @
     (case ?token of Some t \<Rightarrow> [(''token'', t)] | None \<Rightarrow> [])"
  have keys: "query_key ''request_id''" "query_key ''imp_id''" "query_key ''campaign_id''" "query_key ''creative_id''"
      "query_key ''clearing_price_micros''" "query_key ''user_id''" "query_key ''exchange_id''" "query_key ''token''"
    by (simp_all add: query_key_def)
  have "parse_query (query_of ps) = map (\<lambda>(k, v). (k, percent_decode v)) ps"
    using keys sign_plain(1) by (intro parse_query_of) (auto simp: ps_def split: option.splits)
  also have "\<dots> = notice_fields K g req"
    using sign_plain(2) by (auto simp: ps_def notice_fields_def split: option.splits)
  finally have "parse_query (query_of ps) = notice_fields K g req" .
  moreover have "notice_url K g req = Some (wnc_notice_base_url (wg_cfg g) @ ''?'' @ query_of ps)"
    using assms by (cases ?token) (auto simp: notice_url_def ps_def Let_def)
  ultimately show ?thesis by blast
qed

end

text \<open>
  C16. The notice URL of a bid carries the notice: decoding its query gives back the request,
  impression, campaign, creative, price, user and exchange of the bid, whatever characters their ids
  have, and the token in it is accepted by the gate for exactly these ids and exchange, whatever price
  the exchange substitutes.
\<close>

theorem notice_url_roundtrip:
  assumes "notice_crypto K" "wnc_notice_base_url (wg_cfg g) \<noteq> []"
  shows "\<exists>q. notice_url K g req = Some (wnc_notice_base_url (wg_cfg g) @ ''?'' @ q) \<and>
    parse_query q = notice_fields K g req \<and>
    verify_token K g (signing_message (wnr_request_id req) (wnr_imp_id req) (wnr_campaign_id req) (wnr_creative_id req))
      (map_of (parse_query q) ''token'') (case map_of (parse_query q) ''exchange_id'' of Some x \<Rightarrow> x | None \<Rightarrow> [])"
proof -
  let ?msg = "signing_message (wnr_request_id req) (wnr_imp_id req) (wnr_campaign_id req) (wnr_creative_id req)"
  obtain q where q: "notice_url K g req = Some (wnc_notice_base_url (wg_cfg g) @ ''?'' @ q)" "parse_query q = notice_fields K g req"
    using notice_crypto.notice_url_parses [OF assms] by blast
  have "map_of (notice_fields K g req) ''token'' = sign K g ?msg (wnr_exchange_id req)"
      "(case map_of (notice_fields K g req) ''exchange_id'' of Some x \<Rightarrow> x | None \<Rightarrow> []) = wnr_exchange_id req"
    by (auto simp: notice_fields_def split: option.splits)
  then show ?thesis using q notice_crypto.sign_verifies [OF assms(1)] by auto
qed

definition ex_notice :: win_notice_request where
  "ex_notice = \<lparr>wnr_request_id = ''r&1'', wnr_imp_id = ''i=1'', wnr_campaign_id = 7, wnr_creative_id = 9,
     wnr_clearing_price_micros = 1200000, wnr_user_id = ''u 1'', wnr_exchange_id = ''adx''\<rparr>"

theorem notice_url_roundtrip_witness:
  "\<exists>q. notice_url demo_crypto (win_gate_new (ex_win_config ''s'' [])) ex_notice = Some (''https://b.example/rtb/win'' @ ''?'' @ q) \<and>
     map_of (parse_query q) ''request_id'' = Some ''r&1'' \<and> map_of (parse_query q) ''user_id'' = Some ''u 1''"
proof -
  have base: "wnc_notice_base_url (wg_cfg (win_gate_new (ex_win_config ''s'' []))) = ''https://b.example/rtb/win''"
    by (simp add: win_gate_new_def ex_win_config_def)
  obtain q where "notice_url demo_crypto (win_gate_new (ex_win_config ''s'' [])) ex_notice = Some (''https://b.example/rtb/win'' @ ''?'' @ q)"
      "parse_query q = notice_fields demo_crypto (win_gate_new (ex_win_config ''s'' [])) ex_notice"
    using notice_url_roundtrip [OF demo.notice_crypto_axioms, of "win_gate_new (ex_win_config ''s'' [])" ex_notice] base by auto
  then show ?thesis by (intro exI [of _ q]) (simp add: notice_fields_def ex_notice_def)
qed

end
