(* ===== verification/Kafka_Events.thy ===== *)
theory Kafka_Events
  imports Bidder_Config Hedging
begin

text \<open>
  The event path: \<open>kafka_incident.rs\<close> (drop policy and the monitor that flips it), \<open>kafka.rs\<close> of
  the server (the publisher on an rdkafka producer) and \<open>events.rs\<close> (the interface and its no-op).

  The producer is rdkafka: the record \<open>producer_ops\<close> has the one call the code makes, and the
  delivery callback is an operation of its own. The monitor's task is the function \<open>monitor_tick\<close>,
  applied once per interval. Encoding of events is generated code, a parameter.
\<close>

section \<open>The policy and its counters\<close>

datatype effective_policy = EffNewest | EffOldest | EffRandomSample

fun policy_u8 :: "effective_policy \<Rightarrow> u8" where
  "policy_u8 EffNewest = 0"
| "policy_u8 EffOldest = 1"
| "policy_u8 EffRandomSample = 2"

definition policy_from_u8 :: "u8 \<Rightarrow> effective_policy" where
  "policy_from_u8 v = (if v = 1 then EffOldest else if v = 2 then EffRandomSample else EffNewest)"

fun policy_of_config :: "kafka_drop_policy \<Rightarrow> effective_policy" where
  "policy_of_config Newest = EffNewest"
| "policy_of_config Oldest = EffOldest"
| "policy_of_config RandomSample = EffRandomSample"
| "policy_of_config IncidentMode = EffNewest"

record incident_state =
  ki_base_policy :: effective_policy
  ki_effective :: u8
  ki_published_total :: u64
  ki_dropped_total :: u64
  ki_auto_flip :: bool

definition incident_new :: "kafka_drop_policy \<Rightarrow> incident_state" where
  "incident_new base =
     \<lparr>ki_base_policy = policy_of_config base, ki_effective = policy_u8 (policy_of_config base),
      ki_published_total = 0, ki_dropped_total = 0, ki_auto_flip = (base = IncidentMode)\<rparr>"

definition effective_policy_of :: "incident_state \<Rightarrow> effective_policy" where
  "effective_policy_of s = policy_from_u8 (ki_effective s)"

definition record_published :: "incident_state \<Rightarrow> incident_state" where
  "record_published s = s\<lparr>ki_published_total := u64_add (ki_published_total s) 1\<rparr>"

definition record_dropped :: "incident_state \<Rightarrow> incident_state" where
  "record_dropped s = s\<lparr>ki_dropped_total := u64_add (ki_dropped_total s) 1\<rparr>"

definition incident_snapshot :: "incident_state \<Rightarrow> u64 \<times> u64" where
  "incident_snapshot s = (ki_published_total s, ki_dropped_total s)"

section \<open>The monitor\<close>

record monitor =
  mo_last :: "u64 \<times> u64"
  mo_over_count :: nat
  mo_under_count :: nat
  mo_in_incident :: bool

definition monitor_start :: "incident_state \<Rightarrow> monitor" where
  "monitor_start s = \<lparr>mo_last = incident_snapshot s, mo_over_count = 0, mo_under_count = 0, mo_in_incident = False\<rparr>"

definition drop_rate :: "u64 \<Rightarrow> u64 \<Rightarrow> flt" where
  "drop_rate pub_delta drop_delta =
     (let total = u64_add pub_delta drop_delta in
      if total = 0 then flt_lit binary64 0 1
      else flt_div binary64 (flt_of_int binary64 (int drop_delta)) (flt_of_int binary64 (int total)))"

text \<open>\<open>u32::saturating_add(1)\<close>.\<close>

definition u32_sat_inc :: "nat \<Rightarrow> nat" where
  "u32_sat_inc n = min (n + 1) (2 ^ 32 - 1)"

definition monitor_tick :: "nat \<Rightarrow> flt \<Rightarrow> incident_state \<times> monitor \<Rightarrow> incident_state \<times> monitor" where
  "monitor_tick dwell_ticks threshold sm =
     (case sm of (s, mo) \<Rightarrow>
      let cur = incident_snapshot s;
          pub_delta = fst cur - fst (mo_last mo);
          drop_delta = snd cur - snd (mo_last mo);
          rate = drop_rate pub_delta drop_delta;
          mo1 = mo\<lparr>mo_last := cur\<rparr>
      in if \<not> ki_auto_flip s then (s, mo1)
         else
          (let mo2 = (if flt_gt rate threshold
                      then mo1\<lparr>mo_over_count := u32_sat_inc (mo_over_count mo), mo_under_count := 0\<rparr>
                      else mo1\<lparr>mo_under_count := u32_sat_inc (mo_under_count mo), mo_over_count := 0\<rparr>)
           in if \<not> mo_in_incident mo2 \<and> dwell_ticks \<le> mo_over_count mo2
              then (s\<lparr>ki_effective := policy_u8 EffRandomSample\<rparr>, mo2\<lparr>mo_in_incident := True\<rparr>)
              else if mo_in_incident mo2 \<and> dwell_ticks \<le> mo_under_count mo2
              then (s\<lparr>ki_effective := policy_u8 (ki_base_policy s)\<rparr>, mo2\<lparr>mo_in_incident := False\<rparr>)
              else (s, mo2)))"

section \<open>The publisher\<close>

datatype send_result = SendOk | QueueFull | SendErr

record 'q producer_ops =
  pr_send :: "'q \<Rightarrow> string \<Rightarrow> u8 list \<Rightarrow> u8 list \<Rightarrow> send_result \<times> 'q"

record 'q kafka_publisher =
  kp_producer :: 'q
  kp_incident :: incident_state
  kp_sample_counter :: u64

definition RANDOM_SAMPLE_DENOMINATOR :: u64 where
  "RANDOM_SAMPLE_DENOMINATOR = 10"

definition is_ascii_space :: "char \<Rightarrow> bool" where
  "is_ascii_space c \<longleftrightarrow> of_char c = (32 :: nat) \<or> (9 \<le> (of_char c :: nat) \<and> of_char c \<le> (13 :: nat))"

text \<open>\<open>create\<close> is rdkafka's client creation; it may refuse the configuration.\<close>

definition kafka_publisher_new ::
  "(kafka_config \<Rightarrow> 'q anyhow) \<Rightarrow> kafka_config \<Rightarrow> incident_state \<Rightarrow> 'q kafka_publisher anyhow" where
  "kafka_publisher_new create cfg incident =
     (if list_all is_ascii_space (kc_brokers cfg)
      then Inl ''kafka.brokers is empty - Kafka publisher disabled by config''
      else case create cfg of
             Inl e \<Rightarrow> Inl e
           | Inr q \<Rightarrow> Inr \<lparr>kp_producer = q, kp_incident = incident, kp_sample_counter = 0\<rparr>)"

definition delivery :: "bool \<Rightarrow> 'q kafka_publisher \<Rightarrow> 'q kafka_publisher" where
  "delivery ok p = p\<lparr>kp_incident := (if ok then record_published (kp_incident p) else record_dropped (kp_incident p))\<rparr>"

definition kafka_enqueue ::
  "'q producer_ops \<Rightarrow> ('e \<Rightarrow> u8 list) \<Rightarrow> string \<Rightarrow> u8 list \<Rightarrow> 'e \<Rightarrow> 'q kafka_publisher \<Rightarrow> 'q kafka_publisher" where
  "kafka_enqueue Q encode topic key event p =
     (case pr_send Q (kp_producer p) topic key (encode event) of
        (SendOk, q) \<Rightarrow> p\<lparr>kp_producer := q\<rparr>
      | (_, q) \<Rightarrow> p\<lparr>kp_producer := q, kp_incident := record_dropped (kp_incident p)\<rparr>)"

definition kafka_publish ::
  "'q producer_ops \<Rightarrow> ('e \<Rightarrow> u8 list) \<Rightarrow> string \<Rightarrow> u8 list \<Rightarrow> 'e \<Rightarrow> 'q kafka_publisher \<Rightarrow> 'q kafka_publisher" where
  "kafka_publish Q encode topic key event p =
     (if effective_policy_of (kp_incident p) = EffRandomSample
      then
       (let n = kp_sample_counter p; p1 = p\<lparr>kp_sample_counter := u64_add n 1\<rparr> in
        if n mod RANDOM_SAMPLE_DENOMINATOR \<noteq> 0
        then p1\<lparr>kp_incident := record_dropped (kp_incident p1)\<rparr>
        else kafka_enqueue Q encode topic key event p1)
      else kafka_enqueue Q encode topic key event p)"

text \<open>The interface the handlers hold, its two implementations and the choice \<open>main.rs\<close> makes.\<close>

record ('q, 'e) event_publisher =
  ep_publish :: "string \<Rightarrow> u8 list \<Rightarrow> 'e \<Rightarrow> 'q \<Rightarrow> 'q"

definition kafka_event_publisher :: "'q producer_ops \<Rightarrow> ('e \<Rightarrow> u8 list) \<Rightarrow> ('q kafka_publisher, 'e) event_publisher" where
  "kafka_event_publisher Q encode = \<lparr>ep_publish = kafka_publish Q encode\<rparr>"

definition no_op_event_publisher :: "('q, 'e) event_publisher" where
  "no_op_event_publisher = \<lparr>ep_publish = (\<lambda>topic key event q. q)\<rparr>"

section \<open>Sampling\<close>

text \<open>How many of \<open>n\<close> events the counter lets through, starting at \<open>c\<close>.\<close>

definition kept :: "nat \<Rightarrow> nat \<Rightarrow> nat" where
  "kept c n = length (filter (\<lambda>j. j mod RANDOM_SAMPLE_DENOMINATOR = 0) [c..<c + n])"

lemma kept_simps [simp]:
  "kept c 0 = 0"
  "kept c (Suc n) = kept c n + (if (c + n) mod 10 = 0 then 1 else 0)"
  by (simp_all add: kept_def RANDOM_SAMPLE_DENOMINATOR_def)

lemma div_step: "(a + 10) div 10 = (a + 9) div 10 + (if a mod 10 = 0 then 1 else 0)" for a :: nat
proof -
  have "a = 10 * (a div 10) + a mod 10" "a mod 10 < 10" by simp_all
  then obtain q r where a: "a = 10 * q + r" "r < 10" by blast
  then have "a mod 10 = r" by simp
  moreover have "(a + 10) div 10 = q + 1" using a by simp
  moreover have "(a + 9) div 10 = (if r = 0 then q else q + 1)" using a by auto
  ultimately show ?thesis by simp
qed

lemma kept_div: "kept c n + (c + 9) div 10 = (c + n + 9) div 10"
proof (induction n)
  case (Suc n)
  have "(c + Suc n + 9) div 10 = (c + n + 9) div 10 + (if (c + n) mod 10 = 0 then 1 else 0)"
    using div_step [of "c + n"] by (simp add: add.commute)
  then show ?case using Suc by simp
qed simp

lemma kept_bound: "10 * kept c n \<le> n + 9"
proof -
  have "10 * ((c + n + 9) div 10) \<le> c + n + 9" "c \<le> 10 * ((c + 9) div 10)" by simp_all
  then show ?thesis using kept_div [of c n] by linarith
qed

lemma kept_le: "kept c n \<le> n"
  by (induction n) auto

section \<open>Traffic during an incident\<close>

definition offer_all ::
  "'q producer_ops \<Rightarrow> ('e \<Rightarrow> u8 list) \<Rightarrow> (string \<times> u8 list \<times> 'e) list \<Rightarrow> 'q kafka_publisher \<Rightarrow> 'q kafka_publisher" where
  "offer_all Q encode evs p = foldl (\<lambda>p (topic, key, event). kafka_publish Q encode topic key event p) p evs"

text \<open>
  One interval of the monitor: the events offered, an acknowledged delivery for every event that was
  not dropped, and the tick.
\<close>

definition incident_window ::
  "'q producer_ops \<Rightarrow> ('e \<Rightarrow> u8 list) \<Rightarrow> nat \<Rightarrow> flt \<Rightarrow> 'q kafka_publisher \<times> monitor
   \<Rightarrow> (string \<times> u8 list \<times> 'e) list \<Rightarrow> 'q kafka_publisher \<times> monitor" where
  "incident_window Q encode dwell threshold pm evs =
     (let p1 = offer_all Q encode evs (fst pm);
          dropped = ki_dropped_total (kp_incident p1) - ki_dropped_total (kp_incident (fst pm));
          p2 = (delivery True ^^ (length evs - dropped)) p1;
          (s, mo) = monitor_tick dwell threshold (kp_incident p2, snd pm)
      in (p2\<lparr>kp_incident := s\<rparr>, mo))"

lemma drop_rate_high:
  assumes "0 < d" "p \<le> 9 * d" "p + d < 2 ^ 53"
  shows "flt_gt (drop_rate p d) (flt_lit binary64 1 100)"
proof -
  have ints: "flt_of_int binary64 (int d) = mk_num (int d) 0" "flt_of_int binary64 (int (p + d)) = mk_num (int (p + d)) 0"
    using assms by (simp_all add: f64_int_exact)
  have rate: "drop_rate p d = flt_div binary64 (mk_num (int d) 0) (mk_num (int (p + d)) 0)"
    using assms ints by (simp add: drop_rate_def u64_add_def)
  obtain n q e where x: "0 < q" "drop_rate p d = rnd binary64 n q e" "exact n q e = of_nat d / of_nat (p + d)"
    using flt_div_rnd [of "mk_num (int d) 0" "mk_num (int (p + d)) 0" binary64] assms rate by auto
  have "(1 :: rat) / 10 \<le> of_nat d / of_nat (p + d)"
  proof -
    have "of_nat (p + d) \<le> (of_nat (10 * d) :: rat)" using assms(2) by (intro of_nat_mono) simp
    then show ?thesis using assms(1) by (simp add: field_simps)
  qed
  then have "exact 1 10 0 \<le> exact n q e" unfolding x(3) by (simp add: exact_def)
  then have "fkey (rnd binary64 1 10 0) \<le> fkey (drop_rate p d)"
    unfolding x(2) using x(1) by (intro rnd_mono) simp_all
  moreover have "flt_lt (flt_lit binary64 1 100) (rnd binary64 1 10 0)" by code_simp
  then have "fkey (flt_lit binary64 1 100) < fkey (rnd binary64 1 10 0)"
    by (subst (asm) flt_lt_fkey) (simp_all add: flt_lit_def)
  ultimately show ?thesis using x(2) by (subst flt_gt_fkey) (simp_all add: flt_lit_def)
qed

lemma offer_sampled:
  assumes "\<And>q t k b. fst (pr_send Q q t k b) = SendOk" "effective_policy_of (kp_incident p) = EffRandomSample"
    and "ki_dropped_total (kp_incident p) + length evs < 2 ^ 64" "kp_sample_counter p + length evs < 2 ^ 64"
  shows "kp_sample_counter (offer_all Q encode evs p) = kp_sample_counter p + length evs \<and>
    kp_incident (offer_all Q encode evs p) = (kp_incident p)
      \<lparr>ki_dropped_total := ki_dropped_total (kp_incident p) + (length evs - kept (kp_sample_counter p) (length evs))\<rparr>"
  using assms(3,4)
proof (induction evs rule: rev_induct)
  case (snoc ev evs)
  obtain t k e where ev: "ev = (t, k, e)" by (cases ev)
  let ?p = "offer_all Q encode evs p" and ?c = "kp_sample_counter p + length evs"
  have IH: "kp_sample_counter ?p = ?c" "kp_incident ?p = (kp_incident p)
      \<lparr>ki_dropped_total := ki_dropped_total (kp_incident p) + (length evs - kept (kp_sample_counter p) (length evs))\<rparr>"
    using snoc by simp_all
  have policy: "effective_policy_of (kp_incident ?p) = EffRandomSample" using assms(2) IH(2) by (simp add: effective_policy_of_def)
  have less: "kept (kp_sample_counter p) (length evs) \<le> length evs" by (rule kept_le)
  obtain q where send: "pr_send Q (kp_producer ?p) t k (encode e) = (SendOk, q)" using assms(1) by (metis prod.collapse)
  have "offer_all Q encode (evs @ [ev]) p = kafka_publish Q encode t k e ?p" by (simp add: offer_all_def ev)
  then show ?case
    using IH policy send less snoc.prems
    by (simp add: kafka_publish_def kafka_enqueue_def Let_def RANDOM_SAMPLE_DENOMINATOR_def record_dropped_def
        wrap_simps Suc_diff_le)
qed (simp add: offer_all_def)

lemma deliver_all:
  assumes "ki_published_total (kp_incident p) + n < 2 ^ 64"
  shows "(delivery True ^^ n) p = p\<lparr>kp_incident := (kp_incident p)\<lparr>ki_published_total := ki_published_total (kp_incident p) + n\<rparr>\<rparr>"
  using assms by (induction n) (simp_all add: delivery_def record_published_def wrap_simps)

text \<open>The state of an incident, seen right after a tick.\<close>

definition incident_holds :: "'q kafka_publisher \<times> monitor \<Rightarrow> bool" where
  "incident_holds pm \<longleftrightarrow> (case pm of (p, mo) \<Rightarrow>
     mo_in_incident mo \<and> ki_auto_flip (kp_incident p) \<and> effective_policy_of (kp_incident p) = EffRandomSample \<and>
     mo_last mo = incident_snapshot (kp_incident p))"

text \<open>The events counted so far, an upper bound of every counter.\<close>

definition counted :: "'q kafka_publisher \<times> monitor \<Rightarrow> nat" where
  "counted pm = (case pm of (p, mo) \<Rightarrow>
     ki_published_total (kp_incident p) + ki_dropped_total (kp_incident p) + kp_sample_counter p)"

lemma window_keeps_incident:
  assumes sends: "\<And>q t k b. fst (pr_send Q q t k b) = SendOk" and "0 < dwell" "incident_holds pm"
    and many: "2 \<le> length evs" and room: "counted pm + 2 * length evs < 2 ^ 53"
  shows "incident_holds (incident_window Q encode dwell (flt_lit binary64 1 100) pm evs) \<and>
    counted (incident_window Q encode dwell (flt_lit binary64 1 100) pm evs) = counted pm + 2 * length evs"
proof -
  obtain p mo where pm: "pm = (p, mo)" by (cases pm)
  let ?s = "kp_incident p" and ?n = "length evs" and ?k = "kept (kp_sample_counter p) (length evs)"
  let ?p1 = "offer_all Q encode evs p"
  have st: "mo_in_incident mo" "ki_auto_flip ?s" "effective_policy_of ?s = EffRandomSample"
      "mo_last mo = (ki_published_total ?s, ki_dropped_total ?s)"
      "ki_published_total ?s + ki_dropped_total ?s + kp_sample_counter p + 2 * ?n < 2 ^ 53"
    using assms(3) room pm by (simp_all add: incident_holds_def incident_snapshot_def counted_def)
  have p1: "kp_sample_counter ?p1 = kp_sample_counter p + ?n"
      "kp_incident ?p1 = ?s\<lparr>ki_dropped_total := ki_dropped_total ?s + (?n - ?k)\<rparr>"
    using offer_sampled [OF sends st(3), of evs encode] st(5) by simp_all
  have k: "?k \<le> ?n" "10 * ?k \<le> ?n + 9" by (rule kept_le, rule kept_bound)
  define p2 where "p2 = (delivery True ^^ ?k) ?p1"
  have p2: "kp_incident p2 = ?s\<lparr>ki_published_total := ki_published_total ?s + ?k, ki_dropped_total := ki_dropped_total ?s + (?n - ?k)\<rparr>"
      "kp_sample_counter p2 = kp_sample_counter p + ?n"
    using deliver_all [of ?p1 ?k] p1 k(1) st(5) by (simp_all add: p2_def)
  have "0 < ?n - ?k" "?k \<le> 9 * (?n - ?k)" "?k + (?n - ?k) < 2 ^ 53" using k many st(5) by linarith+
  then have high: "flt_gt (drop_rate ?k (?n - ?k)) (flt_lit binary64 1 100)" by (rule drop_rate_high)
  have "incident_window Q encode dwell (flt_lit binary64 1 100) pm evs =
      (let (s, mo1) = monitor_tick dwell (flt_lit binary64 1 100) (kp_incident p2, mo) in (p2\<lparr>kp_incident := s\<rparr>, mo1))"
    using p1(2) k(1) pm by (simp add: incident_window_def p2_def Let_def)
  also have "\<dots> = (p2\<lparr>kp_incident := kp_incident p2\<rparr>, mo\<lparr>mo_last := incident_snapshot (kp_incident p2),
      mo_over_count := u32_sat_inc (mo_over_count mo), mo_under_count := 0\<rparr>)"
    using p2 st high assms(2) by (simp add: monitor_tick_def Let_def incident_snapshot_def)
  finally show ?thesis
    using st p2 k(1) pm by (simp add: incident_holds_def counted_def effective_policy_of_def)
qed

text \<open>
  C40. Once the monitor has switched to sampling, it stays there as long as there is traffic: with the
  server's threshold, every interval with at least two events keeps the incident going, even if Kafka
  accepts and delivers every event it is offered. The publisher counts the nine of ten events it
  samples out as dropped, and the monitor reads them as a drop rate above the threshold.
\<close>

theorem incident_never_ends:
  assumes "\<And>q t k b. fst (pr_send Q q t k b) = SendOk" "0 < dwell" "incident_holds (p, mo)"
    and "\<forall>evs \<in> set wins. 2 \<le> length evs" "counted (p, mo) + 2 * sum_list (map length wins) < 2 ^ 53"
    and "foldl (incident_window Q encode dwell (flt_lit binary64 1 100)) (p, mo) wins = (p', mo')"
  shows "mo_in_incident mo' \<and> effective_policy_of (kp_incident p') = EffRandomSample"
proof -
  have "incident_holds (foldl (incident_window Q encode dwell (flt_lit binary64 1 100)) pm wins)"
    if "incident_holds pm" "counted pm + 2 * sum_list (map length wins) < 2 ^ 53" for pm
    using that assms(4)
  proof (induction wins arbitrary: pm)
    case (Cons evs wins)
    then show ?case using window_keeps_incident [OF assms(1,2) Cons.prems(1), of evs encode] by simp
  qed simp
  then show ?thesis using assms(3,5,6) by (force simp: incident_holds_def)
qed

text \<open>A producer that takes every message.\<close>

definition ready_producer :: "nat producer_ops" where
  "ready_producer = \<lparr>pr_send = (\<lambda>q topic key payload. (SendOk, q + 1))\<rparr>"

definition ex_publisher :: "nat kafka_publisher" where
  "ex_publisher = \<lparr>kp_producer = 0, kp_incident = (incident_new IncidentMode)\<lparr>ki_effective := 2\<rparr>, kp_sample_counter = 0\<rparr>"

definition ex_monitor :: monitor where
  "ex_monitor = \<lparr>mo_last = (0, 0), mo_over_count = 10, mo_under_count = 0, mo_in_incident = True\<rparr>"

theorem incident_never_ends_witness:
  "mo_in_incident (snd (foldl (incident_window ready_producer (\<lambda>e. e) 10 (flt_lit binary64 1 100)) (ex_publisher, ex_monitor)
     (replicate 1000 (replicate 30 (''events'', [], [])))))"
proof -
  let ?wins = "replicate 1000 (replicate 30 (''events'', [], [] :: u8 list))"
  obtain p' mo' where run: "foldl (incident_window ready_producer (\<lambda>e. e) 10 (flt_lit binary64 1 100)) (ex_publisher, ex_monitor) ?wins = (p', mo')"
    using prod.exhaust_sel by blast
  have "mo_in_incident mo' \<and> effective_policy_of (kp_incident p') = EffRandomSample"
    by (rule incident_never_ends [OF _ _ _ _ _ run])
       (simp_all add: ready_producer_def incident_holds_def counted_def ex_publisher_def ex_monitor_def incident_new_def
          effective_policy_of_def policy_from_u8_def incident_snapshot_def sum_list_replicate)
  then show ?thesis using run by simp
qed

end
