(* ===== verification/Server_Handlers.thy ===== *)
theory Server_Handlers
  imports Exchange_Adapters Win_Notice Kafka_Events
begin

text \<open>
  The HTTP side of the server: \<open>server/handlers.rs\<close>, the timeout middleware of \<open>server/routes.rs\<close>
  and \<open>health.rs\<close>.

  A handler is a function of the request and of the state it shares with the others; the clock
  readings and the exchange adapter are arguments. A handler that panics answers \<open>None\<close>.
\<close>

section \<open>Health\<close>

type_synonym health_state = bool

definition health_new :: health_state where
  "health_new = False"

definition set_ready :: "health_state \<Rightarrow> health_state" where
  "set_ready h = True"

definition set_not_ready :: "health_state \<Rightarrow> health_state" where
  "set_not_ready h = False"

definition is_ready :: "health_state \<Rightarrow> bool" where
  "is_ready h = h"

record http_response =
  hr_status :: nat
  hr_content_type :: "string option"
  hr_body :: "u8 list"

definition status_response :: "nat \<Rightarrow> http_response" where
  "status_response code = \<lparr>hr_status = code, hr_content_type = None, hr_body = []\<rparr>"

definition liveness :: http_response where
  "liveness = status_response 200"

definition readiness :: "health_state \<Rightarrow> http_response" where
  "readiness h = status_response (if is_ready h then 200 else 503)"

section \<open>Events\<close>

text \<open>The messages of \<open>events.proto\<close> that the handlers publish.\<close>

record bid_event_msg =
  bem_request_id :: string
  bem_imp_id :: string
  bem_campaign_id :: u32
  bem_creative_id :: u32
  bem_bid_price_micros :: i64
  bem_timestamp_ms :: i64
  bem_user_id :: string
  bem_device_type :: u32

record win_event_msg =
  wem_request_id :: string
  wem_imp_id :: string
  wem_campaign_id :: u32
  wem_creative_id :: u32
  wem_clearing_price_micros :: i64
  wem_timestamp_ms :: i64
  wem_user_id :: string

datatype ad_event_msg = BidMsg bid_event_msg | WinMsg win_event_msg

section \<open>The bid handler\<close>

definition winner_event :: "bid_request \<Rightarrow> i64 \<Rightarrow> imp_winner \<Rightarrow> ad_event_msg" where
  "winner_event req timestamp_ms v =
     BidMsg \<lparr>bem_request_id = req_id req, bem_imp_id = win_imp_id v, bem_campaign_id = win_campaign_id v,
       bem_creative_id = win_creative_id v, bem_bid_price_micros = win_bid_price_cents v * 10000,
       bem_timestamp_ms = timestamp_ms, bem_user_id = (case request_user_id req of Some uid \<Rightarrow> uid | None \<Rightarrow> []),
       bem_device_type = (case request_device_type req of Some dt \<Rightarrow> ucast (device_type_raw dt) | None \<Rightarrow> 0)\<rparr>"

definition publish_winners ::
  "('q, ad_event_msg) event_publisher \<Rightarrow> string \<Rightarrow> bid_request \<Rightarrow> i64 \<Rightarrow> imp_winner list \<Rightarrow> 'q \<Rightarrow> 'q" where
  "publish_winners E topic req timestamp_ms winners q =
     foldl (\<lambda>q v. ep_publish E topic (to_le_bytes (win_campaign_id v)) (winner_event req timestamp_ms v) q) q winners"

definition bid_handler ::
  "exchange_adapter \<Rightarrow> ('b, 'w) pipeline \<Rightarrow> ('q, ad_event_msg) event_publisher \<Rightarrow> string
   \<Rightarrow> (nat \<Rightarrow> instant) \<Rightarrow> instant \<Rightarrow> i64 \<Rightarrow> u8 list \<Rightarrow> 'w \<times> 'q \<Rightarrow> http_response option \<times> 'w \<times> 'q" where
  "bid_handler A P E topic now started timestamp_ms body wq =
     (case wq of (w, q) \<Rightarrow>
      case ad_decode_request A body of
        Inl e \<Rightarrow> (Some (status_response 400), w, q)
      | Inr request \<Rightarrow>
          (case pipeline_execute now P (bid_context_new request started) w of
             (Inl e, ctx, w1) \<Rightarrow> (Some (status_response 500), w1, q)
           | (Inr _, ctx, w1) \<Rightarrow>
               (case ctx_outcome ctx of
                  NoBid _ \<Rightarrow> (Some (status_response 204), w1, q)
                | Bid \<Rightarrow>
                    (case ctx_bid_response ctx of
                       None \<Rightarrow> (Some (status_response 500), w1, q)
                     | Some response \<Rightarrow>
                         (case ad_encode_response A response of
                            Inl e \<Rightarrow> (Some (status_response 500), w1, q)
                          | Inr (response_body, content_type) \<Rightarrow>
                              (Some \<lparr>hr_status = 200, hr_content_type = Some content_type, hr_body = response_body\<rparr>, w1,
                               publish_winners E topic (ctx_request ctx) timestamp_ms (ctx_winners ctx) q)))
                | Pending \<Rightarrow> (None, w1, q))))"

section \<open>The win handler\<close>

record win_params =
  wp_request_id :: string
  wp_imp_id :: string
  wp_campaign_id :: u32
  wp_creative_id :: u32
  wp_clearing_price_micros :: i64
  wp_user_id :: "string option"
  wp_token :: "string option"
  wp_exchange_id :: "string option"

record ('d, 'q) win_state =
  ws_dedup :: 'd
  ws_recorder :: impression_recorder
  ws_publisher :: 'q

definition notice_call_of :: "nat \<Rightarrow> dedup_reply \<Rightarrow> win_params \<Rightarrow> notice_call" where
  "notice_call_of now reply params =
     \<lparr>nc_now = now, nc_reply = reply, nc_request_id = wp_request_id params, nc_imp_id = wp_imp_id params,
      nc_campaign_id = wp_campaign_id params, nc_creative_id = wp_creative_id params, nc_token = wp_token params,
      nc_exchange_id = (case wp_exchange_id params of Some x \<Rightarrow> x | None \<Rightarrow> [])\<rparr>"

definition win_impression :: "u64 \<Rightarrow> win_params \<Rightarrow> impression_recorder \<Rightarrow> impression_recorder" where
  "win_impression unix_secs params recorder =
     (case wp_user_id params of
        Some uid \<Rightarrow>
          (if uid \<noteq> []
           then snd (try_record recorder \<lparr>ir_user_id = uid, ir_campaign_id = wp_campaign_id params,
                  ir_creative_id = wp_creative_id params, ir_device_type = 0, ir_hour_of_day = current_hour_of_day unix_secs\<rparr>)
           else recorder)
      | None \<Rightarrow> recorder)"

definition win_event_of :: "i64 \<Rightarrow> win_params \<Rightarrow> ad_event_msg" where
  "win_event_of timestamp_ms params =
     WinMsg \<lparr>wem_request_id = wp_request_id params, wem_imp_id = wp_imp_id params, wem_campaign_id = wp_campaign_id params,
       wem_creative_id = wp_creative_id params, wem_clearing_price_micros = wp_clearing_price_micros params,
       wem_timestamp_ms = timestamp_ms, wem_user_id = (case wp_user_id params of Some uid \<Rightarrow> uid | None \<Rightarrow> [])\<rparr>"

definition win_handler ::
  "crypto_ops \<Rightarrow> 'd dedup_ops \<Rightarrow> win_notice_gate_service \<Rightarrow> ('q, ad_event_msg) event_publisher \<Rightarrow> string
   \<Rightarrow> u64 \<Rightarrow> i64 \<Rightarrow> dedup_reply \<Rightarrow> win_params \<Rightarrow> ('d, 'q) win_state \<Rightarrow> nat \<times> ('d, 'q) win_state" where
  "win_handler K R g E topic unix_secs timestamp_ms reply params s =
     (let (outcome, d) = gate_check K R g (notice_call_of unix_secs reply params) (ws_dedup s);
          s1 = s\<lparr>ws_dedup := d\<rparr>
      in case outcome of
           Accept \<Rightarrow>
             (200, s1\<lparr>ws_recorder := win_impression unix_secs params (ws_recorder s1),
                      ws_publisher := ep_publish E topic (to_le_bytes (wp_campaign_id params))
                        (win_event_of timestamp_ms params) (ws_publisher s1)\<rparr>)
         | AuthFailed \<Rightarrow> (401, s1)
         | Duplicate \<Rightarrow> (200, s1)
         | DedupUnavailable \<Rightarrow> (200, s1))"

section \<open>The timeout middleware\<close>

text \<open>\<open>inner\<close> is the response of the layers below, \<open>None\<close> if it does not come within the limit.\<close>

definition timeout_middleware :: "http_response option \<Rightarrow> load_shed_tracker \<Rightarrow> http_response \<times> load_shed_tracker" where
  "timeout_middleware inner tracker =
     (let tracker1 = record_request tracker in
      case inner of
        Some resp \<Rightarrow> (resp, if hr_status resp = 503 then record_shed tracker1 else tracker1)
      | None \<Rightarrow> (status_response 503, record_shed tracker1))"

section \<open>What the bid handler answers\<close>

lemma bid_handler_run:
  fixes D :: "('b, 'r, models, 'f, local_pacer) wiring"
  assumes wiring: "roaring (wi_bitmaps D) bits" "build_scorer_root env cfg ms = (Inr (wi_scorer D), ms')" "wi_pacer D = LocalBudgetPacer"
    and state: "wf_catalog bits (sv_catalog w)" "balances_ok (sv_pacer w)"
    and run: "bid_handler A (bidder_pipeline budget D) E topic now t ts body (w, q) = (answer, w', q')"
    and decode: "ad_decode_request A body = Inr req"
  obtains (no_bid) ctx' reason where
      "pipeline_execute now (bidder_pipeline budget D) (bid_context_new req t) w = (Inr (), ctx', w')"
      "ctx_outcome ctx' = NoBid reason" "ctx_bid_response ctx' = None" "answer = Some (status_response 204)" "q' = q"
  | (bid) ctx' br where
      "pipeline_execute now (bidder_pipeline budget D) (bid_context_new req t) w = (Inr (), ctx', w')"
      "phase D bits (\<lambda>s. s) balances_ok req w 9 ctx' w'" "ctx_bid_response ctx' = Some br"
      "br = winners_response (wi_notice_urls D) (wi_exchange_id D) req (ctx_winners ctx')"
      "case ad_encode_response A br of
         Inl e \<Rightarrow> answer = Some (status_response 500) \<and> q' = q
       | Inr (b, ct) \<Rightarrow> answer = Some \<lparr>hr_status = 200, hr_content_type = Some ct, hr_body = b\<rparr> \<and>
           q' = publish_winners E topic req ts (ctx_winners ctx') q"
proof -
  obtain r ctx' w1 where exec: "pipeline_execute now (bidder_pipeline budget D) (bid_context_new req t) w = (r, ctx', w1)"
    using prod_cases3 by blast
  note result = wired.run_result [OF server_wired [OF wiring] state exec]
  show thesis
  proof (cases "phase D bits (\<lambda>s. s) balances_ok req w 9 ctx' w1")
    case True
    then have "ctx_outcome ctx' = Bid" "ctx_request ctx' = req"
        "ctx_bid_response ctx' = Some (winners_response (wi_notice_urls D) (wi_exchange_id D) req (ctx_winners ctx'))"
      by (simp_all add: phase_def)
    then show thesis
      using bid [of ctx'] run decode exec result(1) True by (auto simp: bid_handler_def split: sum.splits)
  next
    case False
    then obtain reason where "ctx_outcome ctx' = NoBid reason" "ctx_bid_response ctx' = None" using result(2) by blast
    then show thesis using no_bid [of ctx'] run decode exec result(1) by (auto simp: bid_handler_def)
  qed
qed

text \<open>The event that reports a bid, and the publishing of events one after the other, each under the key of its campaign.\<close>

definition reports :: "bid_request \<Rightarrow> i64 \<Rightarrow> bid \<Rightarrow> bid_event_msg \<Rightarrow> bool" where
  "reports req ts b e \<longleftrightarrow>
     bem_request_id e = req_id req \<and> bem_imp_id e = bid_impid b \<and> bid_cid b = Some (u32_str (bem_campaign_id e)) \<and>
     bid_crid b = Some (u32_str (bem_creative_id e)) \<and> bid_price b = usd_of_cents (bem_bid_price_micros e div 10000) \<and>
     bem_timestamp_ms e = ts"

definition published ::
  "('q, ad_event_msg) event_publisher \<Rightarrow> string \<Rightarrow> bid_event_msg list \<Rightarrow> 'q \<Rightarrow> 'q" where
  "published E topic events q =
     fold (\<lambda>e. ep_publish E topic (to_le_bytes (bem_campaign_id e)) (BidMsg e)) events q"

lemma publish_winners_events:
  "\<exists>events. list_all2 (reports req ts) (map (winner_bid urls x req) ws) events \<and>
     publish_winners E topic req ts ws q = published E topic events q"
proof -
  define event where "event v = (case winner_event req ts v of BidMsg e \<Rightarrow> e)" for v
  have event: "winner_event req ts v = BidMsg (event v)" "reports req ts (winner_bid urls x req v) (event v)"
      "bem_campaign_id (event v) = win_campaign_id v" for v
    by (simp_all add: event_def winner_event_def reports_def winner_bid_def)
  have "publish_winners E topic req ts ws q = published E topic (map event ws) q"
    by (simp add: publish_winners_def published_def foldl_conv_fold fold_map comp_def event(1,3))
  moreover have "list_all2 (reports req ts) (map (winner_bid urls x req) ws) (map event ws)"
    by (simp add: list_all2_conv_all_nth event(2))
  ultimately show ?thesis by blast
qed

text \<open>
  C17. The bid handler never panics. It answers 400 exactly if the body does not decode; otherwise 204
  if the pipeline decides not to bid, 200 if it bids and the response encodes, and 500 only if the
  response does not encode. With 200 it has published one event for every bid of the response, in
  their order, with the request, impression, campaign, creative, price and time of the bid and under
  the campaign's key; with any other answer it has published nothing.
\<close>

theorem bid_handler_answers:
  fixes D :: "('b, 'r, models, 'f, local_pacer) wiring"
  assumes wiring: "roaring (wi_bitmaps D) bits" "build_scorer_root env cfg ms = (Inr (wi_scorer D), ms')" "wi_pacer D = LocalBudgetPacer"
    and state: "wf_catalog bits (sv_catalog w)" "balances_ok (sv_pacer w)"
    and run: "bid_handler A (bidder_pipeline budget D) E topic now t ts body (w, q) = (answer, w', q')"
  shows "\<exists>resp. answer = Some resp \<and>
    (case ad_decode_request A body of
       Inl e \<Rightarrow> hr_status resp = 400 \<and> w' = w \<and> q' = q
     | Inr req \<Rightarrow>
         (\<exists>ctx'. pipeline_execute now (bidder_pipeline budget D) (bid_context_new req t) w = (Inr (), ctx', w') \<and>
            (case ctx_bid_response ctx' of
               None \<Rightarrow> hr_status resp = 204 \<and> is_no_bid (ctx_outcome ctx') \<and> q' = q
             | Some br \<Rightarrow>
                 (case ad_encode_response A br of
                    Inl e \<Rightarrow> hr_status resp = 500 \<and> q' = q
                  | Inr (b, ct) \<Rightarrow> hr_status resp = 200 \<and> hr_body resp = b \<and> hr_content_type resp = Some ct \<and>
                      (\<exists>sb events. resp_seatbid br = [sb] \<and> list_all2 (reports req ts) (sb_bid sb) events \<and>
                         q' = published E topic events q)))))"
proof (cases "ad_decode_request A body")
  case (Inl e)
  then show ?thesis using run by (auto simp: bid_handler_def status_response_def)
next
  case (Inr req)
  from wiring state run Inr show ?thesis
  proof (cases rule: bid_handler_run)
    case (no_bid ctx' reason)
    then show ?thesis by (auto simp: Inr status_response_def)
  next
    case (bid ctx' br)
    obtain events where "list_all2 (reports req ts) (map (winner_bid (wi_notice_urls D) (wi_exchange_id D) req) (ctx_winners ctx')) events"
        "publish_winners E topic req ts (ctx_winners ctx') q = published E topic events q"
      using publish_winners_events [where ws = "ctx_winners ctx'" and req = req and ts = ts and urls = "wi_notice_urls D"
          and x = "wi_exchange_id D" and E = E and topic = topic and q = q] by blast
    then show ?thesis using bid by (auto simp: Inr winners_response_def status_response_def split: sum.splits)
  qed
qed

definition ex_adapter :: exchange_adapter where
  "ex_adapter = openrtb_generic_adapter (\<lambda>body. if body = [] then None else Some ex_req) (\<lambda>resp. Some [1, 2, 3])"

definition log_publisher :: "((string \<times> u8 list \<times> ad_event_msg) list, ad_event_msg) event_publisher" where
  "log_publisher = \<lparr>ep_publish = (\<lambda>topic key event q. q @ [(topic, key, event)])\<rparr>"

theorem bid_handler_answers_witness:
  "\<exists>resp w' q'. bid_handler ex_adapter (bidder_pipeline ex_budget ex_wiring) log_publisher ''ads'' (\<lambda>_. 0) 0 5 [7] (ex_world, [])
     = (Some resp, w', q') \<and> hr_status resp = 200 \<and> (\<exists>events. q' = published log_publisher ''ads'' events [])"
proof -
  obtain answer w' q' where run:
    "bid_handler ex_adapter (bidder_pipeline ex_budget ex_wiring) log_publisher ''ads'' (\<lambda>_. 0) 0 5 [7] (ex_world, []) = (answer, w', q')"
    using prod_cases3 by blast
  obtain ctx' w1 where exec: "pipeline_execute (\<lambda>_. 0) (bidder_pipeline ex_budget ex_wiring) (bid_context_new ex_req 0) ex_world = (Inr (), ctx', w1)"
    and bid: "ctx_outcome ctx' = Bid"
    using ex_run by blast
  have decode: "ad_decode_request ex_adapter [7] = Inr ex_req" and encode: "ad_encode_response ex_adapter br = Inr ([1, 2, 3], ''application/json'')" for br
    by (simp_all add: ex_adapter_def openrtb_generic_adapter_def)
  show ?thesis
    using bid_handler_answers [OF ex_wiring_ok ex_world_ok run] run exec bid decode encode
    by (auto split: option.splits)
qed

section \<open>AdX requests\<close>

lemma one_element:
  assumes "distinct (map f xs)" "\<And>x. x \<in> set xs \<Longrightarrow> f x = k" "xs \<noteq> []"
  shows "\<exists>x. xs = [x]"
proof (cases xs)
  case (Cons x ys)
  then have "ys = []" using assms(1,2) by (cases ys) auto
  then show ?thesis using Cons by simp
qed (use assms(3) in simp)

lemma adx_response_id:
  "as_bytes (bytes_to_string_lossy b) =
     (if utf8_valid b then b else as_bytes (concat (map (\<lambda>byte. byte_hex_lower (unat byte)) b)))"
  by (simp add: bytes_to_string_lossy_def)

lemma adx_ad_of_winner:
  assumes "in_i32 (win_bid_price_cents v)" "win_imp_id v = u32_str i"
  shows "ad_max_cpm_micros (adx_ad_of json_text (winner_bid urls x req v)) = win_bid_price_cents v * 10000"
    and "ad_buyer_creative_id (adx_ad_of json_text (winner_bid urls x req v)) = win_creative_id v"
    and "ad_adslot_id (adx_ad_of json_text (winner_bid urls x req v)) = i"
  using assms cents_to_micros by (simp_all add: adx_ad_of_def winner_bid_def)

text \<open>
  C18. A bid on an AdX request, from the bytes of the request to the bytes of the response: there is
  exactly one ad; it names the slot of the request, and its price is the campaign's price in cents
  times ten thousand, exactly, although it went through a float in dollars. The one bid event that is
  published has the same price, creative and slot. The response repeats the request id if the id is
  valid UTF-8, and otherwise sends its hexadecimal spelling instead.
\<close>

theorem adx_bid_faithful:
  fixes D :: "('b, 'r, models, 'f, local_pacer) wiring"
  assumes wiring: "roaring (wi_bitmaps D) bits" "build_scorer_root env cfg ms = (Inr (wi_scorer D), ms')" "wi_pacer D = LocalBudgetPacer"
    and state: "wf_catalog bits (sv_catalog w)" "balances_ok (sv_pacer w)"
      "\<forall>c campaign. campaign_of (sv_catalog w) c = Some campaign \<longrightarrow> in_i32 (camp_bid_floor_cents campaign)"
    and request: "decode body = Some raw" "adx_adslot raw = Some slot"
    and run: "bid_handler (google_adx_adapter decode encode json_text) (bidder_pipeline budget D) E topic now t ts body (w, q)
      = (Some resp, w', q')" "hr_status resp = 200"
  shows "\<exists>msg ad c campaign creative event. encode msg = Some (hr_body resp) \<and> adx_ads msg = [ad] \<and>
    adx_resp_id msg = (if utf8_valid (adx_req_id raw) then adx_req_id raw
                       else as_bytes (concat (map (\<lambda>b. byte_hex_lower (unat b)) (adx_req_id raw)))) \<and>
    campaign_of (sv_catalog w) c = Some campaign \<and> creative \<in> set (creatives_for (sv_catalog w) c) \<and>
    ad_adslot_id ad = slot_id slot \<and> ad_buyer_creative_id ad = crea_id creative \<and>
    ad_max_cpm_micros ad = camp_bid_floor_cents campaign * 10000 \<and>
    q' = ep_publish E topic (to_le_bytes c) (BidMsg event) q \<and>
    bem_imp_id event = u32_str (slot_id slot) \<and> bem_campaign_id event = c \<and>
    bem_creative_id event = ad_buyer_creative_id ad \<and> bem_bid_price_micros event = ad_max_cpm_micros ad"
proof -
  let ?A = "google_adx_adapter decode encode json_text"
  obtain req where req: "ad_decode_request ?A body = Inr req" "req_imp req = [adx_imp slot]"
      "req_id req = bytes_to_string_lossy (adx_req_id raw)"
    using request by (simp add: google_adx_adapter_def adx_to_internal_def)
  from wiring state(1,2) run(1) req(1) show ?thesis
  proof (cases rule: bid_handler_run)
    case (no_bid ctx' reason)
    then show ?thesis using run(2) by (simp add: status_response_def)
  next
    case (bid ctx' br)
    note wired = server_wired [OF wiring]
    have winner: "\<exists>a. v = winner_of req 0 a \<and> win_imp_id v = u32_str (slot_id slot) \<and> offers bits (sv_catalog w) ctx' 0 a"
      if "v \<in> set (ctx_winners ctx')" for v
      using wired.phase_end_bid [OF wired bid(2) that] by (auto simp: req(2) adx_imp_def Let_def)
    obtain v where v: "ctx_winners ctx' = [v]"
      using one_element [OF wired.phase_end_one_per_imp [OF wired bid(2)]] winner bid(2) by (auto simp: req(2) phase_def)
    obtain a where a: "v = winner_of req 0 a" "win_imp_id v = u32_str (slot_id slot)" "offers bits (sv_catalog w) ctx' 0 a"
      using winner v by auto
    obtain campaign creative where cc: "campaign_of (sv_catalog w) (win_campaign_id v) = Some campaign"
        "creative \<in> set (creatives_for (sv_catalog w) (win_campaign_id v))" "win_creative_id v = crea_id creative"
        "win_bid_price_cents v = camp_bid_floor_cents campaign"
      using a(1,3) by (auto simp: offers_def candidate_from_def winner_of_def)
    obtain b where enc: "encode (internal_to_adx json_text br) = Some b" "hr_body resp = b"
        "q' = publish_winners E topic req ts (ctx_winners ctx') q"
      using bid(5) run(2) by (auto simp: google_adx_adapter_def status_response_def split: option.splits)
    have "in_i32 (win_bid_price_cents v)" using state(3) cc by auto
    note ad = adx_ad_of_winner [OF this a(2), of json_text "wi_notice_urls D" "wi_exchange_id D" req]
    obtain event where "winner_event req ts v = BidMsg event" "bem_imp_id event = win_imp_id v" "bem_campaign_id event = win_campaign_id v"
        "bem_creative_id event = win_creative_id v" "bem_bid_price_micros event = win_bid_price_cents v * 10000"
      by (simp add: winner_event_def)
    then show ?thesis
      using enc cc a(2) ad bid(4) v req(3) adx_response_id
      by (intro exI [of _ "internal_to_adx json_text br"] exI [of _ "adx_ad_of json_text (winner_bid (wi_notice_urls D) (wi_exchange_id D) req v)"]
          exI [of _ "win_campaign_id v"] exI [of _ campaign] exI [of _ creative] exI [of _ event])
        (simp add: internal_to_adx_def winners_response_def publish_winners_def)
  qed
qed

text \<open>A request whose id is not UTF-8: the answer is a bid under another id.\<close>

definition ex_adx :: adx_bid_request where
  "ex_adx = \<lparr>adx_req_id = [0xFF, 0x01],
     adx_adslot = Some \<lparr>slot_id = 42, slot_width = [300], slot_height = [250], slot_minimum_cpm_micros = 500000\<rparr>,
     adx_site_of = None, adx_mobile_of = None, adx_user_of = None, adx_geo_of = None, adx_device_of = None\<rparr>"

definition ex_adx_adapter :: exchange_adapter where
  "ex_adx_adapter = google_adx_adapter (\<lambda>body. if body = [] then None else Some ex_adx) (\<lambda>msg. Some (adx_resp_id msg)) (\<lambda>v. ''{}'')"

lemma ex_adx_request: "\<exists>req i. ad_decode_request ex_adx_adapter [1] = Inr req \<and> plain_request req i"
  by (simp add: ex_adx_adapter_def google_adx_adapter_def adx_to_internal_def ex_adx_def plain_request_def gdpr_applies_def
      request_user_id_def request_geo_keys_def target_device_def request_device_type_def imp_ad_format_def adx_imp_def
      bytes_to_string_lossy_def byte_hex_lower_def)

lemma utf8_ff: "\<not> utf8_valid [0xFF, 0x01]"
  by code_simp

lemma ff01_hex: "byte_hex_lower 255 @ byte_hex_lower 1 = ''ff01''"
  by (simp add: byte_hex_lower_def hex_lower_def char_of_def bit_Suc_0_iff)

lemma ex_prices: "campaign_of (sv_catalog ex_world) c = Some campaign \<Longrightarrow> in_i32 (camp_bid_floor_cents campaign)"
  by (auto simp: campaign_of_def ex_world_def ex_catalog_def new_for_test_def hm_get_def ex_campaign_def in_i32_def split: if_splits)

theorem adx_bid_faithful_witness:
  "\<exists>resp w' q'. bid_handler ex_adx_adapter (bidder_pipeline ex_budget ex_wiring) log_publisher ''ads'' (\<lambda>_. 0) 0 5 [1] (ex_world, [])
     = (Some resp, w', q') \<and> hr_status resp = 200 \<and> hr_body resp = as_bytes ''ff01'' \<and> length q' = 1"
proof -
  obtain req i where req: "ad_decode_request ex_adx_adapter [1] = Inr req" "plain_request req i" using ex_adx_request by blast
  obtain answer w' q' where run:
    "bid_handler ex_adx_adapter (bidder_pipeline ex_budget ex_wiring) log_publisher ''ads'' (\<lambda>_. 0) 0 5 [1] (ex_world, []) = (answer, w', q')"
    using prod_cases3 by blast
  obtain ctx' w1 where exec: "pipeline_execute (\<lambda>_. 0) (bidder_pipeline ex_budget ex_wiring) (bid_context_new req 0) ex_world = (Inr (), ctx', w1)"
    and bid: "ctx_outcome ctx' = Bid"
    using plain_run [OF req(2)] by blast
  have encode: "ad_encode_response ex_adx_adapter br = Inr (as_bytes (resp_id br), ''application/octet-stream'')" for br
    by (simp add: ex_adx_adapter_def google_adx_adapter_def internal_to_adx_def)
  obtain resp where resp: "answer = Some resp" "hr_status resp = 200"
    using ex_wiring_ok ex_world_ok run req(1)
    by (cases rule: bid_handler_run) (use exec bid encode in \<open>auto\<close>)
  have "hr_body resp = as_bytes (byte_hex_lower 255 @ byte_hex_lower 1)" "length q' = 1"
    using adx_bid_faithful [OF ex_wiring_ok ex_world_ok _ _ _ run [unfolded resp(1) ex_adx_adapter_def] resp(2), of ex_adx]
      ex_prices utf8_ff by (auto simp: ex_adx_def log_publisher_def)
  then show ?thesis using run resp unfolding ff01_hex by simp
qed

text \<open>The win handler has no effect but the deduplication key unless the gate accepts.\<close>

lemma win_handler_effects:
  assumes "win_handler K R g E topic secs ts reply params s = (status, s')"
    and "fst (gate_check K R g (notice_call_of secs reply params) (ws_dedup s)) \<noteq> Accept"
  shows "ws_recorder s' = ws_recorder s \<and> ws_publisher s' = ws_publisher s \<and> status \<in> {200, 401}"
  using assms by (auto simp: win_handler_def Let_def split: prod.splits win_notice_gate.splits)

end
