(* ===== verification/Server_Warmup.thy ===== *)
theory Server_Warmup
  imports Server_Handlers
begin

text \<open>
  The warm-up of \<open>server/warmup.rs\<close>: the segment cache is filled for the users of the warm set, then
  the server posts requests to itself, and only then it reports ready. Redis is a function from a
  call to its reply, the two steps of the rkyv decoder are parameters, and the answers to the
  server's own posts are a sequence: the status, or \<open>None\<close> if the request could not be sent.
\<close>

section \<open>Filling the segment cache\<close>

text \<open>\<open>str::trim_start_matches\<close> with a string, \<open>str::trim_end_matches\<close> with a character.\<close>

function trim_start_matches :: "string \<Rightarrow> string \<Rightarrow> string" where
  "trim_start_matches pat s =
     (if pat \<noteq> [] \<and> s \<noteq> [] \<and> take (length pat) s = pat then trim_start_matches pat (drop (length pat) s) else s)"
  by pat_completeness auto
termination by (relation "measure (\<lambda>(pat, s). length s)") auto

declare trim_start_matches.simps [simp del]

definition trim_end_matches :: "char \<Rightarrow> string \<Rightarrow> string" where
  "trim_end_matches c s = rev (dropWhile (\<lambda>x. x = c) (rev s))"

definition BATCH :: usize where
  "BATCH = 200"

record warm_redis =
  wr_get :: "u8 list option anyhow"
  wr_mget :: "nat \<Rightarrow> string list \<Rightarrow> u8 list option list anyhow"

text \<open>The values of one batch; \<open>now i\<close> is the clock at the \<open>i\<close>-th of them.\<close>

fun warm_values :: "(nat \<Rightarrow> instant) \<Rightarrow> nat \<Rightarrow> (string \<times> u8 list option) list \<Rightarrow> segment_cache \<times> usize \<Rightarrow> segment_cache \<times> usize" where
  "warm_values now i [] st = st"
| "warm_values now i ((key, maybe_bytes) # kvs) st =
     (case maybe_bytes of
        None \<Rightarrow> warm_values now (Suc i) kvs st
      | Some raw \<Rightarrow>
          (if length raw mod 4 \<noteq> 0 then warm_values now (Suc i) kvs st
           else
             (let ids = chunks_le raw;
                  user_id = trim_end_matches CHR ''}'' (trim_start_matches ''v1:seg:{u:'' key)
              in case get_or_fetch (now i) user_id (\<lambda>r. (Inr ids, r)) (fst st, ()) of
                   (Inl e, cache, _) \<Rightarrow> warm_values now (Suc i) kvs (cache, snd st)
                 | (Inr _, cache, _) \<Rightarrow> warm_values now (Suc i) kvs (cache, snd st + 1))))"

fun warm_batches ::
  "warm_redis \<Rightarrow> (nat \<Rightarrow> nat \<Rightarrow> instant) \<Rightarrow> nat \<Rightarrow> u32 list list \<Rightarrow> segment_cache \<times> usize \<Rightarrow> unit anyhow \<times> segment_cache \<times> usize" where
  "warm_batches R now b [] st = (Inr (), st)"
| "warm_batches R now b (chunk # rest) st =
     (let keys = map (\<lambda>i. segment_key (u32_str i)) chunk in
      case wr_mget R b keys of
        Inl e \<Rightarrow> (Inl ''MGET v1:seg batch failed'', st)
      | Inr values \<Rightarrow> warm_batches R now (Suc b) rest (warm_values (now b) 0 (zip keys values) st))"

definition warm_segment_cache ::
  "(u8 list \<Rightarrow> 'a option) \<Rightarrow> ('a \<Rightarrow> u32 list option) \<Rightarrow> warm_redis \<Rightarrow> (nat \<Rightarrow> nat \<Rightarrow> instant) \<Rightarrow> segment_cache
   \<Rightarrow> unit anyhow \<times> segment_cache \<times> usize" where
  "warm_segment_cache access deserialize R now cache =
     (case wr_get R of
        Inl e \<Rightarrow> (Inl ''GET v1:warm:users failed'', cache, 0)
      | Inr None \<Rightarrow> (Inr (), cache, 0)
      | Inr (Some warm_bytes) \<Rightarrow>
          (case access warm_bytes of
             None \<Rightarrow> (Inl ''failed to decode v1:warm:users (rkyv)'', cache, 0)
           | Some archived \<Rightarrow>
               (case deserialize archived of
                  None \<Rightarrow> (Inl ''failed to deserialize v1:warm:users'', cache, 0)
                | Some user_ids \<Rightarrow> warm_batches R now 0 (chunks BATCH user_ids) (cache, 0))))"

section \<open>The self-test\<close>

text \<open>The number of the first post that follows the one that got through.\<close>

fun connect_retry :: "(nat \<Rightarrow> nat option) \<Rightarrow> nat \<Rightarrow> u64 list \<Rightarrow> nat option" where
  "connect_retry post i [] = None"
| "connect_retry post i (delay_ms # delays) = (if post i \<noteq> None then Some (Suc i) else connect_retry post (Suc i) delays)"

definition post_ok :: "nat option \<Rightarrow> bool" where
  "post_ok r = (case r of Some status \<Rightarrow> 200 \<le> status \<and> status < 300 \<or> status = 204 | None \<Rightarrow> False)"

definition self_test :: "(nat \<Rightarrow> nat option) \<Rightarrow> unit anyhow" where
  "self_test post =
     (case connect_retry post 0 [10, 20, 40, 80] of
        None \<Rightarrow> Inl ''self-test: server not reachable after backoff retries''
      | Some k \<Rightarrow>
          (let failures = foldl (\<lambda>failures i. if post_ok (post i) then failures else failures + 1) 0 [k..<k + 100]
           in if 10 < failures then Inl (''self-test: '' @ nat_str failures @ '' / 100 requests failed'') else Inr ()))"

definition warmup_run ::
  "(u8 list \<Rightarrow> 'a option) \<Rightarrow> ('a \<Rightarrow> u32 list option) \<Rightarrow> warm_redis \<Rightarrow> (nat \<Rightarrow> nat \<Rightarrow> instant) \<Rightarrow> (nat \<Rightarrow> nat option)
   \<Rightarrow> health_state \<times> segment_cache \<Rightarrow> unit anyhow \<times> health_state \<times> segment_cache" where
  "warmup_run access deserialize R now post st =
     (case st of (health, cache) \<Rightarrow>
      case warm_segment_cache access deserialize R now cache of (_, cache1, _) \<Rightarrow>
      case self_test post of
        Inl e \<Rightarrow> (Inl ''warmup self-test failed'', health, cache1)
      | Inr _ \<Rightarrow> (Inr (), set_ready health, cache1))"

section \<open>The filled cache\<close>

lemma user_id_of_key: "trim_end_matches CHR ''}'' (trim_start_matches ''v1:seg:{u:'' (segment_key (u32_str i))) = u32_str i"
proof -
  have digits: "list_all is_digit (u32_str i)" using nat_str_digits [of _ "unat i"] by (auto simp: u32_str_def list_all_iff)
  obtain c cs where s: "u32_str i = c # cs" by (cases "u32_str i") (auto simp: u32_str_def)
  have "c \<noteq> CHR ''v''" using digits by (auto simp: s is_digit_def)
  then have "trim_start_matches ''v1:seg:{u:'' (u32_str i @ ''}'') = u32_str i @ ''}''"
    by (simp add: s trim_start_matches.simps [of _ "c # cs @ _"])
  then have "trim_start_matches ''v1:seg:{u:'' (segment_key (u32_str i)) = u32_str i @ ''}''"
    by (simp add: segment_key_def trim_start_matches.simps [of _ "CHR ''v'' # _"])
  moreover have "last (u32_str i) \<noteq> CHR ''}''" using digits s last_in_set [of "u32_str i"] by (auto simp: list_all_iff is_digit_def)
  then have "hd (rev (u32_str i)) \<noteq> CHR ''}''" unfolding hd_rev .
  then have "dropWhile (\<lambda>x. x = CHR ''}'') (rev (u32_str i)) = rev (u32_str i)" by (cases "rev (u32_str i)") auto
  ultimately show ?thesis by (simp add: trim_end_matches_def)
qed

text \<open>The segments Redis holds for a user of the warm set, if the value is one the bidder can read.\<close>

definition warm_value :: "(string \<Rightarrow> u8 list option) \<Rightarrow> u32 \<Rightarrow> segment_id list option" where
  "warm_value store i =
     (case store (segment_key (u32_str i)) of
        Some raw \<Rightarrow> if length raw mod 4 = 0 then Some (chunks_le raw) else None
      | None \<Rightarrow> None)"

text \<open>The cache holds the values of the users in \<open>S\<close> and nothing else, from \<open>t0\<close> on.\<close>

definition warmed :: "(string \<Rightarrow> u8 list option) \<Rightarrow> instant \<Rightarrow> u32 set \<Rightarrow> segment_cache \<Rightarrow> bool" where
  "warmed store t0 S c \<longleftrightarrow>
     (\<forall>uid segs t. sc_entries c uid = Some (segs, t) \<longrightarrow> t0 \<le> t \<and> (\<exists>i \<in> S. uid = u32_str i \<and> warm_value store i = Some segs)) \<and>
     (\<forall>i \<in> S. sc_entries c (u32_str i) = None \<longrightarrow> warm_value store i = None)"

lemma warmed_skip: "warmed store t0 S c \<Longrightarrow> warm_value store i = None \<Longrightarrow> warmed store t0 (insert i S) c"
  unfolding warmed_def by blast

lemma warmed_fetch:
  assumes "warmed store t0 S c" "warm_value store i = Some segs" "t0 \<le> t"
  shows "\<exists>r c'. get_or_fetch t (u32_str i) (\<lambda>r. (Inr segs, r)) (c, ()) = (Inr r, c', ()) \<and> warmed store t0 (insert i S) c' \<and>
    sc_ttl c' = sc_ttl c"
proof (cases "cached c t (u32_str i)")
  case None
  have "warmed store t0 (insert i S) (c\<lparr>sc_entries := (sc_entries c)(u32_str i \<mapsto> (segs, t))\<rparr>)"
    using assms unfolding warmed_def by (simp split: if_splits)
  then show ?thesis using get_or_fetch_miss [OF None, of "\<lambda>r. (Inr segs, r)" "()" segs "()"] by auto
next
  case (Some segs')
  then have "sc_entries c (u32_str i) \<noteq> None" by (auto simp: cached_def split: option.splits)
  then have "warmed store t0 (insert i S) c" using assms(1) unfolding warmed_def by blast
  then show ?thesis using get_or_fetch_hit [OF Some, of "\<lambda>r. (Inr segs, r)" "()"] by auto
qed

lemma warm_values_warmed:
  assumes "warmed store t0 S c" "\<forall>i. t0 \<le> now i"
  shows "\<exists>c'. warm_values now k (zip (map (\<lambda>i. segment_key (u32_str i)) ids) (map (\<lambda>i. store (segment_key (u32_str i))) ids)) (c, n)
      = (c', n + length (filter (\<lambda>i. warm_value store i \<noteq> None) ids)) \<and> warmed store t0 (set ids \<union> S) c' \<and> sc_ttl c' = sc_ttl c"
  using assms(1)
proof (induction ids arbitrary: S c n k)
  case (Cons i ids)
  show ?case
  proof (cases "warm_value store i")
    case None
    then show ?thesis
      using Cons.IH [OF warmed_skip [OF Cons.prems None], of "Suc k" n] by (auto simp: warm_value_def split: option.splits if_splits)
  next
    case (Some segs)
    then obtain raw where raw: "store (segment_key (u32_str i)) = Some raw" "length raw mod 4 = 0" "segs = chunks_le raw"
      by (auto simp: warm_value_def split: option.splits if_splits)
    obtain r c1 where c1: "get_or_fetch (now k) (u32_str i) (\<lambda>r. (Inr segs, r)) (c, ()) = (Inr r, c1, ())"
        "warmed store t0 (insert i S) c1" "sc_ttl c1 = sc_ttl c"
      using warmed_fetch [OF Cons.prems Some] assms(2) by blast
    show ?thesis
      using Cons.IH [OF c1(2), of "Suc k" "Suc n"] c1(1,3) raw Some by (auto simp: user_id_of_key Let_def)
  qed
qed simp

lemma warm_batches_warmed:
  assumes "warmed store t0 S c" "\<forall>b i. t0 \<le> now b i" "\<forall>b keys. wr_mget R b keys = Inr (map store keys)"
  shows "\<exists>c'. warm_batches R now b css (c, n) = (Inr (), c', n + length (filter (\<lambda>i. warm_value store i \<noteq> None) (concat css))) \<and>
    warmed store t0 (set (concat css) \<union> S) c' \<and> sc_ttl c' = sc_ttl c"
  using assms(1)
proof (induction css arbitrary: S c n b)
  case (Cons ids css)
  obtain c1 where c1: "warm_values (now b) 0 (zip (map (\<lambda>i. segment_key (u32_str i)) ids) (map (\<lambda>i. store (segment_key (u32_str i))) ids)) (c, n)
      = (c1, n + length (filter (\<lambda>i. warm_value store i \<noteq> None) ids))" "warmed store t0 (set ids \<union> S) c1" "sc_ttl c1 = sc_ttl c"
    using warm_values_warmed [OF Cons.prems] assms(2) by blast
  show ?case
    using Cons.IH [OF c1(2), of "Suc b" "n + length (filter (\<lambda>i. warm_value store i \<noteq> None) ids)"] c1(1,3) assms(3)
    by (auto simp: comp_def Un_ac)
qed simp

text \<open>
  C26. After the warm-up, the users of the warm set are served without Redis. If the batch reads
  succeed, then for every user of the set whose value Redis holds in readable form a lookup during
  the time to live returns exactly the decoded value from the cache and leaves the repository alone;
  the other users of the set have no entry. The number reported is the number of readable values.
  Eviction for capacity is left out: the cache is large enough.
\<close>

theorem warm_users_served_from_cache:
  assumes "wr_get R = Inr (Some bytes)" "access bytes = Some a" "deserialize a = Some ids"
    and "\<forall>b keys. wr_mget R b keys = Inr (map store keys)" "\<forall>b i. since \<le> now b i"
  shows "\<exists>cache. warm_segment_cache access deserialize R now (segment_cache_new capacity ttl)
      = (Inr (), cache, length (filter (\<lambda>i. warm_value store i \<noteq> None) ids)) \<and>
    (\<forall>i \<in> set ids. case warm_value store i of
       Some segs \<Rightarrow> (\<forall>bcfg env repo. ge_now env < since + from_secs ttl \<longrightarrow>
         ss_get_or_fetch (redis_segment_source bcfg env) (cache, repo) (u32_str i) = (Inr segs, cache, repo))
     | None \<Rightarrow> sc_entries cache (u32_str i) = None)"
proof -
  let ?c = "segment_cache_new capacity ttl"
  have "warmed store since {} ?c" by (simp add: warmed_def segment_cache_new_def)
  then obtain c where c: "warm_batches R now 0 (chunks BATCH ids) (?c, 0) = (Inr (), c, length (filter (\<lambda>i. warm_value store i \<noteq> None) ids))"
      "warmed store since (set ids) c" "sc_ttl c = sc_ttl ?c"
    using warm_batches_warmed [OF _ assms(5,4), of "{}" ?c 0 "chunks BATCH ids" 0] by (auto simp: concat_chunks BATCH_def)
  have "case warm_value store i of
       Some segs \<Rightarrow> (\<forall>bcfg env repo. ge_now env < since + from_secs ttl \<longrightarrow>
         ss_get_or_fetch (redis_segment_source bcfg env) (c, repo) (u32_str i) = (Inr segs, c, repo))
     | None \<Rightarrow> sc_entries c (u32_str i) = None" if i: "i \<in> set ids" for i
  proof (cases "sc_entries c (u32_str i)")
    case None
    then show ?thesis using c(2) i by (simp add: warmed_def)
  next
    case (Some e)
    obtain segs t where e: "e = (segs, t)" by (cases e)
    have "since \<le> t" "warm_value store i = Some segs" using c(2) Some e by (fastforce simp: warmed_def)+
    then show ?thesis
      using Some e c(3) by (auto simp: Some redis_segment_source_def segment_cache_new_def cached_def intro!: get_or_fetch_hit)
  qed
  then show ?thesis using assms(1-3) c(1) by (auto simp: warm_segment_cache_def)
qed

definition ex_warm_store :: "string \<Rightarrow> u8 list option" where
  "ex_warm_store key = (if key = ''v1:seg:{u:7}'' then Some [3, 0, 0, 0, 9, 0, 0, 0] else if key = ''v1:seg:{u:8}'' then Some [1] else None)"

definition ex_warm_redis :: warm_redis where
  "ex_warm_redis = \<lparr>wr_get = Inr (Some [7, 8, 9]), wr_mget = (\<lambda>b keys. Inr (map ex_warm_store keys))\<rparr>"

lemma ex_warm_values: "warm_value ex_warm_store 7 = Some [3, 9]" "warm_value ex_warm_store 8 = None" "warm_value ex_warm_store 9 = None"
  by (simp_all add: warm_value_def ex_warm_store_def segment_key_def u32_str_def nat_str.simps char_of_def bit_Suc_0_iff from_le_bytes_def)

theorem warm_users_served_from_cache_witness:
  "\<exists>cache. warm_segment_cache Some (\<lambda>bs. Some (map ucast bs)) ex_warm_redis (\<lambda>b i. 5) (segment_cache_new 1000 60) = (Inr (), cache, 1) \<and>
     ss_get_or_fetch (redis_segment_source (breaker_redis []) (get_env_at 1000)) (cache, open_repo) (u32_str 7) = (Inr [3, 9], cache, open_repo)"
proof -
  have "wr_get ex_warm_redis = Inr (Some [7, 8, 9])" "\<forall>b keys. wr_mget ex_warm_redis b keys = Inr (map ex_warm_store keys)"
    by (simp_all add: ex_warm_redis_def)
  from warm_users_served_from_cache [OF this(1) _ _ this(2), where access = Some and a = "[7, 8, 9]" and deserialize = "\<lambda>bs. Some (map ucast bs)" and ids = "[7, 8, 9]" and since = 5
      and now = "\<lambda>b i. 5" and capacity = 1000 and ttl = 60]
  show ?thesis by (auto simp: ex_warm_values get_env_at_def from_secs_def)
qed

section \<open>Readiness\<close>

lemma connect_retry_Some: "connect_retry post i delays = Some k \<longleftrightarrow>
    (\<exists>j < length delays. post (i + j) \<noteq> None \<and> (\<forall>j' < j. post (i + j') = None) \<and> k = Suc (i + j))"
proof (induction delays arbitrary: i)
  case (Cons d ds)
  show ?case
  proof (cases "post i")
    case None
    have "(\<exists>j < Suc n. post (i + j) \<noteq> None \<and> (\<forall>j' < j. post (i + j') = None) \<and> k = Suc (i + j)) \<longleftrightarrow>
        (\<exists>j < n. post (Suc i + j) \<noteq> None \<and> (\<forall>j' < j. post (Suc i + j') = None) \<and> k = Suc (Suc i + j))" for n
      using None by (simp add: Ex_less_Suc2 All_less_Suc2)
    then show ?thesis using Cons.IH [of "Suc i"] None by simp
  next
    case (Some a)
    then have "j = 0" if "\<forall>j' < j. post (i + j') = None" for j using that by (cases j) auto
    then show ?thesis using Some by auto
  qed
qed simp

lemma count_failures: "foldl (\<lambda>f i. if P i then f else f + 1) n xs = n + length (filter (\<lambda>i. \<not> P i) xs)"
  by (induction xs arbitrary: n) simp_all

lemma foldl_const: "foldl (\<lambda>f i. f) n xs = n"
  by (induction xs) simp_all

text \<open>
  The server reports ready after the warm-up exactly if one of its first four posts to itself is
  answered and of the next hundred at most ten are not answered with a success status. A cache that
  could not be filled does not keep it from becoming ready.
\<close>

theorem ready_iff_self_test:
  assumes "warmup_run access deserialize R now post (health_new, cache) = (r, health, cache')"
  shows "(hr_status (readiness health) = 200 \<longleftrightarrow>
     (\<exists>k < 4. post k \<noteq> None \<and> (\<forall>j < k. post j = None) \<and>
       length (filter (\<lambda>i. \<not> post_ok (post i)) [k + 1..<k + 1 + 100]) \<le> 10)) \<and>
   (hr_status (readiness health) = 200 \<longleftrightarrow> r = Inr ())"
proof -
  have len: "length [10, 20, 40, 80 :: u64] = 4" by simp
  define failed where "failed k = length (filter (\<lambda>i. \<not> post_ok (post i)) [k..<k + 100])" for k
  have tested: "self_test post = Inr () \<longleftrightarrow> (\<exists>k < 4. post k \<noteq> None \<and> (\<forall>j < k. post j = None) \<and> failed (k + 1) \<le> 10)"
  proof (cases "connect_retry post 0 [10, 20, 40, 80]")
    case None
    then have "\<not> (\<exists>k < 4. post k \<noteq> None \<and> (\<forall>j < k. post j = None))"
      using connect_retry_Some [of post 0 "[10, 20, 40, 80]"] len by (metis add_0 option.distinct(1))
    then show ?thesis using None by (auto simp: self_test_def)
  next
    case (Some n)
    then obtain k where k: "k < 4" "post k \<noteq> None" "\<forall>j < k. post j = None" "n = k + 1"
      unfolding connect_retry_Some len by auto
    have "k' = k" if "post k' \<noteq> None" "\<forall>j < k'. post j = None" for k'
      using that k(2,3) by (metis linorder_neqE_nat)
    then have "(\<exists>k < 4. post k \<noteq> None \<and> (\<forall>j < k. post j = None) \<and> failed (k + 1) \<le> 10) \<longleftrightarrow> failed n \<le> 10"
      using k by blast
    moreover have "self_test post = Inr () \<longleftrightarrow> failed n \<le> 10"
      unfolding self_test_def Some option.case count_failures by (simp add: failed_def Let_def not_le del: upt_Suc)
    ultimately show ?thesis by simp
  qed
  show ?thesis
    unfolding failed_def [symmetric] tested [symmetric] using assms
    by (auto simp: warmup_run_def readiness_def status_response_def is_ready_def set_ready_def health_new_def split: prod.splits sum.splits)
qed

theorem ready_iff_self_test_witness:
  "fst (snd (warmup_run Some (\<lambda>bs. Some (map ucast bs)) ex_warm_redis (\<lambda>b i. 5) (\<lambda>i. if i = 0 then None else Some 204)
     (health_new, segment_cache_new 1000 60)))"
proof -
  let ?post = "\<lambda>i :: nat. if i = 0 then None else Some (204 :: nat)"
  obtain r health c where run: "warmup_run Some (\<lambda>bs. Some (map ucast bs)) ex_warm_redis (\<lambda>b i. 5) ?post (health_new, segment_cache_new 1000 60)
      = (r, health, c)" using prod_cases3 by blast
  have "\<exists>k < 4. ?post k \<noteq> None \<and> (\<forall>j < k. ?post j = None) \<and> length (filter (\<lambda>i. \<not> post_ok (?post i)) [k + 1..<k + 1 + 100]) \<le> 10"
    by (intro exI [of _ 1]) (simp add: post_ok_def filter_False del: upt_Suc)
  then have "hr_status (readiness health) = 200" using ready_iff_self_test [OF run] by blast
  then show ?thesis unfolding run by (simp add: readiness_def status_response_def is_ready_def split: if_splits)
qed

text \<open>
  The self-test says nothing about the bidder behind the first stage. A request without
  impressions, which is what it posts, is answered with 204 in every state of the catalog, the
  caches, the scorer, the capper and the pacer, and changes none of them. So the server becomes
  ready whenever its endpoint answers at all.
\<close>

theorem self_test_sees_validation_only:
  assumes "ad_decode_request A body = Inr req" "req_imp req = []"
  shows "bid_handler A (bidder_pipeline budget D) E topic now t ts body (w, q) = (Some (status_response 204), w, q) \<and>
    ((\<forall>i. post i = map_option hr_status (fst (bid_handler A (bidder_pipeline budget D) E topic (nows i) (ts' i) ts body (ws i, q)))) \<longrightarrow>
     fst (snd (warmup_run access deserialize R clock post (health_new, cache))))"
proof -
  have answer: "bid_handler A (bidder_pipeline budget D) E topic now t ts body (w, q) = (Some (status_response 204), w, q)" for now t w
    using assms by (simp add: bid_handler_def pipeline_execute_def bidder_stages_def request_validation_stage_def bid_context_new_def Let_def)
  have "self_test post = Inr ()" if "\<forall>i. post i = Some 204"
    using that by (simp add: self_test_def post_ok_def foldl_const del: upt_Suc)
  then show ?thesis
    unfolding answer by (auto simp: status_response_def warmup_run_def set_ready_def split: prod.splits)
qed

definition ex_empty_adapter :: exchange_adapter where
  "ex_empty_adapter = openrtb_generic_adapter (\<lambda>body. Some (ex_request ''warmup'' [])) (\<lambda>resp. None)"

text \<open>With an empty catalog the server still answers, and becomes ready.\<close>

definition ex_blank_world :: "(u32 set, unit, models, unit, local_pacer) services" where
  "ex_blank_world = ex_world\<lparr>sv_catalog := new_for_test set_bitmap [] [] [] [] [] [] {} {}\<rparr>"

definition ex_blank_answer :: "http_response option \<times> (u32 set, unit, models, unit, local_pacer) services \<times> (string \<times> u8 list \<times> ad_event_msg) list" where
  "ex_blank_answer = bid_handler ex_empty_adapter (bidder_pipeline ex_budget ex_wiring) log_publisher ''ads'' (\<lambda>_. 0) 0 5 [7] (ex_blank_world, [])"

theorem self_test_sees_validation_only_witness:
  "ex_blank_answer = (Some (status_response 204), ex_blank_world, []) \<and>
   fst (snd (warmup_run Some (\<lambda>bs. Some (map ucast bs)) ex_warm_redis (\<lambda>b i. 5) (\<lambda>i. map_option hr_status (fst ex_blank_answer))
     (health_new, segment_cache_new 1000 60)))"
proof -
  have "ad_decode_request ex_empty_adapter [7] = Inr (ex_request ''warmup'' [])" "req_imp (ex_request ''warmup'' []) = []"
    by (simp_all add: ex_empty_adapter_def openrtb_generic_adapter_def ex_request_def)
  from self_test_sees_validation_only [OF this, where nows = "\<lambda>i _. 0" and ts' = "\<lambda>_. 0" and ws = "\<lambda>_. ex_blank_world"
      and post = "\<lambda>i. map_option hr_status (fst ex_blank_answer)" and budget = ex_budget and D = ex_wiring and E = log_publisher
      and topic = "''ads''" and now = "\<lambda>_. 0" and t = 0 and ts = 5 and w = ex_blank_world and q = "[]" and access = Some
      and deserialize = "\<lambda>bs. Some (map ucast bs)" and R = ex_warm_redis and clock = "\<lambda>b i. 5" and cache = "segment_cache_new 1000 60"]
  show ?thesis unfolding ex_blank_answer_def by blast
qed

end
