(* ===== verification/Server_Assembly.thy ===== *)
theory Server_Assembly
  imports Server_Warmup
begin

text \<open>
  The server as \<open>main.rs\<close> puts it together from the configuration: the settings it derives, the choice
  of capper and publisher, the application state of \<open>server/state.rs\<close>, the routes of
  \<open>server/routes.rs\<close> with their middleware, and the metrics layer of \<open>server/layers/metrics.rs\<close>. The
  segment source and the scorer are arguments. Requests are those that axum routes to a handler; a
  query string that does not parse reaches the win route as \<open>None\<close>. Requests are served one after
  the other here; \<open>Auction_Interleaving\<close> has the concurrent ones.
\<close>

section \<open>Settings\<close>

definition redis_pool_size :: "usize \<Rightarrow> config \<Rightarrow> usize" where
  "redis_pool_size num_cpus cfg = (if rc_pool_size (cfg_redis cfg) = 0 then num_cpus else rc_pool_size (cfg_redis cfg))"

definition segment_cache_of :: "config \<Rightarrow> segment_cache" where
  "segment_cache_of cfg = segment_cache_new (rc_segment_cache_capacity (cfg_redis cfg)) (rc_segment_cache_ttl_secs (cfg_redis cfg))"

definition redis_breaker_config :: "config \<Rightarrow> breaker_config" where
  "redis_breaker_config cfg =
     (breaker_redis ''redis'')\<lparr>br_slow_call_duration := from_millis (frequency_cap_ms (cfg_latency_budget cfg) * 2)\<rparr>"

definition redis_hedge_of :: "config \<Rightarrow> redis_hedge_state" where
  "redis_hedge_of cfg = redis_hedge_state_new (max (srv_max_concurrency (cfg_server cfg) div 10) 1)"

definition redis_capper_cfg :: "config \<Rightarrow> capper_cfg" where
  "redis_capper_cfg cfg = \<lparr>cc_timeout_ms = frequency_cap_ms (cfg_latency_budget cfg), cc_breaker = redis_breaker_config cfg\<rparr>"

definition in_proc_cfg :: "config \<Rightarrow> in_process_config" where
  "in_proc_cfg cfg =
     \<lparr>ipc_cap_capacity = fcc_in_process_cap_capacity (cfg_freq_cap cfg),
      ipc_write_buffer_size = fcc_in_process_write_buffer_size (cfg_freq_cap cfg),
      ipc_flush_interval = from_millis (fcc_in_process_flush_interval_ms (cfg_freq_cap cfg))\<rparr>"

text \<open>The in-process wrapper around the Redis capper, or the Redis capper alone.\<close>

definition freq_capper :: "config \<Rightarrow> mget_env \<Rightarrow> (in_process \<times> redis_capper) capper_ops" where
  "freq_capper cfg env =
     (if fcc_in_process_enabled (cfg_freq_cap cfg)
      then \<lparr>fc_check = (\<lambda>st uid cs device hour.
        in_process_check (redis_fallback (redis_capper_cfg cfg) env) (redis_breaker_config cfg) (me_now env) uid cs device hour st)\<rparr>
      else \<lparr>fc_check = (\<lambda>(ip, rc) uid cs device hour.
        case redis_check (redis_capper_cfg cfg) env uid cs rc of (outcome, rc1) \<Rightarrow> (outcome, ip, rc1))\<rparr>)"

text \<open>The Kafka publisher, or none if it cannot be set up.\<close>

definition init_publisher :: "(kafka_config \<Rightarrow> 'q anyhow) \<Rightarrow> kafka_config \<Rightarrow> 'q kafka_publisher option" where
  "init_publisher create cfg =
     (case kafka_publisher_new create cfg (incident_new (kc_drop_policy cfg)) of Inr p \<Rightarrow> Some p | Inl e \<Rightarrow> None)"

definition main_publisher ::
  "'q producer_ops \<Rightarrow> (ad_event_msg \<Rightarrow> u8 list) \<Rightarrow> ('q kafka_publisher option, ad_event_msg) event_publisher" where
  "main_publisher Q encode =
     \<lparr>ep_publish = (\<lambda>topic key event st.
        case st of
          Some p \<Rightarrow> Some (ep_publish (kafka_event_publisher Q encode) topic key event p)
        | None \<Rightarrow> ep_publish no_op_event_publisher topic key event None)\<rparr>"

definition server_wiring ::
  "config \<Rightarrow> 'b bitmap_ops \<Rightarrow> 'r segment_source \<Rightarrow> 's scorer_ops \<Rightarrow> crypto_ops \<Rightarrow> exchange_adapter \<Rightarrow> mget_env \<Rightarrow> u64 \<Rightarrow> u64
   \<Rightarrow> ('b, 'r, 's, in_process \<times> redis_capper, local_pacer) wiring" where
  "server_wiring cfg B segments S K adapter env scoring_secs capping_secs =
     \<lparr>wi_segments = segments, wi_bitmaps = B, wi_max_candidates_per_imp = max_candidates_per_imp (cfg_pipeline cfg),
      wi_scorer = S, wi_scoring_secs = scoring_secs, wi_capper = freq_capper cfg env, wi_capping_secs = capping_secs,
      wi_pacer = LocalBudgetPacer, wi_notice_urls = notice_url K (win_gate_new (cfg_win_notice cfg)),
      wi_exchange_id = ad_id adapter\<rparr>"

text \<open>Ready at once, or after the warm-up.\<close>

definition start_health ::
  "config \<Rightarrow> (u8 list \<Rightarrow> 'a option) \<Rightarrow> ('a \<Rightarrow> u32 list option) \<Rightarrow> warm_redis \<Rightarrow> (nat \<Rightarrow> nat \<Rightarrow> instant) \<Rightarrow> (nat \<Rightarrow> nat option)
   \<Rightarrow> health_state \<times> segment_cache \<Rightarrow> unit anyhow \<times> health_state \<times> segment_cache" where
  "start_health cfg access deserialize R now post st =
     (if srv_warmup_enabled (cfg_server cfg) then
        (case warmup_run access deserialize R now post st of
           (Inl e, st1) \<Rightarrow> (Inl ''warmup failed'', st1)
         | (Inr _, st1) \<Rightarrow> (Inr (), st1))
      else (case st of (health, cache) \<Rightarrow> (Inr (), set_ready health, cache)))"

section \<open>Routes\<close>

datatype server_call = LiveCall | ReadyCall | BidCall "u8 list" | WinCall "win_params option"

fun call_method :: "server_call \<Rightarrow> string" where
  "call_method LiveCall = ''GET''"
| "call_method ReadyCall = ''GET''"
| "call_method (BidCall body) = ''POST''"
| "call_method (WinCall params) = ''GET''"

fun call_path :: "server_call \<Rightarrow> string" where
  "call_path LiveCall = ''/health/live''"
| "call_path ReadyCall = ''/health/ready''"
| "call_path (BidCall body) = ''/rtb/openrtb/bid''"
| "call_path (WinCall params) = ''/rtb/win''"

record timeout_config =
  tc_duration :: duration
  tc_concurrency :: usize

definition bid_limits :: "config \<Rightarrow> timeout_config" where
  "bid_limits cfg =
     \<lparr>tc_duration = from_millis (http_timeout_ms (cfg_latency_budget cfg)), tc_concurrency = srv_max_concurrency (cfg_server cfg)\<rparr>"

definition win_limits :: "config \<Rightarrow> timeout_config" where
  "win_limits cfg =
     \<lparr>tc_duration = from_millis (win_timeout_ms (cfg_latency_budget cfg)),
      tc_concurrency = max (srv_max_concurrency (cfg_server cfg) div 10) 1\<rparr>"

section \<open>Metrics\<close>

record http_metric =
  hm_method :: string
  hm_route :: string
  hm_status :: string

text \<open>A response is counted under its method, route and status; no response, no count.\<close>

definition metrics_layer :: "string \<Rightarrow> string option \<Rightarrow> http_response option \<Rightarrow> http_metric list \<Rightarrow> http_metric list" where
  "metrics_layer req_method matched_path response metrics =
     (let route = (case matched_path of Some p \<Rightarrow> p | None \<Rightarrow> ''unknown'') in
      case response of
        Some r \<Rightarrow> metrics @ [\<lparr>hm_method = req_method, hm_route = route, hm_status = nat_str (hr_status r)\<rparr>]
      | None \<Rightarrow> metrics)"

section \<open>Serving\<close>

record ('w, 'd, 'q) app_state =
  app_health :: health_state
  app_services :: 'w
  app_win :: "('d, 'q) win_state"
  app_load_shed_tracker :: load_shed_tracker
  app_metrics :: "http_metric list"

record ('e, 'b, 'w, 'd, 'q) app_parts =
  ap_pipeline :: "'e \<Rightarrow> ('b, 'w) pipeline"
  ap_adapter :: exchange_adapter
  ap_publisher :: "('q, ad_event_msg) event_publisher"
  ap_events_topic :: string
  ap_crypto :: crypto_ops
  ap_dedup :: "'d dedup_ops"
  ap_gate :: win_notice_gate_service

text \<open>
  What a request meets: what the services it calls do, the clocks, the reply of the deduplication
  store and, if the time limit of its route passes, how far it got by then.
\<close>

record ('e, 'w, 'd) request_env =
  re_remote :: 'e
  re_now :: "nat \<Rightarrow> instant"
  re_started :: instant
  re_unix_secs :: u64
  re_timestamp_ms :: i64
  re_reply :: dedup_reply
  re_cut :: "('w \<times> 'd) option"

definition with_timeout ::
  "http_response option \<Rightarrow> ('w, 'd, 'q) app_state \<Rightarrow> http_response option \<times> ('w, 'd, 'q) app_state" where
  "with_timeout inner st =
     (case timeout_middleware inner (app_load_shed_tracker st) of
        (resp, tracker) \<Rightarrow> (Some resp, st\<lparr>app_load_shed_tracker := tracker\<rparr>))"

definition bid_route ::
  "('e, 'b, 'w, 'd, 'q) app_parts \<Rightarrow> ('e, 'w, 'd) request_env \<Rightarrow> u8 list \<Rightarrow> ('w, 'd, 'q) app_state
   \<Rightarrow> http_response option \<times> ('w, 'd, 'q) app_state" where
  "bid_route A env body st =
     (case re_cut env of
        Some (w, d) \<Rightarrow> with_timeout None (st\<lparr>app_services := w\<rparr>)
      | None \<Rightarrow>
          (case bid_handler (ap_adapter A) (ap_pipeline A (re_remote env)) (ap_publisher A) (ap_events_topic A) (re_now env) (re_started env)
                  (re_timestamp_ms env) body (app_services st, ws_publisher (app_win st)) of
             (response, w, q) \<Rightarrow>
               (let st1 = st\<lparr>app_services := w, app_win := (app_win st)\<lparr>ws_publisher := q\<rparr>\<rparr> in
                case response of
                  None \<Rightarrow> (None, st1\<lparr>app_load_shed_tracker := record_request (app_load_shed_tracker st1)\<rparr>)
                | Some r \<Rightarrow> with_timeout (Some r) st1)))"

definition win_route ::
  "('e, 'b, 'w, 'd, 'q) app_parts \<Rightarrow> ('e, 'w, 'd) request_env \<Rightarrow> win_params option \<Rightarrow> ('w, 'd, 'q) app_state
   \<Rightarrow> http_response option \<times> ('w, 'd, 'q) app_state" where
  "win_route A env query st =
     (case query of
        None \<Rightarrow> with_timeout (Some (status_response 400)) st
      | Some params \<Rightarrow>
          (case re_cut env of
             Some (w, d) \<Rightarrow> with_timeout None (st\<lparr>app_win := (app_win st)\<lparr>ws_dedup := d\<rparr>\<rparr>)
           | None \<Rightarrow>
               (case win_handler (ap_crypto A) (ap_dedup A) (ap_gate A) (ap_publisher A) (ap_events_topic A) (re_unix_secs env)
                       (re_timestamp_ms env) (re_reply env) params (app_win st) of
                  (status, ws) \<Rightarrow> with_timeout (Some (status_response status)) (st\<lparr>app_win := ws\<rparr>))))"

definition serve ::
  "('e, 'b, 'w, 'd, 'q) app_parts \<Rightarrow> ('e, 'w, 'd) request_env \<Rightarrow> server_call \<Rightarrow> ('w, 'd, 'q) app_state
   \<Rightarrow> http_response option \<times> ('w, 'd, 'q) app_state" where
  "serve A env call st =
     (let (response, st1) =
        (case call of
           LiveCall \<Rightarrow> (Some liveness, st)
         | ReadyCall \<Rightarrow> (Some (readiness (app_health st)), st)
         | BidCall body \<Rightarrow> bid_route A env body st
         | WinCall query \<Rightarrow> win_route A env query st)
      in (response, st1\<lparr>app_metrics := metrics_layer (call_method call) (Some (call_path call)) response (app_metrics st1)\<rparr>))"

fun serve_all ::
  "('e, 'b, 'w, 'd, 'q) app_parts \<Rightarrow> (('e, 'w, 'd) request_env \<times> server_call) list \<Rightarrow> ('w, 'd, 'q) app_state
   \<Rightarrow> http_response option list \<times> ('w, 'd, 'q) app_state" where
  "serve_all A [] st = ([], st)"
| "serve_all A ((env, call) # calls) st =
     (case serve A env call st of (r, st1) \<Rightarrow> (case serve_all A calls st1 of (rs, st2) \<Rightarrow> (r # rs, st2)))"

section \<open>The parts fit\<close>

lemma server_wiring_wired:
  assumes "roaring B bits" "build_scorer_root penv (cfg_scoring cfg) ms = (Inr S, ms')"
  shows "wired (server_wiring cfg B segments S K adapter env t1 t2) bits (\<lambda>s. s) balances_ok"
  using assms by (intro server_wired) (simp_all add: server_wiring_def)

text \<open>Win requests get the share of the concurrency that hedging counts with.\<close>

lemma win_share: "tc_concurrency (win_limits cfg) = hb_nominal (rh_budget (redis_hedge_of cfg))"
  by (simp add: win_limits_def redis_hedge_of_def redis_hedge_state_new_def hedge_budget_new_def)

lemma publisher_never_blocks_answer:
  "fst (bid_handler A P (main_publisher Q encode) topic now t ts body (w, init_publisher create cfg))
   = fst (bid_handler A P no_op_event_publisher topic now t ts body (w, ()))"
  by (auto simp: bid_handler_def split: sum.splits prod.splits pipeline_outcome.splits option.splits)

section \<open>Every request is answered\<close>

lemma bid_handler_total:
  fixes D :: "('b, 'r, models, 'f, local_pacer) wiring"
  assumes "wired D bits (\<lambda>s. s) balances_ok" "wf_catalog bits (sv_catalog w)" "balances_ok (sv_pacer w)"
    and run: "bid_handler A (bidder_pipeline budget D) E topic now t ts body (w, q) = (answer, w', q')"
  shows "\<exists>r. answer = Some r \<and> hr_status r \<in> {200, 204, 400, 500}" and "sv_catalog w' = sv_catalog w" and "balances_ok (sv_pacer w')"
proof -
  have "(\<exists>r. answer = Some r \<and> hr_status r \<in> {200, 204, 400, 500}) \<and> sv_catalog w' = sv_catalog w \<and> balances_ok (sv_pacer w')"
  proof (cases "ad_decode_request A body")
    case (Inl e)
    then show ?thesis using run assms(3) by (auto simp: bid_handler_def status_response_def)
  next
    case (Inr req)
    obtain r ctx' w1 where exec: "pipeline_execute now (bidder_pipeline budget D) (bid_context_new req t) w = (r, ctx', w1)"
      using prod_cases3 by blast
    note result = wired.run_result [OF assms(1-3) exec] and keeps = wired.run_keeps [OF assms(1-3) exec]
    have "ctx_outcome ctx' \<noteq> Pending" using result(2) by (auto simp: phase_def)
    then have "\<exists>r. answer = Some r \<and> hr_status r \<in> {200, 204, 400, 500}" and "w' = w1"
      using run Inr exec result(1)
      by (auto simp: bid_handler_def status_response_def split: pipeline_outcome.splits option.splits sum.splits)
    then show ?thesis using keeps by simp
  qed
  then show "\<exists>r. answer = Some r \<and> hr_status r \<in> {200, 204, 400, 500}" "sv_catalog w' = sv_catalog w" "balances_ok (sv_pacer w')"
    by simp_all
qed

text \<open>The statuses of a route, and whether its requests are counted for load shedding.\<close>

fun call_statuses :: "server_call \<Rightarrow> nat set" where
  "call_statuses LiveCall = {200}"
| "call_statuses ReadyCall = {200, 503}"
| "call_statuses (BidCall body) = {200, 204, 400, 500, 503}"
| "call_statuses (WinCall params) = {200, 400, 401, 503}"

fun tracked :: "server_call \<Rightarrow> bool" where
  "tracked (BidCall body) = True"
| "tracked (WinCall params) = True"
| "tracked call = False"

definition metric_of :: "server_call \<times> http_response \<Rightarrow> http_metric" where
  "metric_of cr = (case cr of (call, r) \<Rightarrow>
     \<lparr>hm_method = call_method call, hm_route = call_path call, hm_status = nat_str (hr_status r)\<rparr>)"

definition count_if :: "('a \<Rightarrow> bool) \<Rightarrow> 'a list \<Rightarrow> nat" where
  "count_if P xs = length (filter P xs)"

text \<open>What every request finds and leaves: a consistent catalog and sane counters.\<close>

definition app_ok :: "('b \<Rightarrow> u32 set) \<Rightarrow> (('b, 'r, models, 'f, local_pacer) services, 'd, 'q) app_state \<Rightarrow> bool" where
  "app_ok bits st \<longleftrightarrow> wf_catalog bits (sv_catalog (app_services st)) \<and> balances_ok (sv_pacer (app_services st))"

definition env_ok ::
  "latency_budget_config \<Rightarrow> ('b \<Rightarrow> u32 set) \<Rightarrow> ('e, 'b, ('b, 'r, models, 'f, local_pacer) services, 'd, 'q) app_parts
   \<Rightarrow> ('e, ('b, 'r, models, 'f, local_pacer) services, 'd) request_env \<Rightarrow> bool" where
  "env_ok budget bits A env \<longleftrightarrow>
     (\<exists>D. ap_pipeline A (re_remote env) = bidder_pipeline budget D \<and> wired D bits (\<lambda>s. s) balances_ok) \<and>
     (\<forall>w d. re_cut env = Some (w, d) \<longrightarrow> wf_catalog bits (sv_catalog w) \<and> balances_ok (sv_pacer w))"

definition track :: "server_call \<Rightarrow> http_response \<Rightarrow> load_shed_tracker \<Rightarrow> load_shed_tracker" where
  "track call r t = (if tracked call then (if hr_status r = 503 then record_shed (record_request t) else record_request t) else t)"

lemma with_timeout_simps:
  "with_timeout (Some r) st = (Some r, st\<lparr>app_load_shed_tracker := track (BidCall []) r (app_load_shed_tracker st)\<rparr>)"
  "with_timeout None st = (Some (status_response 503),
     st\<lparr>app_load_shed_tracker := track (BidCall []) (status_response 503) (app_load_shed_tracker st)\<rparr>)"
  by (simp_all add: with_timeout_def timeout_middleware_def track_def status_response_def Let_def)

text \<open>One request: answered, counted once, and the state is as good as before.\<close>

definition served ::
  "('b \<Rightarrow> u32 set) \<Rightarrow> server_call \<Rightarrow> (('b, 'r, models, 'f, local_pacer) services, 'd, 'q) app_state
   \<Rightarrow> http_response option \<times> (('b, 'r, models, 'f, local_pacer) services, 'd, 'q) app_state \<Rightarrow> bool" where
  "served bits call st out \<longleftrightarrow>
     (\<exists>r. fst out = Some r \<and> hr_status r \<in> call_statuses call \<and> app_ok bits (snd out) \<and>
        app_health (snd out) = app_health st \<and> app_metrics (snd out) = app_metrics st \<and>
        app_load_shed_tracker (snd out) = track call r (app_load_shed_tracker st))"

lemma bid_route_served:
  assumes "env_ok budget bits A env" "app_ok bits st"
  shows "served bits (BidCall body) st (bid_route A env body st)"
proof (cases "re_cut env")
  case (Some c)
  then show ?thesis
    using assms(1) by (cases c) (simp add: bid_route_def with_timeout_simps served_def track_def app_ok_def env_ok_def status_response_def)
next
  case None
  obtain D where D: "ap_pipeline A (re_remote env) = bidder_pipeline budget D" "wired D bits (\<lambda>s. s) balances_ok"
    using assms(1) by (auto simp: env_ok_def)
  obtain answer w q where run: "bid_handler (ap_adapter A) (bidder_pipeline budget D) (ap_publisher A) (ap_events_topic A) (re_now env)
      (re_started env) (re_timestamp_ms env) body (app_services st, ws_publisher (app_win st)) = (answer, w, q)"
    using prod_cases3 by blast
  have st: "wf_catalog bits (sv_catalog (app_services st))" "balances_ok (sv_pacer (app_services st))" using assms(2) by (simp_all add: app_ok_def)
  note total = bid_handler_total [OF D(2) st run]
  obtain r where r: "answer = Some r" "hr_status r \<in> {200, 204, 400, 500}" using total(1) by blast
  show ?thesis
    using r(2) total(2,3) st
    by (auto simp: bid_route_def None D(1) run r(1) with_timeout_simps served_def track_def app_ok_def Let_def)
qed

lemma win_handler_status: "win_handler K R g E topic secs ts reply params s = (status, s') \<Longrightarrow> status = 200 \<or> status = 401"
  by (auto simp: win_handler_def Let_def split: prod.splits win_notice_gate.splits)

lemma win_route_served:
  assumes "env_ok budget bits A env" "app_ok bits st"
  shows "served bits (WinCall query) st (win_route A env query st)"
proof (cases query)
  case None
  then show ?thesis using assms(2) by (simp add: win_route_def with_timeout_simps served_def track_def app_ok_def status_response_def)
next
  case (Some params)
  obtain status ws where run: "win_handler (ap_crypto A) (ap_dedup A) (ap_gate A) (ap_publisher A) (ap_events_topic A) (re_unix_secs env)
      (re_timestamp_ms env) (re_reply env) params (app_win st) = (status, ws)" by (rule prod.exhaust)
  show ?thesis
  proof (cases "re_cut env")
    case None
    have "served bits (WinCall query) st (with_timeout (Some (status_response status)) (st\<lparr>app_win := ws\<rparr>))"
      using assms(2) win_handler_status [OF run] unfolding with_timeout_simps
      by (auto simp: served_def track_def app_ok_def status_response_def)
    then show ?thesis by (simp only: win_route_def Some None option.case run prod.case)
  next
    case (Some c)
    then show ?thesis
      using assms(2) \<open>query = Some params\<close>
      by (cases c) (simp add: win_route_def with_timeout_simps served_def track_def app_ok_def status_response_def)
  qed
qed

lemma serve_served:
  assumes "env_ok budget bits A env" "app_ok bits st"
  shows "\<exists>r st'. serve A env call st = (Some r, st') \<and> hr_status r \<in> call_statuses call \<and> app_ok bits st' \<and>
    app_health st' = app_health st \<and> app_metrics st' = app_metrics st @ [metric_of (call, r)] \<and>
    app_load_shed_tracker st' = track call r (app_load_shed_tracker st)"
proof -
  have wrap: "\<exists>r st'. serve A env call st = (Some r, st') \<and> hr_status r \<in> call_statuses call \<and> app_ok bits st' \<and>
      app_health st' = app_health st \<and> app_metrics st' = app_metrics st @ [metric_of (call, r)] \<and>
      app_load_shed_tracker st' = track call r (app_load_shed_tracker st)"
    if "served bits call st out" "serve A env call st = (fst out, (snd out)
      \<lparr>app_metrics := metrics_layer (call_method call) (Some (call_path call)) (fst out) (app_metrics (snd out))\<rparr>)" for out
    using that by (auto simp: served_def metrics_layer_def metric_of_def app_ok_def)
  show ?thesis
  proof (cases call)
    case LiveCall
    then show ?thesis using assms(2) by (intro wrap [of "(Some liveness, st)"]) (auto simp: served_def serve_def liveness_def status_response_def track_def)
  next
    case ReadyCall
    then show ?thesis using assms(2)
      by (intro wrap [of "(Some (readiness (app_health st)), st)"]) (auto simp: served_def serve_def readiness_def status_response_def track_def)
  next
    case (BidCall body)
    then show ?thesis using bid_route_served [OF assms, of body] by (intro wrap [of "bid_route A env body st"]) (auto simp: serve_def case_prod_beta)
  next
    case (WinCall query)
    then show ?thesis using win_route_served [OF assms, of query] by (intro wrap [of "win_route A env query st"]) (auto simp: serve_def case_prod_beta)
  qed
qed

text \<open>The tracker's two counters, as long as they do not wrap around.\<close>

lemma track_counts:
  assumes "ls_requests_total t + 1 < 2 ^ 64" "ls_shed_total t + 1 < 2 ^ 64"
  shows "ls_requests_total (track call r t) = ls_requests_total t + (if tracked call then 1 else 0)"
    and "ls_shed_total (track call r t) = ls_shed_total t + (if tracked call \<and> hr_status r = 503 then 1 else 0)"
  using assms by (simp_all add: track_def record_request_def record_shed_def u64_add_small)

text \<open>
  C7. The server answers every request. Over any sequence of requests to its routes, each with its
  own clocks, answers of the services and timeouts, no handler panics: every request gets a response
  with one of the statuses of its route. The metrics have exactly one entry per request, under its
  method, route and the status it got. The load-shed tracker, which feeds the hedging, has counted
  the bid and win requests and those of them answered 503, and no health probe. No request changes
  the readiness.
\<close>

theorem server_answers_every_request:
  assumes "\<forall>(env, call) \<in> set calls. env_ok budget bits A env" "app_ok bits st"
    and "ls_requests_total (app_load_shed_tracker st) + length calls < 2 ^ 64" "ls_shed_total (app_load_shed_tracker st) + length calls < 2 ^ 64"
  shows "\<exists>rs st'. serve_all A calls st = (map Some rs, st') \<and>
    list_all2 (\<lambda>call r. hr_status r \<in> call_statuses call) (map snd calls) rs \<and> app_ok bits st' \<and> app_health st' = app_health st \<and>
    app_metrics st' = app_metrics st @ map metric_of (zip (map snd calls) rs) \<and>
    ls_requests_total (app_load_shed_tracker st') = ls_requests_total (app_load_shed_tracker st) + count_if tracked (map snd calls) \<and>
    ls_shed_total (app_load_shed_tracker st') = ls_shed_total (app_load_shed_tracker st) +
      count_if (\<lambda>(call, r). tracked call \<and> hr_status r = 503) (zip (map snd calls) rs)"
  using assms
proof (induction calls arbitrary: st)
  case Nil
  then show ?case by (simp add: count_if_def)
next
  case (Cons c calls)
  obtain env call where c: "c = (env, call)" by (cases c)
  obtain r st1 where step: "serve A env call st = (Some r, st1)" "hr_status r \<in> call_statuses call" "app_ok bits st1"
      "app_health st1 = app_health st" "app_metrics st1 = app_metrics st @ [metric_of (call, r)]"
      "app_load_shed_tracker st1 = track call r (app_load_shed_tracker st)"
    using serve_served [of budget bits A env st call] Cons.prems(1,2) c by auto
  note counts = track_counts [of "app_load_shed_tracker st" call r]
  have small: "ls_requests_total (app_load_shed_tracker st1) + length calls < 2 ^ 64" "ls_shed_total (app_load_shed_tracker st1) + length calls < 2 ^ 64"
      "ls_requests_total (app_load_shed_tracker st) + 1 < 2 ^ 64" "ls_shed_total (app_load_shed_tracker st) + 1 < 2 ^ 64"
    using Cons.prems(3,4) counts unfolding step(6) by (simp_all split: if_splits)
  have "\<forall>(env, call) \<in> set calls. env_ok budget bits A env" using Cons.prems(1) by simp
  from Cons.IH [OF this step(3) small(1,2)] obtain rs st' where IH: "serve_all A calls st1 = (map Some rs, st')"
      "list_all2 (\<lambda>call r. hr_status r \<in> call_statuses call) (map snd calls) rs" "app_ok bits st'" "app_health st' = app_health st1"
      "app_metrics st' = app_metrics st1 @ map metric_of (zip (map snd calls) rs)"
      "ls_requests_total (app_load_shed_tracker st') = ls_requests_total (app_load_shed_tracker st1) + count_if tracked (map snd calls)"
      "ls_shed_total (app_load_shed_tracker st') = ls_shed_total (app_load_shed_tracker st1) +
        count_if (\<lambda>(call, r). tracked call \<and> hr_status r = 503) (zip (map snd calls) rs)"
    by blast
  show ?case
    using step(1-5) IH counts [OF small(3,4)] unfolding c step(6)
    by (intro exI [of _ "r # rs"] exI [of _ st']) (simp add: count_if_def)
qed

text \<open>Five requests, one of them cut off by the timeout.\<close>

definition ex_app :: "(unit, u32 set, (u32 set, unit, models, unit, local_pacer) services, string \<Rightarrow> int, (string \<times> u8 list \<times> ad_event_msg) list) app_parts" where
  "ex_app = \<lparr>ap_pipeline = (\<lambda>_. bidder_pipeline ex_budget ex_wiring), ap_adapter = ex_adapter, ap_publisher = log_publisher,
     ap_events_topic = ''ads'', ap_crypto = demo_crypto, ap_dedup = map_dedup, ap_gate = win_gate_new (ex_win_config [] [])\<rparr>"

definition ex_app_state :: "((u32 set, unit, models, unit, local_pacer) services, string \<Rightarrow> int, (string \<times> u8 list \<times> ad_event_msg) list) app_state" where
  "ex_app_state = \<lparr>app_health = True, app_services = ex_world,
     app_win = \<lparr>ws_dedup = (\<lambda>_. 0), ws_recorder = recorder_new, ws_publisher = []\<rparr>,
     app_load_shed_tracker = \<lparr>ls_requests_total = 0, ls_shed_total = 0\<rparr>, app_metrics = []\<rparr>"

definition ex_request_env :: "((u32 set, unit, models, unit, local_pacer) services \<times> (string \<Rightarrow> int)) option
    \<Rightarrow> (unit, (u32 set, unit, models, unit, local_pacer) services, string \<Rightarrow> int) request_env" where
  "ex_request_env at_limit = \<lparr>re_remote = (), re_now = (\<lambda>_. 0), re_started = 0, re_unix_secs = 5, re_timestamp_ms = 5000, re_reply = Reply, re_cut = at_limit\<rparr>"

definition ex_calls where
  "ex_calls = [(ex_request_env None, ReadyCall), (ex_request_env None, BidCall [7]), (ex_request_env None, BidCall []),
     (ex_request_env (Some (ex_world, \<lambda>_. 0)), BidCall [7]), (ex_request_env None, WinCall None)]"

theorem server_answers_every_request_witness:
  "\<exists>rs st'. serve_all ex_app ex_calls ex_app_state = (map Some rs, st') \<and> length (app_metrics st') = 5 \<and>
     ls_requests_total (app_load_shed_tracker st') = 4 \<and> is_ready (app_health st')"
proof -
  have env: "env_ok ex_budget (\<lambda>b. b) ex_app (ex_request_env cut)" if "cut = None \<or> cut = Some (ex_world, \<lambda>_. 0)" for cut
    using that ex_world_ok server_wired [OF ex_wiring_ok] by (auto simp: env_ok_def ex_app_def ex_request_env_def)
  then have "\<forall>(env, call) \<in> set ex_calls. env_ok ex_budget (\<lambda>b. b) ex_app env" by (simp add: ex_calls_def)
  moreover have "app_ok (\<lambda>b. b) ex_app_state" using ex_world_ok by (simp add: app_ok_def ex_app_state_def)
  ultimately obtain rs st' where run: "serve_all ex_app ex_calls ex_app_state = (map Some rs, st')"
      "list_all2 (\<lambda>call r. hr_status r \<in> call_statuses call) (map snd ex_calls) rs" "app_health st' = app_health ex_app_state"
      "app_metrics st' = app_metrics ex_app_state @ map metric_of (zip (map snd ex_calls) rs)"
      "ls_requests_total (app_load_shed_tracker st') = ls_requests_total (app_load_shed_tracker ex_app_state) + count_if tracked (map snd ex_calls)"
    using server_answers_every_request [of ex_calls ex_budget "\<lambda>b. b" ex_app ex_app_state] by (auto simp: ex_app_state_def ex_calls_def)
  moreover have "length rs = 5" using run(2) by (auto simp: ex_calls_def dest: list_all2_lengthD)
  ultimately show ?thesis
    by (intro exI [of _ rs] exI [of _ st']) (simp add: ex_app_state_def ex_calls_def count_if_def is_ready_def)
qed

end
