(* ===== verification/Catalog_Loader.thy ===== *)
theory Catalog_Loader
  imports Catalog Clock Budget_Pacing
begin

text \<open>
  The catalog loader of \<open>catalog/loader.rs\<close>. A database snapshot is a record of the tables
  of \<open>migrations/\<close> with the columns the queries read; every query helper is the selection,
  join and grouping its SQL states, on the snapshot the pool gave it. \<open>build\<close> combines
  the eight query results into a catalog and a registry; \<open>refresh\<close> is one round of the
  refresh loop on the shared cells. Row and group order, which SQL leaves open, is table order;
  nothing proved depends on it.

  The lemmas show that the catalog built from a snapshot is consistent and that retrieval on it
  returns the active campaigns whose targeting rows match the request.
\<close>

section \<open>Rows and tables\<close>

record campaign_row =
  crow_id :: i64
  crow_advertiser_id :: i64
  crow_bid_floor_cents :: i32
  crow_daily_budget_cents :: i64
  crow_hourly_budget_cents :: i64
  crow_daily_cap_imps :: i32
  crow_hourly_cap_imps :: i32

record creative_row =
  crea_row_id :: i64
  crea_row_campaign_id :: i64
  crea_row_ad_format :: string
  crea_row_click_url :: string
  crea_row_image_url :: "string option"
  crea_row_width :: "i32 option"
  crea_row_height :: "i32 option"

record segment_row =
  seg_row_id :: i32
  seg_row_name :: string

record segment_index_row =
  six_segment_id :: i32
  six_campaign_ids :: "i64 list"

record geo_index_row =
  gix_geo_kind :: string
  gix_geo_code :: string
  gix_campaign_ids :: "i64 list"

record device_index_row =
  dix_device_type :: string
  dix_campaign_ids :: "i64 list"

record format_index_row =
  fix_ad_format :: string
  fix_campaign_ids :: "i64 list"

record daypart_row =
  dp_campaign_id :: i64

text \<open>The tables; a campaign and a segment carry their status, a daypart row its 168 bits.\<close>

record db =
  db_campaign :: "(string \<times> campaign_row) list"
  db_creative :: "creative_row list"
  db_segment :: "(string \<times> segment_row) list"
  db_targeting_segment :: "(i64 \<times> i32) list"
  db_targeting_geo :: "(i64 \<times> string \<times> string) list"
  db_targeting_device :: "(i64 \<times> string) list"
  db_targeting_format :: "(i64 \<times> string) list"
  db_daypart :: "(i64 \<times> bool list) list"

section \<open>Queries\<close>

text \<open>\<open>JOIN campaign c ON c.id = cid WHERE c.status = 'active'\<close>.\<close>

definition join_active :: "db \<Rightarrow> ('r \<Rightarrow> i64) \<Rightarrow> 'r list \<Rightarrow> 'r list" where
  "join_active D cid rows =
     [r. r \<leftarrow> rows, (status, c) \<leftarrow> db_campaign D, crow_id c = cid r \<and> status = ''active'']"

text \<open>\<open>GROUP BY k\<close> with \<open>array_agg(v ORDER BY v)\<close>.\<close>

definition group_agg :: "('k \<times> i64) list \<Rightarrow> ('k \<times> i64 list) list" where
  "group_agg rows = map (\<lambda>k. (k, sort (map snd (filter (\<lambda>r. fst r = k) rows)))) (remdups (map fst rows))"

definition try_map :: "('a \<Rightarrow> 'b) \<Rightarrow> 'a anyhow \<Rightarrow> 'b anyhow" where
  "try_map f r = try_bind r (\<lambda>a. Inr (f a))"

definition query_campaigns :: "db anyhow \<Rightarrow> campaign_row list anyhow" where
  "query_campaigns pool =
     try_map (\<lambda>D. map snd (filter (\<lambda>(status, r). status = ''active'') (db_campaign D))) pool"

definition query_creatives :: "db anyhow \<Rightarrow> creative_row list anyhow" where
  "query_creatives pool = try_map (\<lambda>D. join_active D crea_row_campaign_id (db_creative D)) pool"

definition query_segments :: "db anyhow \<Rightarrow> (i32 \<times> string) list anyhow" where
  "query_segments pool =
     try_map (\<lambda>D. map (\<lambda>r. (seg_row_id r, seg_row_name r))
                  (map snd (filter (\<lambda>(status, r). status = ''active'') (db_segment D)))) pool"

definition query_segment_index :: "db anyhow \<Rightarrow> (i32 \<times> i64 list) list anyhow" where
  "query_segment_index pool =
     try_map (\<lambda>D.
       let rows = map (\<lambda>(sid, cids). \<lparr>six_segment_id = sid, six_campaign_ids = cids\<rparr>)
                    (group_agg (map (\<lambda>(cid, sid). (sid, cid)) (join_active D fst (db_targeting_segment D))))
       in map (\<lambda>r. (six_segment_id r, six_campaign_ids r)) rows) pool"

definition query_geo_index :: "db anyhow \<Rightarrow> (string \<times> string \<times> i64 list) list anyhow" where
  "query_geo_index pool =
     try_map (\<lambda>D.
       let rows = map (\<lambda>((kind, code), cids). \<lparr>gix_geo_kind = kind, gix_geo_code = code, gix_campaign_ids = cids\<rparr>)
                    (group_agg (map (\<lambda>(cid, kind, code). ((kind, code), cid)) (join_active D fst (db_targeting_geo D))))
       in map (\<lambda>r. (gix_geo_kind r, gix_geo_code r, gix_campaign_ids r)) rows) pool"

definition query_device_index :: "db anyhow \<Rightarrow> (string \<times> i64 list) list anyhow" where
  "query_device_index pool =
     try_map (\<lambda>D.
       let rows = map (\<lambda>(device, cids). \<lparr>dix_device_type = device, dix_campaign_ids = cids\<rparr>)
                    (group_agg (map (\<lambda>(cid, device). (device, cid)) (join_active D fst (db_targeting_device D))))
       in map (\<lambda>r. (dix_device_type r, dix_campaign_ids r)) rows) pool"

definition query_format_index :: "db anyhow \<Rightarrow> (string \<times> i64 list) list anyhow" where
  "query_format_index pool =
     try_map (\<lambda>D.
       let rows = map (\<lambda>(format, cids). \<lparr>fix_ad_format = format, fix_campaign_ids = cids\<rparr>)
                    (group_agg (map (\<lambda>(cid, format). (format, cid)) (join_active D fst (db_targeting_format D))))
       in map (\<lambda>r. (fix_ad_format r, fix_campaign_ids r)) rows) pool"

definition insert_ids :: "'b bitmap_ops \<Rightarrow> i64 list \<Rightarrow> 'b \<Rightarrow> 'b" where
  "insert_ids B cids bm = fold (\<lambda>cid. bm_insert B (as_u32 cid)) cids bm"

text \<open>\<open>get_bit(hours_active, n) = 1\<close> on a 168-bit string.\<close>

definition get_bit :: "bool list \<Rightarrow> i32 \<Rightarrow> bool" where
  "get_bit hours n \<longleftrightarrow> nat n < length hours \<and> hours ! nat n"

definition query_daypart_active_now :: "'b bitmap_ops \<Rightarrow> u64 \<Rightarrow> db anyhow \<Rightarrow> 'b anyhow" where
  "query_daypart_active_now B now pool =
     (let hour_of_week = current_hour_of_week now in
      try_map (\<lambda>D.
        let rows = map (\<lambda>(cid, hours). \<lparr>dp_campaign_id = cid\<rparr>)
                     (filter (\<lambda>(cid, hours). get_bit hours hour_of_week) (join_active D fst (db_daypart D)))
        in insert_ids B (map dp_campaign_id rows) (bm_new B)) pool)"

definition parse_ad_format :: "string \<Rightarrow> ad_format option" where
  "parse_ad_format s =
     (if s = ''BANNER'' \<or> s = ''banner'' then Some Banner
      else if s = ''VIDEO'' \<or> s = ''video'' then Some Video
      else if s = ''AUDIO'' \<or> s = ''audio'' then Some Audio
      else if s = ''NATIVE'' \<or> s = ''native'' then Some Native
      else None)"

definition parse_device_type :: "string \<Rightarrow> device_target_type option" where
  "parse_device_type s =
     (if s = ''DESKTOP'' \<or> s = ''desktop'' then Some Desktop
      else if s = ''MOBILE'' \<or> s = ''mobile'' then Some Mobile
      else if s = ''TABLET'' \<or> s = ''tablet'' then Some Tablet
      else if s = ''CTV'' \<or> s = ''ctv'' then Some Ctv
      else if s = ''OTHER'' \<or> s = ''other'' then Some Other
      else None)"

section \<open>Building a catalog\<close>

definition campaign_of_row :: "campaign_row \<Rightarrow> campaign" where
  "campaign_of_row row =
     \<lparr>camp_id = as_u32 (crow_id row), camp_advertiser_id = nat (crow_advertiser_id row mod 2 ^ 64),
      camp_bid_floor_cents = crow_bid_floor_cents row,
      camp_daily_budget_cents = crow_daily_budget_cents row,
      camp_hourly_budget_cents = crow_hourly_budget_cents row,
      camp_daily_cap_imps = as_u32 (max (crow_daily_cap_imps row) 0),
      camp_hourly_cap_imps = as_u32 (max (crow_hourly_cap_imps row) 0)\<rparr>"

definition build_registry :: "(i32 \<times> string) list \<Rightarrow> segment_registry" where
  "build_registry rows = fold (\<lambda>(i, name). registry_insert name (as_u32 i)) rows []"

definition build_campaigns :: "'b bitmap_ops \<Rightarrow> campaign_row list \<Rightarrow> (campaign_id, campaign) hmap \<times> 'b" where
  "build_campaigns B rows =
     fold (\<lambda>row (campaigns, all).
             let i = as_u32 (crow_id row)
             in (hm_insert i (campaign_of_row row) campaigns, bm_insert B i all))
          rows ([], bm_new B)"

definition creative_of_row :: "creative_row \<Rightarrow> ad_format \<Rightarrow> creative" where
  "creative_of_row row format =
     \<lparr>crea_id = as_u32 (crea_row_id row), crea_campaign_id = as_u32 (crea_row_campaign_id row),
      crea_ad_format = format, crea_click_url = crea_row_click_url row,
      crea_image_url = crea_row_image_url row, crea_width = crea_row_width row,
      crea_height = crea_row_height row\<rparr>"

definition push_creative :: "creative_row \<Rightarrow> (campaign_id, creative list) hmap \<Rightarrow> (campaign_id, creative list) hmap" where
  "push_creative row m =
     (let cid = as_u32 (crea_row_campaign_id row) in
      case parse_ad_format (crea_row_ad_format row) of
        None \<Rightarrow> m
      | Some format \<Rightarrow>
          hm_insert cid ((case hm_get m cid of None \<Rightarrow> [] | Some cs \<Rightarrow> cs) @ [creative_of_row row format]) m)"

definition build_creatives :: "creative_row list \<Rightarrow> (campaign_id, creative list) hmap" where
  "build_creatives rows = fold push_creative rows []"

definition build_segment_index :: "'b bitmap_ops \<Rightarrow> (i32 \<times> i64 list) list \<Rightarrow> (segment_id, 'b) hmap" where
  "build_segment_index B rows =
     hm_insert_rows (\<lambda>(seg, cids). as_u32 seg) (\<lambda>(seg, cids). insert_ids B cids (bm_new B)) rows []"

definition geo_key_of :: "string \<Rightarrow> string \<Rightarrow> geo_key" where
  "geo_key_of kind_str code =
     \<lparr>gk_kind = (if kind_str = ''country'' then Country else Metro), gk_code = code\<rparr>"

definition build_geo_index :: "'b bitmap_ops \<Rightarrow> (string \<times> string \<times> i64 list) list \<Rightarrow> (geo_key, 'b) hmap" where
  "build_geo_index B rows =
     hm_insert_rows (\<lambda>(kind, code, cids). geo_key_of kind code)
       (\<lambda>(kind, code, cids). insert_ids B cids (bm_new B)) rows []"

definition bm_extend :: "'b bitmap_ops \<Rightarrow> 'b \<Rightarrow> 'b \<Rightarrow> 'b" where
  "bm_extend B bm other = fold (bm_insert B) (bm_iter B other) bm"

text \<open>One row of a typed index: rows whose key does not parse are skipped; the campaigns of the
  others are added to the entry of the key and to the restricted set.\<close>

definition typed_index_row ::
  "'b bitmap_ops \<Rightarrow> (string \<Rightarrow> 'k option) \<Rightarrow> string \<times> i64 list \<Rightarrow> ('k, 'b) hmap \<times> 'b \<Rightarrow> ('k, 'b) hmap \<times> 'b" where
  "typed_index_row B parse row state =
     (case row of (str, cids) \<Rightarrow>
      case state of (m, restricted) \<Rightarrow>
      case parse str of
        None \<Rightarrow> (m, restricted)
      | Some k \<Rightarrow>
          (let bm = insert_ids B cids (bm_new B);
               entry = (case hm_get m k of None \<Rightarrow> bm_new B | Some b \<Rightarrow> b)
           in (hm_insert k (bm_extend B entry bm) m, insert_ids B cids restricted)))"

definition build_device_index ::
  "'b bitmap_ops \<Rightarrow> (string \<times> i64 list) list \<Rightarrow> 'b \<Rightarrow> (device_target_type, 'b) hmap \<times> 'b" where
  "build_device_index B rows all =
     (case fold (typed_index_row B parse_device_type) rows ([], bm_new B) of
        (m, restricted) \<Rightarrow> (m, bm_sub B all restricted))"

definition build_format_index ::
  "'b bitmap_ops \<Rightarrow> (string \<times> i64 list) list \<Rightarrow> 'b \<Rightarrow> (ad_format, 'b) hmap \<times> 'b" where
  "build_format_index B rows all =
     (case fold (typed_index_row B parse_ad_format) rows ([], bm_new B) of
        (m, restricted) \<Rightarrow> (m, bm_sub B all restricted))"

text \<open>The snapshot each of the eight concurrent queries reads, or the error of its fetch.\<close>

record pg_reads =
  rd_campaigns :: "db anyhow"
  rd_creatives :: "db anyhow"
  rd_segments :: "db anyhow"
  rd_segment_index :: "db anyhow"
  rd_geo_index :: "db anyhow"
  rd_device_index :: "db anyhow"
  rd_format_index :: "db anyhow"
  rd_daypart :: "db anyhow"

definition err_of :: "'a anyhow \<Rightarrow> string list" where
  "err_of r = (case r of Inl e \<Rightarrow> [e] | Inr _ \<Rightarrow> [])"

text \<open>
  \<open>try_join!\<close> reports the first error to arrive; \<open>first_err\<close> stands for the timing and
  picks one of the errors.
\<close>

definition build ::
  "'b bitmap_ops \<Rightarrow> (string list \<Rightarrow> string) \<Rightarrow> u64 \<Rightarrow> pg_reads
   \<Rightarrow> ('b campaign_catalog \<times> segment_registry) anyhow" where
  "build B first_err now R =
     (case (query_campaigns (rd_campaigns R), query_creatives (rd_creatives R),
            query_segments (rd_segments R), query_segment_index (rd_segment_index R),
            query_geo_index (rd_geo_index R), query_device_index (rd_device_index R),
            query_format_index (rd_format_index R), query_daypart_active_now B now (rd_daypart R)) of
        (Inr campaigns_rows, Inr creatives_rows, Inr segments_rows, Inr seg_idx, Inr geo_idx,
         Inr device_idx, Inr format_idx, Inr daypart_active_now) \<Rightarrow>
          (let registry = build_registry segments_rows;
               (campaigns, all_campaigns) = build_campaigns B campaigns_rows;
               creatives = build_creatives creatives_rows;
               segment_to_campaigns = build_segment_index B seg_idx;
               geo_to_campaigns = build_geo_index B geo_idx;
               (device_to_campaigns, device_unrestricted) = build_device_index B device_idx all_campaigns;
               (format_to_campaigns, format_unrestricted) = build_format_index B format_idx all_campaigns
           in Inr (\<lparr>cat_campaigns = campaigns, cat_creatives = creatives,
                    cat_segment_to_campaigns = segment_to_campaigns,
                    cat_geo_to_campaigns = geo_to_campaigns,
                    cat_device_to_campaigns = device_to_campaigns,
                    cat_format_to_campaigns = format_to_campaigns,
                    cat_daypart_active_now = daypart_active_now,
                    cat_all_campaigns = all_campaigns,
                    cat_device_unrestricted = device_unrestricted,
                    cat_format_unrestricted = format_unrestricted\<rparr>,
                   registry))
      | (a, b, c, d, e, f, g, h) \<Rightarrow>
          Inl (first_err (err_of a @ err_of b @ err_of c @ err_of d @ err_of e @ err_of f @ err_of g @ err_of h)))"

section \<open>Start and refresh\<close>

text \<open>The shared cells, the pacer they seed, and the loop's failure counter.\<close>

record ('b, 'p) loader_state =
  ld_catalog :: "'b campaign_catalog"
  ld_registry :: segment_registry
  ld_pacer :: 'p
  ld_consecutive_failures :: u32

definition loader_start ::
  "'b bitmap_ops \<Rightarrow> 'p budget_pacer_ops \<Rightarrow> (string list \<Rightarrow> string) \<Rightarrow> u64 \<Rightarrow> pg_reads \<Rightarrow> 'p
   \<Rightarrow> ('b, 'p) loader_state anyhow" where
  "loader_start B P first_err now R pacer =
     try_bind (build B first_err now R) (\<lambda>(catalog, registry).
       Inr \<lparr>ld_catalog = catalog, ld_registry = registry,
            ld_pacer = pc_reload P pacer (budget_seeds catalog), ld_consecutive_failures = 0\<rparr>)"

datatype refresh_log = Refreshed usize | Failed string | CircuitOpen string

text \<open>One iteration of \<open>refresh_loop\<close>, after its sleep.\<close>

definition refresh ::
  "'b bitmap_ops \<Rightarrow> 'p budget_pacer_ops \<Rightarrow> (string list \<Rightarrow> string) \<Rightarrow> u32 \<Rightarrow> u64 \<Rightarrow> pg_reads
   \<Rightarrow> ('b, 'p) loader_state \<Rightarrow> ('b, 'p) loader_state \<times> refresh_log" where
  "refresh B P first_err max_failures now R s =
     (case build B first_err now R of
        Inr (new_catalog, new_registry) \<Rightarrow>
          (s\<lparr>ld_catalog := new_catalog, ld_registry := new_registry,
             ld_pacer := pc_reload P (ld_pacer s) (budget_seeds new_catalog),
             ld_consecutive_failures := 0\<rparr>, Refreshed (catalog_len new_catalog))
      | Inl e \<Rightarrow>
          (let failures = ld_consecutive_failures s + 1
           in (s\<lparr>ld_consecutive_failures := failures\<rparr>,
               if max_failures \<le> failures then CircuitOpen e else Failed e)))"

text \<open>The loop over successive rounds of clock readings and reads.\<close>

fun refresh_loop ::
  "'b bitmap_ops \<Rightarrow> 'p budget_pacer_ops \<Rightarrow> (string list \<Rightarrow> string) \<Rightarrow> u32 \<Rightarrow> (u64 \<times> pg_reads) list
   \<Rightarrow> ('b, 'p) loader_state \<Rightarrow> ('b, 'p) loader_state" where
  "refresh_loop B P first_err max_failures [] s = s"
| "refresh_loop B P first_err max_failures ((now, R) # rounds) s =
     refresh_loop B P first_err max_failures rounds (fst (refresh B P first_err max_failures now R s))"

section \<open>Queries as sets of rows\<close>

definition active :: "db \<Rightarrow> i64 \<Rightarrow> bool" where
  "active D cid \<longleftrightarrow> (\<exists>c. (''active'', c) \<in> set (db_campaign D) \<and> crow_id c = cid)"

lemma try_map_simps [simp]: "try_map f (Inr a) = Inr (f a)" "try_map f (Inl e) = Inl e"
  by (simp_all add: try_map_def)

lemma set_join_active [simp]: "set (join_active D cid rows) = {r \<in> set rows. active D (cid r)}"
  by (auto simp: join_active_def active_def)

lemma distinct_group_agg [simp]: "distinct (map fst (group_agg rows))"
  by (simp add: group_agg_def o_def)

lemma set_group_agg:
  "(k, vs) \<in> set (group_agg rows) \<longleftrightarrow>
     k \<in> fst ` set rows \<and> vs = sort (map snd (filter (\<lambda>r. fst r = k) rows))"
  by (auto simp: group_agg_def)

lemma group_agg_member:
  "(\<exists>vs. (k, vs) \<in> set (group_agg rows) \<and> v \<in> set vs) \<longleftrightarrow> (k, v) \<in> set rows"
  by (force simp: set_group_agg)

lemma group_agg_key: "(k, vs) \<in> set (group_agg rows) \<Longrightarrow> \<exists>v. (k, v) \<in> set rows"
  by (force simp: set_group_agg)

context roaring
begin

lemma bits_insert_ids [simp]: "bits (insert_ids B cids bm) = as_u32 ` set cids \<union> bits bm"
  unfolding insert_ids_def by (induction cids arbitrary: bm) auto

lemma bits_extend [simp]: "bits (bm_extend B bm other) = bits bm \<union> bits other"
proof -
  have "bits (fold (bm_insert B) xs b) = set xs \<union> bits b" for xs b
    by (induction xs arbitrary: b) auto
  then show ?thesis by (auto simp: bm_extend_def bits_iter)
qed

lemma build_campaigns_simps:
  "bits (snd (build_campaigns B rows)) = as_u32 ` crow_id ` set rows"
  "fst (build_campaigns B rows) = hm_insert_rows (as_u32 \<circ> crow_id) campaign_of_row rows []"
proof -
  have *: "fold (\<lambda>row (campaigns, all). let i = as_u32 (crow_id row)
        in (hm_insert i (campaign_of_row row) campaigns, bm_insert B i all)) rows (m, b)
      = (hm_insert_rows (as_u32 \<circ> crow_id) campaign_of_row rows m, insert_ids B (map crow_id rows) b)" for m b
    by (induction rows arbitrary: m b) (simp_all add: insert_ids_def Let_def)
  show "bits (snd (build_campaigns B rows)) = as_u32 ` crow_id ` set rows"
    by (simp add: build_campaigns_def *)
  show "fst (build_campaigns B rows) = hm_insert_rows (as_u32 \<circ> crow_id) campaign_of_row rows []"
    by (simp add: build_campaigns_def *)
qed

lemma idx_bits_insert_rows:
  assumes "distinct (map key rows)"
  shows "idx_bits bits (hm_insert_rows key val rows []) k = (\<Union>r \<in> {r \<in> set rows. key r = k}. bits (val r))"
proof (cases "hm_get (hm_insert_rows key val rows []) k")
  case None
  then have empty: "{r \<in> set rows. key r = k} = {}" by (auto simp: hm_get_insert_rows_None)
  show ?thesis unfolding empty by (simp add: idx_bits_def None)
next
  case (Some v)
  then obtain r where r: "r \<in> set rows" "key r = k" "val r = v"
    using hm_get_insert_rows [OF assms, of val "[]" k v] by auto
  then have single: "{r \<in> set rows. key r = k} = {r}"
    using assms by (auto simp: distinct_map inj_on_def)
  show ?thesis unfolding single using Some r by (simp add: idx_bits_def)
qed

lemma typed_index_row_bits:
  "idx_bits bits (fst (typed_index_row B parse r p)) k
     = idx_bits bits (fst p) k \<union> (if parse (fst r) = Some k then as_u32 ` set (snd r) else {})"
  "bits (snd (typed_index_row B parse r p))
     = bits (snd p) \<union> (if parse (fst r) = None then {} else as_u32 ` set (snd r))"
  by (cases r; cases p; cases "parse (fst r)";
      auto simp: typed_index_row_def Let_def idx_bits_def split: option.splits)+

lemma typed_index_fold:
  "idx_bits bits (fst (fold (typed_index_row B parse) rows p)) k
     = idx_bits bits (fst p) k \<union> (\<Union>r \<in> {r \<in> set rows. parse (fst r) = Some k}. as_u32 ` set (snd r))"
  "bits (snd (fold (typed_index_row B parse) rows p))
     = bits (snd p) \<union> (\<Union>r \<in> {r \<in> set rows. parse (fst r) \<noteq> None}. as_u32 ` set (snd r))"
proof (induction rows arbitrary: p)
  case (Cons r rows)
  {
    case 1
    have "{x \<in> set (r # rows). parse (fst x) = Some k}
        = (if parse (fst r) = Some k then {r} else {}) \<union> {x \<in> set rows. parse (fst x) = Some k}" by auto
    then show ?case by (simp add: Cons.IH(1) typed_index_row_bits(1) Un_assoc)
  next
    case 2
    have "{x \<in> set (r # rows). parse (fst x) \<noteq> None}
        = (if parse (fst r) = None then {} else {r}) \<union> {x \<in> set rows. parse (fst x) \<noteq> None}" by auto
    then show ?case by (simp add: Cons.IH(2) typed_index_row_bits(2) Un_assoc)
  }
qed simp_all

end

section \<open>The built catalog against the database\<close>

text \<open>All eight queries read the same snapshot.\<close>

definition reads_of :: "db \<Rightarrow> pg_reads" where
  "reads_of D =
     \<lparr>rd_campaigns = Inr D, rd_creatives = Inr D, rd_segments = Inr D, rd_segment_index = Inr D,
      rd_geo_index = Inr D, rd_device_index = Inr D, rd_format_index = Inr D, rd_daypart = Inr D\<rparr>"

text \<open>
  Column types: segment ids are 32-bit integers and a geo kind is one of the two enum values;
  the ids of active campaigns fit \<open>u32\<close>, the type the bidder keeps them in.
\<close>

definition db_ok :: "db \<Rightarrow> bool" where
  "db_ok D \<longleftrightarrow>
     (\<forall>(status, c) \<in> set (db_campaign D). status = ''active'' \<longrightarrow> 0 \<le> crow_id c \<and> crow_id c < 2 ^ 32) \<and>
     (\<forall>(cid, sid) \<in> set (db_targeting_segment D). in_i32 sid) \<and>
     (\<forall>(cid, kind, code) \<in> set (db_targeting_geo D). kind = ''country'' \<or> kind = ''metro'')"

text \<open>
  The targeting rows of a campaign against a request: a request with segments (geo keys) needs a
  row for one of them; a device (format) is fine if the campaign has no valid device (format) rows
  or one for it; the hour matters only if some active campaign has its bit set for this hour.
\<close>

definition targets :: "db \<Rightarrow> u64 \<Rightarrow> candidate_request \<Rightarrow> i64 \<Rightarrow> bool" where
  "targets D now req cid \<longleftrightarrow>
     (cr_segment_ids req = [] \<or>
        (\<exists>sid. (cid, sid) \<in> set (db_targeting_segment D) \<and> as_u32 sid \<in> set (cr_segment_ids req))) \<and>
     (case cr_geo_keys req of None \<Rightarrow> True | Some ks \<Rightarrow> ks = [] \<or>
        (\<exists>kind code. (cid, kind, code) \<in> set (db_targeting_geo D) \<and> geo_key_of kind code \<in> set ks)) \<and>
     (case cr_device_type req of None \<Rightarrow> True | Some d \<Rightarrow>
        (\<forall>dev. (cid, dev) \<in> set (db_targeting_device D) \<longrightarrow> parse_device_type dev = None) \<or>
        (\<exists>dev. (cid, dev) \<in> set (db_targeting_device D) \<and> parse_device_type dev = Some d)) \<and>
     (case cr_ad_format req of None \<Rightarrow> True | Some f \<Rightarrow>
        (\<forall>form. (cid, form) \<in> set (db_targeting_format D) \<longrightarrow> parse_ad_format form = None) \<or>
        (\<exists>form. (cid, form) \<in> set (db_targeting_format D) \<and> parse_ad_format form = Some f)) \<and>
     ((\<forall>(cid', hours) \<in> set (db_daypart D). active D cid' \<longrightarrow> \<not> get_bit hours (current_hour_of_week now)) \<or>
        (\<exists>hours. (cid, hours) \<in> set (db_daypart D) \<and> get_bit hours (current_hour_of_week now)))"

lemma as_u32_inj_i32: "in_i32 x \<Longrightarrow> in_i32 y \<Longrightarrow> as_u32 x = as_u32 y \<Longrightarrow> x = y"
proof -
  assume b: "in_i32 x" "in_i32 y" and "as_u32 x = as_u32 y"
  then have "take_bit 32 x = take_bit 32 y"
    by (simp add: as_u32_def word_of_int_eq_iff)
  then have "x mod 2 ^ 32 = y mod 2 ^ 32" by (simp add: take_bit_eq_mod)
  then obtain k where "x - y = 2 ^ 32 * k" by (metis mod_eq_dvd_iff dvdE)
  moreover have "\<bar>x - y\<bar> < 2 ^ 32" using b by (auto simp: in_i32_def abs_less_iff)
  ultimately have "k = 0" by (auto simp: abs_mult)
  then show "x = y" using \<open>x - y = 2 ^ 32 * k\<close> by simp
qed

lemma as_u32_inj_id:
  "0 \<le> x \<Longrightarrow> x < 2 ^ 32 \<Longrightarrow> 0 \<le> y \<Longrightarrow> y < 2 ^ 32 \<Longrightarrow> as_u32 x = as_u32 y \<longleftrightarrow> x = y"
  by (auto simp: as_u32_def word_of_int_eq_iff take_bit_eq_mod)

lemma active_id: "db_ok D \<Longrightarrow> active D cid \<Longrightarrow> 0 \<le> cid \<and> cid < 2 ^ 32"
  by (fastforce simp: db_ok_def active_def)

lemma geo_key_of_inj:
  assumes "kind \<in> {''country'', ''metro''}" "kind' \<in> {''country'', ''metro''}"
    and "geo_key_of kind code = geo_key_of kind' code'"
  shows "kind = kind' \<and> code = code'"
  using assms by (auto simp: geo_key_of_def split: if_splits)

lemma set_query_campaigns:
  "query_campaigns (Inr D) = Inr rows \<Longrightarrow> crow_id ` set rows = {cid. active D cid}"
  by (force simp: query_campaigns_def active_def)

text \<open>On one snapshot every query succeeds and the build puts the parts together.\<close>

lemma build_parts:
  "\<exists>crows creas segs six gix dix fix' day.
     query_campaigns (Inr D) = Inr crows \<and> query_creatives (Inr D) = Inr creas \<and>
     query_segments (Inr D) = Inr segs \<and> query_segment_index (Inr D) = Inr six \<and>
     query_geo_index (Inr D) = Inr gix \<and> query_device_index (Inr D) = Inr dix \<and>
     query_format_index (Inr D) = Inr fix' \<and> query_daypart_active_now B now (Inr D) = Inr day \<and>
     build B first_err now (reads_of D) = Inr
       (\<lparr>cat_campaigns = fst (build_campaigns B crows), cat_creatives = build_creatives creas,
         cat_segment_to_campaigns = build_segment_index B six, cat_geo_to_campaigns = build_geo_index B gix,
         cat_device_to_campaigns = fst (build_device_index B dix (snd (build_campaigns B crows))),
         cat_format_to_campaigns = fst (build_format_index B fix' (snd (build_campaigns B crows))),
         cat_daypart_active_now = day, cat_all_campaigns = snd (build_campaigns B crows),
         cat_device_unrestricted = snd (build_device_index B dix (snd (build_campaigns B crows))),
         cat_format_unrestricted = snd (build_format_index B fix' (snd (build_campaigns B crows)))\<rparr>,
        build_registry segs)"
proof -
  obtain crows where crows: "query_campaigns (Inr D) = Inr crows" by (simp add: query_campaigns_def)
  obtain creas where creas: "query_creatives (Inr D) = Inr creas" by (simp add: query_creatives_def)
  obtain segs where segs: "query_segments (Inr D) = Inr segs" by (simp add: query_segments_def)
  obtain six where six: "query_segment_index (Inr D) = Inr six" by (simp add: query_segment_index_def)
  obtain gix where gix: "query_geo_index (Inr D) = Inr gix" by (simp add: query_geo_index_def)
  obtain dix where dix: "query_device_index (Inr D) = Inr dix" by (simp add: query_device_index_def)
  obtain fix' where fix': "query_format_index (Inr D) = Inr fix'" by (simp add: query_format_index_def)
  obtain day where day: "query_daypart_active_now B now (Inr D) = Inr day"
    by (simp add: query_daypart_active_now_def Let_def)
  note q = crows creas segs six gix dix fix' day
  obtain cm all where cm: "build_campaigns B crows = (cm, all)" by (cases "build_campaigns B crows")
  obtain dm du where dm: "build_device_index B dix all = (dm, du)" by (cases "build_device_index B dix all")
  obtain fm fu where fm: "build_format_index B fix' all = (fm, fu)" by (cases "build_format_index B fix' all")
  show ?thesis
    by (rule exI [of _ crows], rule exI [of _ creas], rule exI [of _ segs], rule exI [of _ six],
        rule exI [of _ gix], rule exI [of _ dix], rule exI [of _ fix'], rule exI [of _ day])
      (simp add: build_def reads_of_def q cm dm fm)
qed

lemma build_reads: "\<exists>C reg. build B first_err now (reads_of D) = Inr (C, reg)"
  using build_parts [of D B now first_err] by blast

text \<open>Where the creatives of a built catalog come from.\<close>

lemma push_creatives:
  "c \<in> set (case hm_get (fold push_creative rows m) i of Some cs \<Rightarrow> cs | None \<Rightarrow> []) \<Longrightarrow>
   c \<in> set (case hm_get m i of Some cs \<Rightarrow> cs | None \<Rightarrow> []) \<or>
   (\<exists>r \<in> set rows. as_u32 (crea_row_campaign_id r) = i \<and> parse_ad_format (crea_row_ad_format r) = Some (crea_ad_format c) \<and>
      crea_id c = as_u32 (crea_row_id r))"
proof (induction rows arbitrary: m)
  case (Cons r rows)
  from Cons.IH [of "push_creative r m"] Cons.prems show ?case
    by (auto simp: push_creative_def creative_of_row_def Let_def split: option.splits if_splits)
qed auto

context roaring
begin

lemma segment_index_bits:
  assumes "db_ok D" "query_segment_index (Inr D) = Inr rows"
  shows "idx_bits bits (build_segment_index B rows) s
    = {as_u32 cid | cid. active D cid \<and> (\<exists>sid. (cid, sid) \<in> set (db_targeting_segment D) \<and> as_u32 sid = s)}"
proof -
  define J where "J = map (\<lambda>(cid, sid). (sid, cid)) (join_active D fst (db_targeting_segment D))"
  have J: "(sid, cid) \<in> set J \<longleftrightarrow> (cid, sid) \<in> set (db_targeting_segment D) \<and> active D cid" for cid sid
    by (auto simp: J_def)
  have rows: "rows = group_agg J"
    using assms(2) by (simp add: query_segment_index_def J_def o_def split_def)
  have range: "in_i32 sid" if "(sid, cids) \<in> set rows" for sid cids
    using group_agg_key [of sid cids J] that assms(1) by (auto simp: rows J db_ok_def)
  then have "inj_on (\<lambda>(seg, cids). as_u32 seg) (set rows)"
    unfolding inj_on_def using as_u32_inj_i32 distinct_group_agg [of J]
    by (auto simp: rows distinct_map inj_on_def) (metis fst_conv snd_conv)+
  then have "distinct (map (\<lambda>(seg, cids). as_u32 seg) rows)"
    using distinct_group_agg [of J] by (simp add: rows distinct_map)
  then have "idx_bits bits (build_segment_index B rows) s
      = {as_u32 cid | cid sid. (\<exists>cids. (sid, cids) \<in> set rows \<and> cid \<in> set cids) \<and> as_u32 sid = s}"
    by (auto simp: build_segment_index_def idx_bits_insert_rows) blast
  then show ?thesis by (auto simp: rows group_agg_member J)
qed

lemma geo_index_bits:
  assumes "db_ok D" "query_geo_index (Inr D) = Inr rows"
  shows "idx_bits bits (build_geo_index B rows) k
    = {as_u32 cid | cid. active D cid \<and> (\<exists>kind code. (cid, kind, code) \<in> set (db_targeting_geo D) \<and> geo_key_of kind code = k)}"
proof -
  define J where "J = map (\<lambda>(cid, kind, code). ((kind, code), cid)) (join_active D fst (db_targeting_geo D))"
  have J: "((kind, code), cid) \<in> set J \<longleftrightarrow> (cid, kind, code) \<in> set (db_targeting_geo D) \<and> active D cid" for cid kind code
    by (force simp: J_def)
  define G where "G = group_agg J"
  have rows: "rows = map (\<lambda>r. (fst (fst r), snd (fst r), snd r)) G"
    using assms(2) by (simp add: query_geo_index_def J_def G_def o_def split_def)
  have range: "kind \<in> {''country'', ''metro''}" if "((kind, code), cids) \<in> set G" for kind code cids
    using group_agg_key [of "(kind, code)" cids J] that assms(1) by (auto simp: G_def J db_ok_def)
  have "inj_on (\<lambda>r. geo_key_of (fst (fst r)) (snd (fst r))) (set G)"
  proof (rule inj_onI)
    fix r r' assume r: "r \<in> set G" "r' \<in> set G"
      and eq: "geo_key_of (fst (fst r)) (snd (fst r)) = geo_key_of (fst (fst r')) (snd (fst r'))"
    have "fst r = fst r'"
      using geo_key_of_inj [OF range range eq] r by (metis prod.collapse)
    then show "r = r'" using distinct_group_agg [of J] r by (auto simp: G_def distinct_map inj_on_def)
  qed
  then have "distinct (map (\<lambda>r. geo_key_of (fst (fst r)) (snd (fst r))) G)"
    using distinct_group_agg [of J] by (simp add: G_def distinct_map)
  then have d: "distinct (map (\<lambda>(kind, code, cids). geo_key_of kind code) rows)"
    by (simp add: rows o_def split_def)
  have "idx_bits bits (build_geo_index B rows) k
      = (\<Union>r \<in> {r \<in> set G. geo_key_of (fst (fst r)) (snd (fst r)) = k}. as_u32 ` set (snd r))"
    unfolding build_geo_index_def idx_bits_insert_rows [OF d] by (auto simp: rows split_def)
  also have "\<dots> = {as_u32 cid | cid kind code. (\<exists>cids. ((kind, code), cids) \<in> set G \<and> cid \<in> set cids) \<and> geo_key_of kind code = k}"
  proof (intro equalityI subsetI)
    fix c assume "c \<in> (\<Union>r \<in> {r \<in> set G. geo_key_of (fst (fst r)) (snd (fst r)) = k}. as_u32 ` set (snd r))"
    then obtain kind code cids cid where "((kind, code), cids) \<in> set G" "geo_key_of kind code = k" "cid \<in> set cids" "c = as_u32 cid"
      by (auto simp: image_iff)
    then show "c \<in> {as_u32 cid | cid kind code. (\<exists>cids. ((kind, code), cids) \<in> set G \<and> cid \<in> set cids) \<and> geo_key_of kind code = k}"
      by blast
  qed force
  finally have "idx_bits bits (build_geo_index B rows) k
      = {as_u32 cid | cid kind code. (\<exists>cids. ((kind, code), cids) \<in> set G \<and> cid \<in> set cids) \<and> geo_key_of kind code = k}" .
  then show ?thesis unfolding G_def group_agg_member J by auto
qed

text \<open>Device and format rows.\<close>

lemma typed_rows_member:
  assumes "rows = group_agg (map (\<lambda>(cid, str). (str, cid)) (join_active D fst table))"
  shows "(\<exists>r \<in> set rows. Q (fst r) \<and> c \<in> as_u32 ` set (snd r))
    \<longleftrightarrow> (\<exists>cid str. (cid, str) \<in> set table \<and> active D cid \<and> Q str \<and> c = as_u32 cid)"
proof -
  have "(\<exists>cids. (str, cids) \<in> set rows \<and> cid \<in> set cids) \<longleftrightarrow> (cid, str) \<in> set table \<and> active D cid" for str cid
    by (force simp: assms group_agg_member)
  moreover have "(\<exists>r \<in> set rows. Q (fst r) \<and> c \<in> as_u32 ` set (snd r))
      \<longleftrightarrow> (\<exists>str cid. (\<exists>cids. (str, cids) \<in> set rows \<and> cid \<in> set cids) \<and> Q str \<and> c = as_u32 cid)"
  proof
    assume "\<exists>r \<in> set rows. Q (fst r) \<and> c \<in> as_u32 ` set (snd r)"
    then show "\<exists>str cid. (\<exists>cids. (str, cids) \<in> set rows \<and> cid \<in> set cids) \<and> Q str \<and> c = as_u32 cid"
      by (metis imageE prod.collapse)
  qed force
  ultimately show ?thesis by auto
qed

lemma typed_index_bits:
  assumes rows: "rows = group_agg (map (\<lambda>(cid, str). (str, cid)) (join_active D fst table))"
    and m: "fold (typed_index_row B parse) rows ([], bm_new B) = (m, restricted)"
  shows "idx_bits bits m k = {as_u32 cid | cid. active D cid \<and> (\<exists>str. (cid, str) \<in> set table \<and> parse str = Some k)}"
    and "bits restricted = {as_u32 cid | cid. active D cid \<and> (\<exists>str. (cid, str) \<in> set table \<and> parse str \<noteq> None)}"
proof -
  have "idx_bits bits m k = {c. \<exists>r \<in> set rows. parse (fst r) = Some k \<and> c \<in> as_u32 ` set (snd r)}"
    using typed_index_fold(1) [of parse rows "([], bm_new B)" k] by (auto simp: m idx_bits_def)
  then show "idx_bits bits m k = {as_u32 cid | cid. active D cid \<and> (\<exists>str. (cid, str) \<in> set table \<and> parse str = Some k)}"
    unfolding typed_rows_member [OF rows, of "\<lambda>str. parse str = Some k"] by auto
  have "bits restricted = {c. \<exists>r \<in> set rows. parse (fst r) \<noteq> None \<and> c \<in> as_u32 ` set (snd r)}"
    using typed_index_fold(2) [of parse rows "([], bm_new B)"] by (auto simp: m)
  then show "bits restricted = {as_u32 cid | cid. active D cid \<and> (\<exists>str. (cid, str) \<in> set table \<and> parse str \<noteq> None)}"
    unfolding typed_rows_member [OF rows, of "\<lambda>str. parse str \<noteq> None"] by auto
qed

lemma daypart_bits:
  assumes "query_daypart_active_now B now (Inr D) = Inr b"
  shows "bits b = {as_u32 cid | cid. active D cid \<and> (\<exists>hours. (cid, hours) \<in> set (db_daypart D)
    \<and> get_bit hours (current_hour_of_week now))}"
  using assms by (force simp: query_daypart_active_now_def)

text \<open>The parts of a snapshot that was built, and the rows they were built from.\<close>

lemma build_record:
  assumes "build B first_err now (reads_of D) = Inr (C, reg)"
  obtains crows creas six gix day cm dm dr fm fr all where
    "query_campaigns (Inr D) = Inr crows" "build_campaigns B crows = (cm, all)"
    "query_segment_index (Inr D) = Inr six" "query_geo_index (Inr D) = Inr gix"
    "fold (typed_index_row B parse_device_type)
       (group_agg (map (\<lambda>(cid, str). (str, cid)) (join_active D fst (db_targeting_device D)))) ([], bm_new B) = (dm, dr)"
    "fold (typed_index_row B parse_ad_format)
       (group_agg (map (\<lambda>(cid, str). (str, cid)) (join_active D fst (db_targeting_format D)))) ([], bm_new B) = (fm, fr)"
    "query_daypart_active_now B now (Inr D) = Inr day"
    "C = \<lparr>cat_campaigns = cm, cat_creatives = build_creatives creas,
      cat_segment_to_campaigns = build_segment_index B six, cat_geo_to_campaigns = build_geo_index B gix,
      cat_device_to_campaigns = dm, cat_format_to_campaigns = fm, cat_daypart_active_now = day,
      cat_all_campaigns = all, cat_device_unrestricted = bm_sub B all dr, cat_format_unrestricted = bm_sub B all fr\<rparr>"
proof -
  obtain crows creas segs six gix dix fix' day where crows: "query_campaigns (Inr D) = Inr crows"
    and six: "query_segment_index (Inr D) = Inr six" and gix: "query_geo_index (Inr D) = Inr gix"
    and dix: "query_device_index (Inr D) = Inr dix" and fix': "query_format_index (Inr D) = Inr fix'"
    and day: "query_daypart_active_now B now (Inr D) = Inr day"
    and parts: "build B first_err now (reads_of D) = Inr
       (\<lparr>cat_campaigns = fst (build_campaigns B crows), cat_creatives = build_creatives creas,
         cat_segment_to_campaigns = build_segment_index B six, cat_geo_to_campaigns = build_geo_index B gix,
         cat_device_to_campaigns = fst (build_device_index B dix (snd (build_campaigns B crows))),
         cat_format_to_campaigns = fst (build_format_index B fix' (snd (build_campaigns B crows))),
         cat_daypart_active_now = day, cat_all_campaigns = snd (build_campaigns B crows),
         cat_device_unrestricted = snd (build_device_index B dix (snd (build_campaigns B crows))),
         cat_format_unrestricted = snd (build_format_index B fix' (snd (build_campaigns B crows)))\<rparr>,
        build_registry segs)"
    using build_parts [of D B now first_err] by blast
  obtain dm dr where dm: "fold (typed_index_row B parse_device_type) dix ([], bm_new B) = (dm, dr)"
    by (cases "fold (typed_index_row B parse_device_type) dix ([], bm_new B)")
  obtain fm fr where fm: "fold (typed_index_row B parse_ad_format) fix' ([], bm_new B) = (fm, fr)"
    by (cases "fold (typed_index_row B parse_ad_format) fix' ([], bm_new B)")
  obtain cm all where cm: "build_campaigns B crows = (cm, all)" by (cases "build_campaigns B crows")
  show thesis
    using that [where creas = creas and dm = dm and fm = fm, OF crows cm six gix _ _ day] assms parts dix fix' dm fm
    by (simp add: cm build_device_index_def build_format_index_def query_device_index_def query_format_index_def o_def split_def)
qed

lemma build_campaign_fields:
  assumes "build B first_err now (reads_of D) = Inr (C, reg)"
  shows "hm_wf (cat_campaigns C)"
    and "fst ` set (cat_campaigns C) = {as_u32 cid | cid. active D cid}"
    and "bits (cat_all_campaigns C) = {as_u32 cid | cid. active D cid}"
proof -
  obtain crows cm all where crows: "query_campaigns (Inr D) = Inr crows" and cm: "build_campaigns B crows = (cm, all)"
    and C: "cat_campaigns C = cm" "cat_all_campaigns C = all"
    using assms by (rule build_record) auto
  have ids: "as_u32 ` crow_id ` set crows = {as_u32 cid | cid. active D cid}"
    using set_query_campaigns [OF crows] by auto
  have cm': "cm = hm_insert_rows (as_u32 \<circ> crow_id) campaign_of_row crows []"
    using build_campaigns_simps(2) [of crows] by (simp add: cm)
  then show "hm_wf (cat_campaigns C)" by (simp add: C)
  have "fst ` set cm = {i. hm_get cm i \<noteq> None}"
    by (auto simp: hm_get_def map_of_eq_None_iff)
  also have "\<dots> = as_u32 ` crow_id ` set crows"
    by (auto simp: cm' hm_get_insert_rows_None)
  finally show "fst ` set (cat_campaigns C) = {as_u32 cid | cid. active D cid}" by (simp add: C ids)
  show "bits (cat_all_campaigns C) = {as_u32 cid | cid. active D cid}"
    using build_campaigns_simps(1) [of crows] by (simp add: C cm ids)
qed

lemma build_index_fields:
  assumes D: "db_ok D" and build: "build B first_err now (reads_of D) = Inr (C, reg)"
  shows "idx_bits bits (cat_segment_to_campaigns C) s
      = {as_u32 cid | cid. active D cid \<and> (\<exists>sid. (cid, sid) \<in> set (db_targeting_segment D) \<and> as_u32 sid = s)}"
    and "idx_bits bits (cat_geo_to_campaigns C) k
      = {as_u32 cid | cid. active D cid \<and> (\<exists>kind code. (cid, kind, code) \<in> set (db_targeting_geo D) \<and> geo_key_of kind code = k)}"
    and "idx_bits bits (cat_device_to_campaigns C) d
      = {as_u32 cid | cid. active D cid \<and> (\<exists>str. (cid, str) \<in> set (db_targeting_device D) \<and> parse_device_type str = Some d)}"
    and "bits (cat_device_unrestricted C) = {as_u32 cid | cid. active D cid}
      - {as_u32 cid | cid. active D cid \<and> (\<exists>str. (cid, str) \<in> set (db_targeting_device D) \<and> parse_device_type str \<noteq> None)}"
    and "idx_bits bits (cat_format_to_campaigns C) f
      = {as_u32 cid | cid. active D cid \<and> (\<exists>str. (cid, str) \<in> set (db_targeting_format D) \<and> parse_ad_format str = Some f)}"
    and "bits (cat_format_unrestricted C) = {as_u32 cid | cid. active D cid}
      - {as_u32 cid | cid. active D cid \<and> (\<exists>str. (cid, str) \<in> set (db_targeting_format D) \<and> parse_ad_format str \<noteq> None)}"
    and "bits (cat_daypart_active_now C) = {as_u32 cid | cid. active D cid \<and> (\<exists>hours. (cid, hours) \<in> set (db_daypart D)
      \<and> get_bit hours (current_hour_of_week now))}"
  using build
  by (rule build_record, use build_campaign_fields(3) [OF build] in \<open>simp add: segment_index_bits [OF D] geo_index_bits [OF D]
      typed_index_bits [OF refl] daypart_bits\<close>)+

lemma build_wf:
  assumes "db_ok D" "build B first_err now (reads_of D) = Inr (C, reg)"
  shows "wf_catalog bits C"
  using build_campaign_fields(1) [OF assms(2)]
  unfolding wf_catalog_def build_campaign_fields(2,3) [OF assms(2)] build_index_fields [OF assms]
  by auto

lemma build_targets:
  assumes D: "db_ok D" and build: "build B first_err now (reads_of D) = Inr (C, reg)"
    and cid: "active D cid"
  shows "matches bits C req (as_u32 cid) \<longleftrightarrow> targets D now req cid"
proof -
  have same: "cid' = cid" if "active D cid'" "as_u32 cid = as_u32 cid'" for cid'
    using active_id [OF D] as_u32_inj_id cid that by metis
  have pick: "as_u32 cid \<in> {as_u32 c | c. active D c \<and> Q c} \<longleftrightarrow> Q cid" for Q
    using cid by (auto dest: same)
  have all: "as_u32 cid \<in> {as_u32 c | c. active D c}" using cid by blast
  note fields = build_campaign_fields [OF build] build_index_fields [OF D build] Diff_iff pick
  have seg: "as_u32 cid \<in> idx_bits bits (cat_segment_to_campaigns C) s
      \<longleftrightarrow> (\<exists>sid. (cid, sid) \<in> set (db_targeting_segment D) \<and> as_u32 sid = s)" for s
    unfolding fields ..
  have geo: "as_u32 cid \<in> idx_bits bits (cat_geo_to_campaigns C) k
      \<longleftrightarrow> (\<exists>kind code. (cid, kind, code) \<in> set (db_targeting_geo D) \<and> geo_key_of kind code = k)" for k
    unfolding fields ..
  have dev: "as_u32 cid \<in> idx_bits bits (cat_device_to_campaigns C) d
      \<longleftrightarrow> (\<exists>dev. (cid, dev) \<in> set (db_targeting_device D) \<and> parse_device_type dev = Some d)" for d
    unfolding fields ..
  have devu: "as_u32 cid \<in> bits (cat_device_unrestricted C)
      \<longleftrightarrow> (\<forall>dev. (cid, dev) \<in> set (db_targeting_device D) \<longrightarrow> parse_device_type dev = None)"
    unfolding fields using all by (auto simp del: not_None_eq)
  have form: "as_u32 cid \<in> idx_bits bits (cat_format_to_campaigns C) f
      \<longleftrightarrow> (\<exists>form. (cid, form) \<in> set (db_targeting_format D) \<and> parse_ad_format form = Some f)" for f
    unfolding fields ..
  have formu: "as_u32 cid \<in> bits (cat_format_unrestricted C)
      \<longleftrightarrow> (\<forall>form. (cid, form) \<in> set (db_targeting_format D) \<longrightarrow> parse_ad_format form = None)"
    unfolding fields using all by (auto simp del: not_None_eq)
  have day: "as_u32 cid \<in> bits (cat_daypart_active_now C)
      \<longleftrightarrow> (\<exists>hours. (cid, hours) \<in> set (db_daypart D) \<and> get_bit hours (current_hour_of_week now))"
    unfolding fields ..
  have day0: "bits (cat_daypart_active_now C) = {}
      \<longleftrightarrow> (\<forall>(cid', hours) \<in> set (db_daypart D). active D cid' \<longrightarrow> \<not> get_bit hours (current_hour_of_week now))"
    unfolding build_campaign_fields [OF build] build_index_fields [OF D build] by auto
  show ?thesis
    unfolding matches_def targets_def seg geo dev devu form formu day day0
    by (intro conj_cong) (auto split: option.splits)
qed

lemma build_retrieval:
  assumes "db_ok D" "build B first_err now (reads_of D) = Inr (C, reg)" "0 \<le> cid" "cid < 2 ^ 32"
  shows "as_u32 cid \<in> bits (candidates_for B C req) \<longleftrightarrow> active D cid \<and> targets D now req cid"
proof -
  have all: "as_u32 cid \<in> bits (cat_all_campaigns C) \<longleftrightarrow> active D cid"
    unfolding build_campaign_fields [OF assms(2)] build_index_fields [OF assms(1,2)]
    using as_u32_inj_id [OF assms(3,4)] active_id [OF assms(1)] by blast
  show ?thesis
    using candidates_for_bits [OF build_wf [OF assms(1,2)], of req] all build_targets [OF assms(1,2), of cid req]
    by auto
qed

text \<open>The rows behind a campaign and a creative of a built catalog.\<close>

lemma built_campaign:
  assumes "build B first_err now (reads_of D) = Inr (C, reg)" "campaign_of C c = Some campaign"
  obtains row where "(''active'', row) \<in> set (db_campaign D)" "as_u32 (crow_id row) = c" "campaign = campaign_of_row row"
proof -
  obtain crows cm all where crows: "query_campaigns (Inr D) = Inr crows" and cm: "build_campaigns B crows = (cm, all)"
    and C: "cat_campaigns C = cm"
    using assms(1) by (rule build_record) auto
  have "cm = hm_insert_rows (as_u32 \<circ> crow_id) campaign_of_row crows []"
    using build_campaigns_simps(2) [of crows] by (simp add: cm)
  then have "hm_get (hm_insert_rows (as_u32 \<circ> crow_id) campaign_of_row crows []) c = Some campaign"
    using assms(2) by (simp add: campaign_of_def C)
  then show thesis using that crows hm_get_insert_rows_from by (fastforce simp: query_campaigns_def)
qed

lemma built_creative:
  assumes "build B first_err now (reads_of D) = Inr (C, reg)" "creative \<in> set (creatives_for C c)"
  obtains r where "r \<in> set (db_creative D)" "active D (crea_row_campaign_id r)" "as_u32 (crea_row_campaign_id r) = c"
    "parse_ad_format (crea_row_ad_format r) = Some (crea_ad_format creative)" "crea_id creative = as_u32 (crea_row_id r)"
proof -
  obtain creas where creas: "query_creatives (Inr D) = Inr creas" "cat_creatives C = build_creatives creas"
    using build_parts [of D B now first_err] assms(1) by auto
  obtain r where "r \<in> set creas" "as_u32 (crea_row_campaign_id r) = c"
      "parse_ad_format (crea_row_ad_format r) = Some (crea_ad_format creative)" "crea_id creative = as_u32 (crea_row_id r)"
    using push_creatives [of creative creas "[]" c] assms(2) by (auto simp: creatives_for_def creas(2) build_creatives_def)
  then show thesis using that creas(1) set_join_active by (fastforce simp: query_creatives_def)
qed

end

section \<open>Properties\<close>

text \<open>A small database: two active campaigns and a paused one.\<close>

definition ex_campaign :: "i64 \<Rightarrow> campaign_row" where
  "ex_campaign i = \<lparr>crow_id = i, crow_advertiser_id = 1, crow_bid_floor_cents = 150,
     crow_daily_budget_cents = 1000, crow_hourly_budget_cents = 100, crow_daily_cap_imps = 10,
     crow_hourly_cap_imps = 3\<rparr>"

definition ex_db :: db where
  "ex_db = \<lparr>db_campaign = [(''active'', ex_campaign 1), (''paused'', ex_campaign 2), (''active'', ex_campaign 3)],
     db_creative = [], db_segment = [], db_targeting_segment = [(1, 7), (2, 7), (3, 8)],
     db_targeting_geo = [], db_targeting_device = [(1, ''MOBILE'')], db_targeting_format = [],
     db_daypart = []\<rparr>"

definition ex_candidate_request :: candidate_request where
  "ex_candidate_request = \<lparr>cr_segment_ids = [7], cr_geo_keys = None, cr_device_type = Some Mobile,
     cr_ad_format = Some Banner\<rparr>"

lemma ex_db_ok: "db_ok ex_db"
  by (simp add: db_ok_def ex_db_def ex_campaign_def in_i32_def)

lemma ex_active: "active ex_db 1"
  unfolding active_def by (rule exI [of _ "ex_campaign 1"]) (simp add: ex_db_def ex_campaign_def)

lemma ex_targets: "targets ex_db 0 ex_candidate_request 1"
  by (simp add: targets_def ex_db_def ex_candidate_request_def parse_device_type_def as_u32_def)

text \<open>
  C4. Candidate retrieval implements the targeting tables: a catalog built from a database
  snapshot returns, for any request, exactly the active campaigns whose segment, geo, device,
  format and daypart rows match the request. The bitmaps are any implementation with the
  documented behaviour of roaring bitmaps.
\<close>

theorem retrieval_refines_database:
  assumes "roaring B bits" and "db_ok D" and "build B first_err now (reads_of D) = Inr (C, reg)"
    and "0 \<le> cid" and "cid < 2 ^ 32"
  shows "as_u32 cid \<in> bits (candidates_for B C req) \<longleftrightarrow> active D cid \<and> targets D now req cid"
  using roaring.build_retrieval [OF assms] .

theorem retrieval_refines_database_witness:
  "\<exists>C reg. build set_bitmap hd 0 (reads_of ex_db) = Inr (C, reg)
     \<and> as_u32 1 \<in> candidates_for set_bitmap C ex_candidate_request"
proof -
  obtain C reg where C: "build set_bitmap hd 0 (reads_of ex_db) = Inr (C, reg)"
    using build_reads by blast
  have "as_u32 1 \<in> candidates_for set_bitmap C ex_candidate_request"
    using retrieval_refines_database [OF set_bm.roaring_axioms ex_db_ok C, of 1 ex_candidate_request] ex_active ex_targets
    by simp
  then show ?thesis using C by blast
qed

text \<open>
  Every snapshot the loader builds from a database is consistent: the campaign map and the
  universe bitmap hold the same ids, and no index lists a campaign that is not loaded, so a
  retrieved id always has its campaign record.
\<close>

theorem built_catalog_wf:
  assumes "roaring B bits" and "db_ok D" and "build B first_err now (reads_of D) = Inr (C, reg)"
  shows "wf_catalog bits C \<and> (\<forall>i \<in> bits (candidates_for B C req). campaign_of C i \<noteq> None)"
proof -
  have wf: "wf_catalog bits C" using roaring.build_wf [OF assms] .
  have "campaign_of C i \<noteq> None" if "i \<in> bits (candidates_for B C req)" for i
  proof -
    have "i \<in> fst ` set (cat_campaigns C)"
      using that roaring.matches_in_universe [OF assms(1) wf, of req] wf by (auto simp: wf_catalog_def)
    then show ?thesis by (simp add: campaign_of_def hm_get_def map_of_eq_None_iff)
  qed
  then show ?thesis using wf by blast
qed

theorem built_catalog_wf_witness:
  "\<exists>C reg. build set_bitmap hd 0 (reads_of ex_db) = Inr (C, reg) \<and> wf_catalog (\<lambda>b. b) C"
  using built_catalog_wf [OF set_bm.roaring_axioms ex_db_ok] build_reads by blast

text \<open>A round in which at least one of the eight queries fails builds nothing.\<close>

definition read_fails :: "pg_reads \<Rightarrow> bool" where
  "read_fails R \<longleftrightarrow> isl (rd_campaigns R) \<or> isl (rd_creatives R) \<or> isl (rd_segments R) \<or> isl (rd_segment_index R) \<or>
     isl (rd_geo_index R) \<or> isl (rd_device_index R) \<or> isl (rd_format_index R) \<or> isl (rd_daypart R)"

lemma query_fails:
  "isl (query_campaigns r) = isl r" "isl (query_creatives r) = isl r" "isl (query_segments r) = isl r"
  "isl (query_segment_index r) = isl r" "isl (query_geo_index r) = isl r" "isl (query_device_index r) = isl r"
  "isl (query_format_index r) = isl r" "isl (query_daypart_active_now B now r) = isl r"
  by (cases r; simp add: query_campaigns_def query_creatives_def query_segments_def query_segment_index_def query_geo_index_def
      query_device_index_def query_format_index_def query_daypart_active_now_def Let_def)+

lemma build_fails:
  assumes "read_fails R"
  shows "\<exists>e. build B first_err now R = Inl e"
proof (cases "build B first_err now R")
  case (Inr x)
  then have "\<not> isl (query_campaigns (rd_campaigns R))" "\<not> isl (query_creatives (rd_creatives R))"
      "\<not> isl (query_segments (rd_segments R))" "\<not> isl (query_segment_index (rd_segment_index R))"
      "\<not> isl (query_geo_index (rd_geo_index R))" "\<not> isl (query_device_index (rd_device_index R))"
      "\<not> isl (query_format_index (rd_format_index R))" "\<not> isl (query_daypart_active_now B now (rd_daypart R))"
    by (auto simp: build_def split: sum.splits)
  then show ?thesis using assms by (simp add: read_fails_def query_fails)
qed simp

lemma outage_keeps:
  assumes "\<forall>(now, R) \<in> set outage. read_fails R"
  shows "refresh_loop B P first_err max_failures outage s =
    s\<lparr>ld_consecutive_failures := ld_consecutive_failures s + of_nat (length outage)\<rparr>"
  using assms
proof (induction outage arbitrary: s)
  case (Cons r outage)
  obtain now R where r: "r = (now, R)" by (cases r)
  then obtain e where "build B first_err now R = Inl e" using build_fails Cons.prems by fastforce
  then show ?case using Cons by (simp add: r refresh_def Let_def algebra_simps)
qed simp

lemma refresh_loop_append:
  "refresh_loop B P first_err max_failures (xs @ ys) s =
     refresh_loop B P first_err max_failures ys (refresh_loop B P first_err max_failures xs s)"
  by (induction xs arbitrary: s) auto

text \<open>
  C13. An outage of the database does not take the bidder off its campaigns. After any rounds of the
  refresh loop, then one that read a database snapshot, then any number of rounds in each of which
  some query failed, retrieval still returns exactly the campaigns that were active in that snapshot
  and whose targeting rows match the request at the hour of that round. The budgets are those the good
  round left, and the failure counter is the length of the outage.
\<close>

theorem refresh_keeps_last_good:
  assumes "roaring B bits" and "db_ok D" and "\<forall>(t, R) \<in> set outage. read_fails R" and "0 \<le> cid" and "cid < 2 ^ 32"
  shows "let good = refresh_loop B P first_err max_failures (before @ [(now, reads_of D)]) s;
             late = refresh_loop B P first_err max_failures (before @ (now, reads_of D) # outage) s
         in (as_u32 cid \<in> bits (candidates_for B (ld_catalog late) req) \<longleftrightarrow> active D cid \<and> targets D now req cid) \<and>
            ld_pacer late = ld_pacer good \<and> ld_consecutive_failures late = of_nat (length outage)"
proof -
  obtain C reg where build: "build B first_err now (reads_of D) = Inr (C, reg)" using build_reads by blast
  let ?good = "refresh_loop B P first_err max_failures (before @ [(now, reads_of D)]) s"
  have good: "ld_catalog ?good = C" "ld_consecutive_failures ?good = 0"
    using build by (simp_all add: refresh_loop_append refresh_def)
  have "refresh_loop B P first_err max_failures (before @ (now, reads_of D) # outage) s
      = refresh_loop B P first_err max_failures outage ?good"
    using refresh_loop_append [of B P first_err max_failures "before @ [(now, reads_of D)]" outage s] by simp
  then show ?thesis
    using roaring.build_retrieval [OF assms(1,2) build assms(4,5)] good by (simp add: outage_keeps [OF assms(3)] Let_def)
qed

text \<open>Two rounds without a segment index, after one that read the example database.\<close>

theorem refresh_keeps_last_good_witness:
  "let down = (reads_of ex_db)\<lparr>rd_segment_index := Inl ''timeout''\<rparr>;
       late = refresh_loop set_bitmap LocalBudgetPacer hd 3 [(0, reads_of ex_db), (60, down), (120, down)]
         \<lparr>ld_catalog = new_for_test set_bitmap [] [] [] [] [] [] {} {}, ld_registry = [], ld_pacer = Map.empty, ld_consecutive_failures = 0\<rparr>
   in as_u32 1 \<in> candidates_for set_bitmap (ld_catalog late) ex_candidate_request \<and> ld_consecutive_failures late = 2"
proof -
  let ?down = "(reads_of ex_db)\<lparr>rd_segment_index := Inl ''timeout''\<rparr>"
  have "\<forall>(t, R) \<in> set [(60, ?down), (120, ?down)]. read_fails R" by (simp add: read_fails_def)
  from refresh_keeps_last_good [OF set_bm.roaring_axioms ex_db_ok this, of 1 LocalBudgetPacer hd 3 "[]" 0 _ ex_candidate_request]
  show ?thesis using ex_active ex_targets by (simp add: Let_def)
qed

end
