(* ===== verification/Budget_Refresh.thy ===== *)
theory Budget_Refresh
  imports Catalog_Loader
begin

text \<open>
  The refresh loop and the budgets. Every successful refresh seeds the local pacer with the daily
  budgets of the catalog (\<open>catalog/loader.rs\<close>, \<open>pacing/local.rs\<close>), so what was reserved since the
  last refresh no longer counts. The bids between two refreshes are reservations on the pacer.
\<close>

section \<open>Bids between refreshes\<close>

text \<open>What the reservations of one campaign take in all, in the order they come.\<close>

fun granted_total :: "campaign_id \<Rightarrow> i32 list \<Rightarrow> local_pacer \<Rightarrow> int \<times> local_pacer" where
  "granted_total c [] p = (0, p)"
| "granted_total c (x # xs) p =
     (case check_and_reserve p c x of
        (d, p1) \<Rightarrow> (case granted_total c xs p1 of (g, p2) \<Rightarrow> ((if d = HasBudget then x else 0) + g, p2)))"

text \<open>Rounds of the loop: a refresh from a database, then bids of the campaign until the next one.\<close>

fun spent_over ::
  "'b bitmap_ops \<Rightarrow> (string list \<Rightarrow> string) \<Rightarrow> u32 \<Rightarrow> campaign_id \<Rightarrow> (u64 \<times> db \<times> i32 list) list
   \<Rightarrow> ('b, local_pacer) loader_state \<Rightarrow> int" where
  "spent_over B first_err max_failures c [] s = 0"
| "spent_over B first_err max_failures c ((now, D, xs) # rounds) s =
     (let s1 = fst (refresh B LocalBudgetPacer first_err max_failures now (reads_of D) s);
          (g, p) = granted_total c xs (ld_pacer s1)
      in g + spent_over B first_err max_failures c rounds (s1\<lparr>ld_pacer := p\<rparr>))"

text \<open>The primary key of the campaign table.\<close>

definition campaign_key :: "db \<Rightarrow> bool" where
  "campaign_key D \<longleftrightarrow> distinct (map (crow_id \<circ> snd) (db_campaign D))"

section \<open>A refresh and the pacer\<close>

lemma granted_total_local:
  "p c = q c \<Longrightarrow> fst (granted_total c xs p) = fst (granted_total c xs q)"
proof (induction xs arbitrary: p q)
  case (Cons x xs)
  obtain d p1 where p1: "check_and_reserve p c x = (d, p1)" by (cases "check_and_reserve p c x")
  obtain e q1 where q1: "check_and_reserve q c x = (e, q1)" by (cases "check_and_reserve q c x")
  have "d = e" "p1 c = q1 c"
    using p1 q1 Cons.prems by (auto simp: check_and_reserve_def split: option.splits prod.splits if_splits)
  then show ?case using Cons.IH [of p1 q1] by (simp add: p1 q1 case_prod_beta)
qed simp

lemma active_keys:
  assumes "db_ok D" "campaign_key D" "query_campaigns (Inr D) = Inr rows"
  shows "distinct (map (as_u32 \<circ> crow_id) rows)" and "set rows = {c. (''active'', c) \<in> set (db_campaign D)}"
proof -
  have rows: "rows = map snd (filter (\<lambda>(status, c). status = ''active'') (db_campaign D))"
    using assms(3) by (simp add: query_campaigns_def)
  then show set_rows: "set rows = {c. (''active'', c) \<in> set (db_campaign D)}" by force
  have "distinct (map crow_id rows)"
    using assms(2) by (simp add: rows campaign_key_def distinct_map_filter)
  moreover have "inj_on as_u32 (crow_id ` set rows)"
    using active_id [OF assms(1)] set_query_campaigns [OF assms(3)] by (auto simp: inj_on_def as_u32_inj_id)
  ultimately show "distinct (map (as_u32 \<circ> crow_id) rows)" by (simp add: distinct_map comp_inj_on)
qed

context roaring
begin

lemma build_campaign_of:
  assumes "db_ok D" "campaign_key D" "build B first_err now (reads_of D) = Inr (C, reg)" "(''active'', row) \<in> set (db_campaign D)"
  shows "campaign_of C (as_u32 (crow_id row)) = Some (campaign_of_row row)"
proof -
  obtain crows cm all where crows: "query_campaigns (Inr D) = Inr crows" and cm: "build_campaigns B crows = (cm, all)"
    and C: "cat_campaigns C = cm"
    using assms(3) by (rule build_record) auto
  have "cm = hm_insert_rows (as_u32 \<circ> crow_id) campaign_of_row crows []"
    using build_campaigns_simps(2) [of crows] by (simp add: cm)
  then show ?thesis
    using active_keys(2) [OF assms(1,2) crows] assms(4)
    by (auto simp: campaign_of_def C hm_get_insert_rows [OF active_keys(1) [OF assms(1,2) crows]])
qed

lemma refresh_seeds:
  assumes "db_ok D" "campaign_key D" "(''active'', row) \<in> set (db_campaign D)"
  shows "ld_pacer (fst (refresh B LocalBudgetPacer first_err m now (reads_of D) s)) (as_u32 (crow_id row))
    = Some (crow_daily_budget_cents row)"
proof -
  obtain C reg where build: "build B first_err now (reads_of D) = Inr (C, reg)" using build_reads by blast
  have "hm_wf (cat_campaigns C)" by (rule build_campaign_fields(1) [OF build])
  then have "distinct (map fst (budget_seeds C))" by (simp add: budget_seeds_def hm_wf_def comp_def case_prod_beta)
  moreover have "map_of (budget_seeds C) (as_u32 (crow_id row)) = Some (crow_daily_budget_cents row)"
    using build_campaign_of [OF assms(1,2) build assms(3)]
    by (simp add: budget_seeds_def campaign_of_def hm_get_def map_of_map campaign_of_row_def)
  ultimately have "map_of (rev (budget_seeds C)) (as_u32 (crow_id row)) = Some (crow_daily_budget_cents row)"
    by (intro map_of_is_SomeI) (auto simp: rev_map [symmetric] dest: map_of_SomeD)
  then show ?thesis
    by (simp add: refresh_def build LocalBudgetPacer_def reload_map map_add_def)
qed

end

text \<open>
  C14. The refresh loop refills the budgets. In every round of the loop, whatever the pacer's counters
  held before it, the bids of an active campaign are granted as if the campaign had spent nothing
  yet: what it spends over the rounds is the sum of what its configured daily budget grants in each
  round alone, with no bound across the rounds.
\<close>

theorem refresh_refills_budget:
  assumes "roaring B bits" "as_u32 (crow_id row) = c"
    and "\<forall>(now, D, xs) \<in> set rounds. db_ok D \<and> campaign_key D \<and> (''active'', row) \<in> set (db_campaign D)"
  shows "spent_over B first_err m c rounds s
    = (\<Sum>(now, D, xs) \<leftarrow> rounds. fst (granted_total c xs [c \<mapsto> crow_daily_budget_cents row]))"
  using assms(3)
proof (induction rounds arbitrary: s)
  case (Cons r rounds)
  obtain now D xs where r: "r = (now, D, xs)" by (cases r)
  have "ld_pacer (fst (refresh B LocalBudgetPacer first_err m now (reads_of D) s)) c = Some (crow_daily_budget_cents row)"
    using roaring.refresh_seeds [OF assms(1), of D row] Cons.prems r assms(2) by auto
  then have "fst (granted_total c xs (ld_pacer (fst (refresh B LocalBudgetPacer first_err m now (reads_of D) s))))
      = fst (granted_total c xs [c \<mapsto> crow_daily_budget_cents row])"
    by (intro granted_total_local) simp
  then show ?case using Cons.IH Cons.prems by (simp add: r Let_def case_prod_beta fun_upd_def)
qed simp

text \<open>A daily budget of 1000, three rounds of four bids of 300: 3600 in all.\<close>

theorem refresh_refills_budget_witness:
  "\<forall>s. spent_over set_bitmap hd 5 1 (replicate 3 (0, ex_db, [300, 300, 300, 300])) s = 3600"
proof
  fix s :: "(u32 set, local_pacer) loader_state"
  have "as_u32 (crow_id (ex_campaign 1)) = 1" by (simp add: ex_campaign_def as_u32_def)
  moreover have "campaign_key ex_db" by (simp add: campaign_key_def ex_db_def ex_campaign_def)
  moreover have "(''active'', ex_campaign 1) \<in> set (db_campaign ex_db)" by (simp add: ex_db_def)
  moreover have "fst (granted_total 1 [300, 300, 300, 300] [1 \<mapsto> crow_daily_budget_cents (ex_campaign 1)]) = 1200"
    by (simp add: ex_campaign_def check_and_reserve_def counter_fetch_sub_def i64_wrap_def)
  ultimately show "spent_over set_bitmap hd 5 1 (replicate 3 (0, ex_db, [300, 300, 300, 300])) s = 3600"
    using refresh_refills_budget [OF set_bm.roaring_axioms, of "ex_campaign 1" 1 "replicate 3 (0, ex_db, [300, 300, 300, 300])" hd 5 s]
      ex_db_ok by (simp add: numeral_3_eq_3)
qed

end
