(* ===== verification/Bidder_System.thy ===== *)
theory Bidder_System
  imports Server_Assembly Budget_Refresh
begin

text \<open>
  The running bidder: requests, the refresh loop of \<open>catalog/loader.rs\<close>, model reloads of
  \<open>scoring/ml.rs\<close>, the write-behind drain of \<open>main.rs\<close> and the impression workers of \<open>freq_cap.rs\<close>, in
  any order. The step relation takes whole requests and whole refresh rounds; a worker writes one
  window at a time, so that the writes of different workers interleave. Redis counters are those of
  the locale \<open>redis_counters\<close>; the expiry of a counter is left out.
\<close>

section \<open>The process\<close>

text \<open>
  The dispatcher takes an event from the channel and holds it until one of the workers is free. A
  worker is the event it writes with the windows it has not yet written. The last three fields are
  bookkeeping: the impressions offered to the recorder, those it dropped because it was full, and the
  writes that Redis refused.
\<close>

record ('b, 'r, 'f, 'd, 'q, 'c) bidder_process =
  pr_app :: "(('b, 'r, models, 'f, local_pacer) services, 'd, 'q) app_state"
  pr_registry :: segment_registry
  pr_failures :: u32
  pr_held :: "impression_record option"
  pr_workers :: "(impression_record \<times> cap_window list) list"
  pr_counters :: 'c
  pr_offered :: "impression_record list"
  pr_overflowed :: "impression_record list"
  pr_unwritten :: "(impression_record \<times> cap_window) list"

definition recorder_of :: "('w, 'd, 'q) app_state \<Rightarrow> impression_recorder" where
  "recorder_of st = ws_recorder (app_win st)"

definition with_recorder :: "impression_recorder \<Rightarrow> ('w, 'd, 'q) app_state \<Rightarrow> ('w, 'd, 'q) app_state" where
  "with_recorder chan st = st\<lparr>app_win := (app_win st)\<lparr>ws_recorder := chan\<rparr>\<rparr>"

text \<open>The impression a request offers: that of an accepted win notice with a user.\<close>

definition win_records :: "('e, 'b, 'w, 'd, 'q) app_parts \<Rightarrow> ('e, 'w, 'd) request_env \<Rightarrow> server_call \<Rightarrow> ('w, 'd, 'q) app_state \<Rightarrow> impression_record list" where
  "win_records A env call st =
     (case call of
        WinCall (Some params) \<Rightarrow>
          (if re_cut env = None \<and>
              fst (gate_check (ap_crypto A) (ap_dedup A) (ap_gate A) (notice_call_of (re_unix_secs env) (re_reply env) params)
                     (ws_dedup (app_win st))) = Accept
           then
             (case wp_user_id params of
                Some uid \<Rightarrow>
                  (if uid \<noteq> []
                   then [\<lparr>ir_user_id = uid, ir_campaign_id = wp_campaign_id params, ir_creative_id = wp_creative_id params,
                          ir_device_type = 0, ir_hour_of_day = current_hour_of_day (re_unix_secs env)\<rparr>]
                   else [])
              | None \<Rightarrow> [])
           else [])
      | _ \<Rightarrow> [])"

definition full :: "impression_recorder \<Rightarrow> bool" where
  "full chan \<longleftrightarrow> \<not> length chan < recorder_capacity"

definition loader_of :: "('b, 'r, 'f, 'd, 'q, 'c) bidder_process \<Rightarrow> ('b, local_pacer) loader_state" where
  "loader_of p =
     \<lparr>ld_catalog = sv_catalog (app_services (pr_app p)), ld_registry = pr_registry p, ld_pacer = sv_pacer (app_services (pr_app p)),
      ld_consecutive_failures = pr_failures p\<rparr>"

definition with_loader :: "('b, local_pacer) loader_state \<Rightarrow> ('b, 'r, 'f, 'd, 'q, 'c) bidder_process \<Rightarrow> ('b, 'r, 'f, 'd, 'q, 'c) bidder_process" where
  "with_loader ld p =
     p\<lparr>pr_app := (pr_app p)\<lparr>app_services := (app_services (pr_app p))\<lparr>sv_catalog := ld_catalog ld, sv_pacer := ld_pacer ld\<rparr>\<rparr>,
       pr_registry := ld_registry ld, pr_failures := ld_consecutive_failures ld\<rparr>"

text \<open>The reads of a round fail, or are those of one snapshot of the tables.\<close>

definition sound_reads :: "'b bitmap_ops \<Rightarrow> (string list \<Rightarrow> string) \<Rightarrow> u64 \<Rightarrow> pg_reads \<Rightarrow> bool" where
  "sound_reads B first_err now reads \<longleftrightarrow>
     (\<exists>e. build B first_err now reads = Inl e) \<or>
     (\<exists>D. reads = reads_of D \<and> db_ok D \<and> (\<forall>(status, c) \<in> set (db_campaign D). in_i64 (crow_daily_budget_cents c)))"

fun window_ttl :: "cap_window \<Rightarrow> nat" where
  "window_ttl Hour = 3600"
| "window_ttl Day = 86400"
| "window_ttl Week = 604800"

definition write_window :: "'c redis_ops \<Rightarrow> impression_record \<Rightarrow> cap_window \<Rightarrow> 'c \<Rightarrow> 'c" where
  "write_window R ev w c = incr_script R (impression_key ev (suffix w)) (window_ttl w) c"

lemma write_windows:
  "write_impression_counters R (True, True) ev c = write_window R ev Day (write_window R ev Hour c)"
  by (simp add: write_impression_counters_def write_window_def)

inductive process_step ::
  "('e, 'b, ('b, 'r, models, 'f, local_pacer) services, 'd, 'q) app_parts \<Rightarrow> latency_budget_config \<Rightarrow> ('b \<Rightarrow> u32 set) \<Rightarrow> 'b bitmap_ops
   \<Rightarrow> (string list \<Rightarrow> string) \<Rightarrow> u32 \<Rightarrow> 'c redis_ops \<Rightarrow> usize
   \<Rightarrow> ('b, 'r, 'f, 'd, 'q, 'c) bidder_process \<Rightarrow> ('b, 'r, 'f, 'd, 'q, 'c) bidder_process \<Rightarrow> bool"
  for A budget bits B first_err max_failures R num_workers where
  request: "env_ok budget bits A env \<Longrightarrow> serve A env call (pr_app p) = (answer, st) \<Longrightarrow>
    process_step A budget bits B first_err max_failures R num_workers p
      (p\<lparr>pr_app := st, pr_offered := pr_offered p @ win_records A env call (pr_app p),
         pr_overflowed := pr_overflowed p @ (if full (recorder_of (pr_app p)) then win_records A env call (pr_app p) else [])\<rparr>)"
| drain: "try_record (recorder_of (pr_app p)) ev = (took, chan) \<Longrightarrow>
    process_step A budget bits B first_err max_failures R num_workers p
      (p\<lparr>pr_app := with_recorder chan (pr_app p), pr_offered := pr_offered p @ [ev],
         pr_overflowed := pr_overflowed p @ (if took then [] else [ev])\<rparr>)"
| refresh_round: "sound_reads B first_err now reads \<Longrightarrow>
    refresh B LocalBudgetPacer first_err max_failures now reads (loader_of p) = (ld, logged) \<Longrightarrow>
    process_step A budget bits B first_err max_failures R num_workers p (with_loader ld p)"
| model_reload: "process_step A budget bits B first_err max_failures R num_workers p
    (p\<lparr>pr_app := (pr_app p)\<lparr>app_services := (app_services (pr_app p))\<lparr>sv_scorer := hot_reload load cfg slot (sv_scorer (app_services (pr_app p)))\<rparr>\<rparr>\<rparr>)"
| receive: "recorder_of (pr_app p) = ev # chan \<Longrightarrow> pr_held p = None \<Longrightarrow>
    process_step A budget bits B first_err max_failures R num_workers p
      (p\<lparr>pr_app := with_recorder chan (pr_app p), pr_held := Some ev\<rparr>)"
| spawn: "pr_held p = Some ev \<Longrightarrow> length (pr_workers p) < max num_workers 1 \<Longrightarrow>
    process_step A budget bits B first_err max_failures R num_workers p
      (p\<lparr>pr_held := None, pr_workers := pr_workers p @ [(ev, [Hour, Day])]\<rparr>)"
| written: "i < length (pr_workers p) \<Longrightarrow> pr_workers p ! i = (ev, w # ws) \<Longrightarrow>
    process_step A budget bits B first_err max_failures R num_workers p
      (p\<lparr>pr_counters := write_window R ev w (pr_counters p), pr_workers := (pr_workers p)[i := (ev, ws)]\<rparr>)"
| refused: "i < length (pr_workers p) \<Longrightarrow> pr_workers p ! i = (ev, w # ws) \<Longrightarrow>
    process_step A budget bits B first_err max_failures R num_workers p
      (p\<lparr>pr_workers := (pr_workers p)[i := (ev, ws)], pr_unwritten := pr_unwritten p @ [(ev, w)]\<rparr>)"
| finish: "pr_workers p = before @ (ev, []) # after \<Longrightarrow>
    process_step A budget bits B first_err max_failures R num_workers p (p\<lparr>pr_workers := before @ after\<rparr>)"

section \<open>Serving goes on\<close>

lemma hm_insert_values: "snd ` set (hm_insert k v m) \<subseteq> insert v (snd ` set m)"
  unfolding hm_insert_def by (induction m) auto

lemma hm_insert_rows_values: "snd ` set (hm_insert_rows k g rows m) \<subseteq> g ` set rows \<union> snd ` set m"
proof (induction rows arbitrary: m)
  case (Cons r rows)
  show ?case using Cons [of "hm_insert (k r) (g r) m"] hm_insert_values [of "k r" "g r" m] by auto
qed simp

context roaring
begin

lemma build_seeds:
  assumes "build B first_err now (reads_of D) = Inr (C, reg)" "\<forall>(status, c) \<in> set (db_campaign D). in_i64 (crow_daily_budget_cents c)"
  shows "\<forall>b \<in> snd ` set (budget_seeds C). in_i64 b"
proof -
  obtain crows cm all where crows: "query_campaigns (Inr D) = Inr crows" and cm: "build_campaigns B crows = (cm, all)"
    and C: "cat_campaigns C = cm"
    using assms(1) by (rule build_record) auto
  have "snd ` set cm \<subseteq> campaign_of_row ` set crows"
    using hm_insert_rows_values [of "as_u32 \<circ> crow_id" campaign_of_row crows "[]"] build_campaigns_simps(2) [of crows] by (simp add: cm)
  moreover have "\<forall>c \<in> set crows. in_i64 (crow_daily_budget_cents c)" using crows assms(2) by (fastforce simp: query_campaigns_def)
  ultimately show ?thesis by (fastforce simp: budget_seeds_def C campaign_of_row_def)
qed

end

lemma refresh_sound:
  assumes "roaring B bits" "sound_reads B first_err now reads" "wf_catalog bits (ld_catalog s)" "balances_ok (ld_pacer s)"
    and "refresh B LocalBudgetPacer first_err max_failures now reads s = (s', logged)"
  shows "wf_catalog bits (ld_catalog s')" and "balances_ok (ld_pacer s')"
proof -
  have "wf_catalog bits (ld_catalog s') \<and> balances_ok (ld_pacer s')"
  proof (cases "build B first_err now reads")
    case (Inl e)
    then show ?thesis using assms(3-5) by (auto simp: refresh_def Let_def)
  next
    case (Inr r)
    obtain C reg where r: "r = (C, reg)" by (cases r)
    obtain D where D: "reads = reads_of D" "db_ok D" "\<forall>(status, c) \<in> set (db_campaign D). in_i64 (crow_daily_budget_cents c)"
      using assms(2) Inr by (auto simp: sound_reads_def)
    have "wf_catalog bits C" using roaring.build_wf [OF assms(1) D(2)] Inr r D(1) by simp
    moreover have "\<forall>b \<in> snd ` set (budget_seeds C). in_i64 b" using roaring.build_seeds [OF assms(1) _ D(3)] Inr r D(1) by simp
    ultimately show ?thesis using assms(4,5) Inr r by (auto simp: refresh_def LocalBudgetPacer_def reload_balances)
  qed
  then show "wf_catalog bits (ld_catalog s')" "balances_ok (ld_pacer s')" by auto
qed

lemma step_app_ok:
  assumes "roaring B bits" "process_step A budget bits B first_err max_failures R num_workers p p'" "app_ok bits (pr_app p)"
  shows "app_ok bits (pr_app p')"
  using assms(2,3)
proof cases
  case (request env call answer st)
  then show ?thesis using serve_served [OF request(2) assms(3), of call] by auto
next
  case (refresh_round now reads ld logged)
  then show ?thesis
    using refresh_sound [OF assms(1) refresh_round(2) _ _ refresh_round(3)] assms(3) by (simp add: app_ok_def loader_of_def with_loader_def)
qed (auto simp: app_ok_def with_recorder_def)

text \<open>
  C8. The bidder keeps serving. Whatever requests, refresh rounds, failed or not, model reloads, drains
  and impression writes have happened in whatever order, the catalog is consistent and the counters of
  the pacer are in range, and any request that comes next is answered with a status of its route.
\<close>

theorem bidder_keeps_serving:
  assumes "roaring B bits" "app_ok bits (pr_app p0)" "(process_step A budget bits B first_err max_failures R num_workers)\<^sup>*\<^sup>* p0 p"
  shows "app_ok bits (pr_app p) \<and>
    (\<forall>env call. env_ok budget bits A env \<longrightarrow> (\<exists>r st. serve A env call (pr_app p) = (Some r, st) \<and> hr_status r \<in> call_statuses call))"
proof -
  have ok: "app_ok bits (pr_app p)"
    using assms(3,2) by (induction rule: rtranclp_induct) (auto intro: step_app_ok [OF assms(1)])
  then show ?thesis using serve_served by blast
qed

section \<open>The account of impressions\<close>

definition held :: "('b, 'r, 'f, 'd, 'q, 'c) bidder_process \<Rightarrow> impression_record list" where
  "held p = (case pr_held p of Some ev \<Rightarrow> [ev] | None \<Rightarrow> [])"

definition hits :: "string \<Rightarrow> u32 \<Rightarrow> impression_record list \<Rightarrow> nat" where
  "hits u i evs = length (filter (\<lambda>ev. ir_user_id ev = u \<and> ir_campaign_id ev = i) evs)"

lemma hits_simps [simp]:
  "hits u i [] = 0"
  "hits u i (ev # evs) = (if ir_user_id ev = u \<and> ir_campaign_id ev = i then 1 else 0) + hits u i evs"
  "hits u i (evs @ evs') = hits u i evs + hits u i evs'"
  by (simp_all add: hits_def)

text \<open>The writes to a window that the workers have still to make, and those that were refused.\<close>

definition writes_left :: "string \<Rightarrow> u32 \<Rightarrow> cap_window \<Rightarrow> (impression_record \<times> cap_window list) list \<Rightarrow> nat" where
  "writes_left u i w workers = (\<Sum>(ev, ws) \<leftarrow> workers. hits u i [ev] * count_list ws w)"

definition refused_writes :: "string \<Rightarrow> u32 \<Rightarrow> cap_window \<Rightarrow> (impression_record \<times> cap_window) list \<Rightarrow> nat" where
  "refused_writes u i w xs = (\<Sum>(ev, w') \<leftarrow> xs. if w' = w then hits u i [ev] else 0)"

lemma writes_left_simps [simp]:
  "writes_left u i w [] = 0"
  "writes_left u i w ((ev, ws) # workers) = hits u i [ev] * count_list ws w + writes_left u i w workers"
  "writes_left u i w (xs @ ys) = writes_left u i w xs + writes_left u i w ys"
  by (simp_all add: writes_left_def)

lemma writes_left_update:
  assumes "k < length workers" "workers ! k = (ev, w' # ws)"
  shows "writes_left u i w workers = writes_left u i w (workers[k := (ev, ws)]) + (if w' = w then hits u i [ev] else 0)"
proof -
  have split: "workers = take k workers @ (ev, w' # ws) # drop (Suc k) workers" using assms by (metis id_take_nth_drop)
  have "writes_left u i w workers = writes_left u i w (take k workers @ (ev, w' # ws) # drop (Suc k) workers)" by (metis split)
  then show ?thesis using assms(1) by (simp add: upd_conv_take_nth_drop distrib_left)
qed

lemma serve_recorder:
  assumes "serve A env call st = (answer, st')"
  shows "recorder_of st' = (if full (recorder_of st) then recorder_of st else recorder_of st @ win_records A env call st)"
  using assms
  by (cases call)
    (auto simp: serve_def bid_route_def win_route_def with_timeout_def timeout_middleware_def recorder_of_def win_records_def full_def
      win_handler_def win_impression_def try_record_def Let_def split: prod.splits option.splits win_notice_gate.splits if_splits)

text \<open>What a counter holds and what is on its way to it, less what was offered: no step changes it.\<close>

definition balance :: "('c \<Rightarrow> string \<Rightarrow> i64 option) \<Rightarrow> ('b, 'r, 'f, 'd, 'q, 'c) bidder_process \<Rightarrow> string \<Rightarrow> u32 \<Rightarrow> cap_window \<Rightarrow> int" where
  "balance val p u i w =
     count0 (val (pr_counters p) (fc_key u ''c'' i w)) + int (hits u i (recorder_of (pr_app p))) + int (hits u i (held p)) +
     int (writes_left u i w (pr_workers p)) + int (refused_writes u i w (pr_unwritten p)) + int (hits u i (pr_overflowed p)) -
     int (hits u i (pr_offered p))"

lemma win_records_one: "length (win_records A env call st) \<le> 1"
  by (auto simp: win_records_def split: server_call.splits option.splits)

lemma refused_writes_simps [simp]:
  "refused_writes u i w [] = 0"
  "refused_writes u i w (xs @ [(ev, w')]) = refused_writes u i w xs + (if w' = w then hits u i [ev] else 0)"
  by (simp_all add: refused_writes_def)

context redis_counters
begin

lemma write_window_count:
  "count0 (val (write_window R ev w c) (fc_key u ''c'' i w')) = count0 (val c (fc_key u ''c'' i w')) + int (if w = w' then hits u i [ev] else 0)"
proof -
  have "impression_key ev (suffix w) = fc_key (ir_user_id ev) ''c'' (ir_campaign_id ev) w" by (simp add: impression_key_def fc_key_def)
  then show ?thesis by (auto simp: write_window_def incr_script_val fc_key_inj)
qed

lemma balance_step:
  assumes "process_step A budget bits B first_err max_failures R num_workers p p'" "w \<noteq> Week"
  shows "balance val p' u i w = balance val p u i w"
  using assms
proof cases
  case (request env call answer st)
  then show ?thesis using serve_recorder [OF request(3)] by (simp add: balance_def held_def)
next
  case (drain ev took chan)
  then show ?thesis by (auto simp: balance_def held_def try_record_def recorder_of_def with_recorder_def split: if_splits)
next
  case (receive ev chan)
  then show ?thesis by (simp add: balance_def held_def recorder_of_def with_recorder_def)
next
  case (spawn ev)
  then show ?thesis using assms(2) by (cases w) (simp_all add: balance_def held_def)
next
  case (written k ev w' ws)
  then show ?thesis using writes_left_update [OF written(2,3), of u i w] by (simp add: balance_def held_def write_window_count)
next
  case (refused k ev w' ws)
  then show ?thesis using writes_left_update [OF refused(2,3), of u i w] by (simp add: balance_def held_def)
qed (simp_all add: balance_def held_def recorder_of_def with_loader_def)

lemma balance_steps:
  "(process_step A budget bits B first_err max_failures R num_workers)\<^sup>*\<^sup>* p p' \<Longrightarrow> w \<noteq> Week \<Longrightarrow> balance val p' u i w = balance val p u i w"
  by (induction rule: rtranclp_induct) (auto simp: balance_step)

end

lemma bounds_step:
  assumes "process_step A budget bits B first_err max_failures R num_workers p p'"
    and "length (pr_workers p) \<le> max num_workers 1" "length (recorder_of (pr_app p)) \<le> recorder_capacity"
  shows "length (pr_workers p') \<le> max num_workers 1 \<and> length (recorder_of (pr_app p')) \<le> recorder_capacity"
  using assms
proof cases
  case (request env call answer st)
  then show ?thesis using assms(2,3) serve_recorder [OF request(3)] win_records_one [of A env call "pr_app p"] by (simp add: full_def)
next
  case (drain ev took chan)
  then show ?thesis using assms(2,3) by (auto simp: try_record_def recorder_of_def with_recorder_def split: if_splits)
qed (simp_all add: recorder_of_def with_recorder_def with_loader_def)

text \<open>
  C10. No impression is lost or counted twice on its way from the win notice to Redis. Start with
  empty queues. Whatever has happened since, in whatever order the workers write, the counter of a user
  and a campaign for the last hour or day has grown by the number of impressions offered for them,
  less those that are still in the channel, with the dispatcher or with a worker, those Redis refused
  for this window, and those dropped because the channel was full. The impressions offered are those
  of the accepted win notices that name a user and those of the drain of the in-process capper. There are never more workers than configured nor more waiting impressions than the channel holds.
\<close>

theorem impressions_accounted:
  assumes "redis_counters R val" "(process_step A budget bits B first_err max_failures R num_workers)\<^sup>*\<^sup>* p0 p" "w \<noteq> Week"
    and "recorder_of (pr_app p0) = recorder_new" "pr_held p0 = None" "pr_workers p0 = []" "pr_offered p0 = []" "pr_overflowed p0 = []"
      "pr_unwritten p0 = []"
  shows "count0 (val (pr_counters p) (fc_key u ''c'' i w)) = count0 (val (pr_counters p0) (fc_key u ''c'' i w)) + int (hits u i (pr_offered p)) -
      int (hits u i (recorder_of (pr_app p)) + hits u i (held p) + writes_left u i w (pr_workers p) + refused_writes u i w (pr_unwritten p) +
           hits u i (pr_overflowed p)) \<and>
    length (pr_workers p) \<le> max num_workers 1 \<and> length (recorder_of (pr_app p)) \<le> recorder_capacity"
proof -
  have "balance val p u i w = balance val p0 u i w" using redis_counters.balance_steps [OF assms(1,2,3)] .
  moreover have "length (pr_workers p) \<le> max num_workers 1 \<and> length (recorder_of (pr_app p)) \<le> recorder_capacity"
    using assms(2) by (induction rule: rtranclp_induct) (auto simp: assms(4,6) recorder_new_def dest: bounds_step)
  ultimately show ?thesis using assms(4-9) by (simp add: balance_def held_def recorder_new_def)
qed

text \<open>A win notice is accepted, a worker takes its impression and has written the hour, but not yet the day.\<close>

definition ex_process where
  "ex_process = \<lparr>pr_app = ex_app_state, pr_registry = [], pr_failures = 0, pr_held = None, pr_workers = [],
     pr_counters = (Map.empty :: string \<rightharpoonup> i64, Map.empty :: string \<rightharpoonup> nat), pr_offered = [], pr_overflowed = [], pr_unwritten = []\<rparr>"

definition ex_win :: server_call where
  "ex_win = WinCall (Some \<lparr>wp_request_id = ''r1'', wp_imp_id = ''i1'', wp_campaign_id = 7, wp_creative_id = 9, wp_clearing_price_micros = 5,
     wp_user_id = Some ''u1'', wp_token = None, wp_exchange_id = None\<rparr>)"

definition ex_seen :: impression_record where
  "ex_seen = \<lparr>ir_user_id = ''u1'', ir_campaign_id = 7, ir_creative_id = 9, ir_device_type = 0, ir_hour_of_day = current_hour_of_day 5\<rparr>"

abbreviation ex_step where
  "ex_step \<equiv> process_step ex_app ex_budget (\<lambda>b. b) set_bitmap hd 3 map_redis 4"

lemma ex_env_ok: "env_ok ex_budget (\<lambda>b. b) ex_app (ex_request_env None)"
  using server_wired [OF ex_wiring_ok] by (auto simp: env_ok_def ex_app_def ex_request_env_def)

lemma ex_win_records: "win_records ex_app (ex_request_env None) ex_win ex_app_state = [ex_seen]"
  by (simp add: win_records_def ex_win_def ex_app_def ex_app_state_def ex_request_env_def notice_call_of_def gate_check_def verify_token_def
      secret_for_def win_gate_new_def ex_win_config_def map_dedup_def dedup_ttl_def i64_wrap_def ex_seen_def)

lemma ex_process_run:
  obtains p where "ex_step\<^sup>*\<^sup>* ex_process p" "pr_offered p = [ex_seen]" "recorder_of (pr_app p) = []" "held p = []"
    "pr_workers p = [(ex_seen, [Day])]" "pr_unwritten p = []" "pr_overflowed p = []"
proof -
  obtain answer st where serve: "serve ex_app (ex_request_env None) ex_win (pr_app ex_process) = (answer, st)" by (rule prod.exhaust)
  have rec: "recorder_of st = [ex_seen]"
    using serve_recorder [OF serve] ex_win_records
    by (simp add: full_def ex_process_def recorder_of_def ex_app_state_def recorder_new_def recorder_capacity_def)
  let ?p1 = "ex_process\<lparr>pr_app := st, pr_offered := [ex_seen], pr_overflowed := []\<rparr>"
  let ?p2 = "?p1\<lparr>pr_app := with_recorder [] st, pr_held := Some ex_seen\<rparr>"
  let ?p3 = "?p2\<lparr>pr_held := None, pr_workers := [(ex_seen, [Hour, Day])]\<rparr>"
  let ?p4 = "?p3\<lparr>pr_counters := write_window map_redis ex_seen Hour (pr_counters ?p3), pr_workers := [(ex_seen, [Day])]\<rparr>"
  have "ex_step ex_process ?p1"
    using process_step.request [OF ex_env_ok serve, of set_bitmap hd 3 map_redis 4] ex_win_records
    by (simp add: ex_process_def full_def recorder_of_def ex_app_state_def recorder_new_def recorder_capacity_def)
  moreover have "ex_step ?p1 ?p2"
    using process_step.receive [of ?p1 ex_seen "[]" ex_app ex_budget "\<lambda>b. b" set_bitmap hd 3 map_redis 4] rec by (simp add: ex_process_def)
  moreover have "ex_step ?p2 ?p3"
    using process_step.spawn [of ?p2 ex_seen 4 ex_app ex_budget "\<lambda>b. b" set_bitmap hd 3 map_redis] by (simp add: ex_process_def)
  moreover have "ex_step ?p3 ?p4"
    using process_step.written [of 0 ?p3 ex_seen Hour "[Day]" ex_app ex_budget "\<lambda>b. b" set_bitmap hd 3 map_redis 4] by simp
  ultimately have "ex_step\<^sup>*\<^sup>* ex_process ?p4" by (meson converse_rtranclp_into_rtranclp rtranclp.rtrancl_refl)
  then show thesis by (rule that) (simp_all add: ex_process_def recorder_of_def with_recorder_def held_def)
qed

theorem impressions_accounted_witness:
  "\<exists>p. ex_step\<^sup>*\<^sup>* ex_process p \<and> count0 (fst (pr_counters p) (fc_key ''u1'' ''c'' 7 Hour)) = 1 \<and>
     count0 (fst (pr_counters p) (fc_key ''u1'' ''c'' 7 Day)) = 0"
proof -
  obtain p where p: "ex_step\<^sup>*\<^sup>* ex_process p" "pr_offered p = [ex_seen]" "recorder_of (pr_app p) = []" "held p = []"
    "pr_workers p = [(ex_seen, [Day])]" "pr_unwritten p = []" "pr_overflowed p = []"
    by (rule ex_process_run)
  have "count0 (fst (pr_counters p) (fc_key ''u1'' ''c'' 7 w)) = int (1 - count_list [Day] w)" if "w \<noteq> Week" for w
    using impressions_accounted [OF map_redis.redis_counters_axioms p(1) that, where u = "''u1''" and i = 7] p(2-)
    by (simp add: ex_process_def recorder_of_def ex_app_state_def ex_seen_def)
  then show ?thesis using p(1) by (intro exI [of _ p]) simp
qed

theorem bidder_keeps_serving_witness:
  "\<exists>p. ex_step\<^sup>*\<^sup>* ex_process p \<and> pr_offered p \<noteq> [] \<and>
     (\<exists>r st. serve ex_app (ex_request_env None) (BidCall [7]) (pr_app p) = (Some r, st) \<and> hr_status r \<in> {200, 204, 400, 500, 503})"
proof -
  obtain p where p: "ex_step\<^sup>*\<^sup>* ex_process p" "pr_offered p = [ex_seen]" by (rule ex_process_run)
  have ok: "app_ok (\<lambda>b. b) (pr_app ex_process)" using ex_world_ok by (simp add: app_ok_def ex_process_def ex_app_state_def)
  have "\<exists>r st. serve ex_app (ex_request_env None) (BidCall [7]) (pr_app p) = (Some r, st) \<and> hr_status r \<in> call_statuses (BidCall [7])"
    using bidder_keeps_serving [OF set_bm.roaring_axioms ok p(1)] ex_env_ok by blast
  then show ?thesis using p by auto
qed

end
