(* ===== verification/Model_Watch.thy ===== *)
theory Model_Watch
  imports Ml_Scoring
begin

text \<open>
  The file watcher of the ONNX scorer (\<open>start_watcher\<close> in \<open>scoring/ml.rs\<close>). A poller of the \<open>notify\<close> crate
  looks at the modification time of the model file every few seconds and sends events to a channel; a
  task waits for one that concerns the model file, lets things settle, throws away what has queued up
  meanwhile and loads the pool of sessions one after the other. The file may change at any moment,
  also between two sessions of a pool. What the poller reports is a parameter with the laws of the
  locale \<open>poll_watcher\<close>. As it does not compare contents, a change that leaves the modification
  time as it was is not seen; the result on the watcher is for files whose versions differ in it.
\<close>

section \<open>Events\<close>

datatype event_kind = Modify | Create | Remove | Access | OtherKind





section \<open>The poller\<close>




section \<open>The task\<close>








section \<open>No change is missed\<close>

























end
