(* ===== verification/Seed_Redis.thy ===== *)
theory Seed_Redis
  imports Segment_Repository Exchange_Adapters
begin

text \<open>
  The script \<open>docker/seed-redis.py\<close>, which writes the segments of test users to Redis in the form the
  bidder reads. Power and sum of floats are arguments; the generator of random numbers is a parameter
  with the laws of the locale \<open>python_rng\<close>, and Redis is one with those of \<open>resp_server\<close>, which is
  interpreted by a reader of the protocol. The loop that draws segments ends only if every segment
  keeps coming up, so it is a \<open>partial_function\<close>; under that condition the script is proved to end.
\<close>

section \<open>Sampling\<close>

definition build_zipf_cdf :: "(nat \<Rightarrow> flt \<Rightarrow> flt) \<Rightarrow> (flt list \<Rightarrow> flt) \<Rightarrow> nat \<Rightarrow> flt \<Rightarrow> flt list" where
  "build_zipf_cdf pow fsum n alpha =
     (let weights = map (\<lambda>k. flt_div binary64 (flt_lit binary64 1 1) (pow k alpha)) [1..<n + 1];
          total = fsum weights
      in tl (rev (foldl (\<lambda>accs w. flt_add binary64 (hd accs) (flt_div binary64 w total) # accs) [flt_lit binary64 0 1] weights)))"

text \<open>\<open>bisect.bisect_left\<close>.\<close>

function bisect_from :: "flt list \<Rightarrow> flt \<Rightarrow> nat \<Rightarrow> nat \<Rightarrow> nat" where
  "bisect_from a x lo hi =
     (if lo < hi
      then (let mid = (lo + hi) div 2 in if flt_lt (a ! mid) x then bisect_from a x (mid + 1) hi else bisect_from a x lo mid)
      else lo)"
  by pat_completeness auto
termination by (relation "measure (\<lambda>(a, x, lo, hi). hi - lo)") auto

declare bisect_from.simps [simp del]

definition bisect_left :: "flt list \<Rightarrow> flt \<Rightarrow> nat" where
  "bisect_left a x = bisect_from a x 0 (length a)"

record 'g rng_ops =
  rg_random :: "'g \<Rightarrow> flt \<times> 'g"
  rg_randint :: "nat \<Rightarrow> nat \<Rightarrow> 'g \<Rightarrow> nat \<times> 'g"
  rg_shuffle :: "nat list \<Rightarrow> 'g \<Rightarrow> nat list \<times> 'g"

locale python_rng =
  fixes G :: "'g rng_ops"
  assumes randint_range: "lo \<le> hi \<Longrightarrow> rg_randint G lo hi g = (n, g') \<Longrightarrow> lo \<le> n \<and> n \<le> hi"
    and shuffle_mset: "rg_shuffle G xs g = (ys, g') \<Longrightarrow> mset ys = mset xs"

definition sample_zipf :: "'g rng_ops \<Rightarrow> flt list \<Rightarrow> 'g \<Rightarrow> nat \<times> 'g" where
  "sample_zipf G cdf g =
     (let (r, g1) = rg_random G g; rank = bisect_left cdf r + 1 in (min rank (length cdf), g1))"

section \<open>The protocol\<close>

definition crlf :: "u8 list" where
  "crlf = [13, 10]"

definition resp_bulk :: "u8 list \<Rightarrow> u8 list" where
  "resp_bulk b = as_bytes ''$'' @ as_bytes (nat_str (length b)) @ crlf @ b @ crlf"

definition resp_command :: "u8 list list \<Rightarrow> u8 list" where
  "resp_command args = as_bytes ''*'' @ as_bytes (nat_str (length args)) @ crlf @ concat (map resp_bulk args)"

section \<open>The script\<close>

definition SEGS_PER_USER_MIN :: nat where "SEGS_PER_USER_MIN = 50"

definition SEGS_PER_USER_MAX :: nat where "SEGS_PER_USER_MAX = 200"

definition ZIPF_ALPHA :: flt where "ZIPF_ALPHA = flt_lit binary64 11 10"

definition TTL_SECONDS :: nat where "TTL_SECONDS = 14 * 24 * 3600"

definition FLUSH_EVERY :: nat where "FLUSH_EVERY = 50000"

text \<open>\<open>struct.pack\<close> with one little-endian 32-bit number per id.\<close>

definition struct_pack :: "nat list \<Rightarrow> u8 list anyhow" where
  "struct_pack ids =
     (if \<forall>i \<in> set ids. i < 2 ^ 32 then Inr (concat (map (\<lambda>i. to_le_bytes (word_of_nat i)) ids)) else Inl ''struct.error'')"

definition emit_user :: "nat \<Rightarrow> nat list \<Rightarrow> nat \<Rightarrow> bool \<Rightarrow> u8 list anyhow" where
  "emit_user uid segment_ids ttl plain =
     (let key = as_bytes (''v1:seg:{u:'' @ nat_str uid @ ''}'') in
      try_bind (struct_pack segment_ids) (\<lambda>payload.
        Inr (if plain
             then as_bytes (''SET v1:seg:{u:'' @ nat_str uid @ ''} \"'') @
                  as_bytes (concat (map (\<lambda>b. byte_hex_lower (unat b)) payload)) @ as_bytes ''\"'' @ [10] @
                  as_bytes (''EXPIRE v1:seg:{u:'' @ nat_str uid @ ''} '' @ nat_str ttl) @ [10]
             else resp_command [as_bytes ''SET'', key, payload] @ resp_command [as_bytes ''EXPIRE'', key, as_bytes (nat_str ttl)])))"

text \<open>
  The set of a user's segments is the list of its elements as they were added; the order in which
  Python lists a set is left to the shuffle that follows.
\<close>

partial_function (option) draw_segments ::
  "'g rng_ops \<Rightarrow> flt list \<Rightarrow> nat \<Rightarrow> nat \<Rightarrow> nat list \<Rightarrow> 'g \<Rightarrow> (nat list \<times> 'g) option" where
  "draw_segments G cdf segments n seg_set g =
     (if length seg_set < n
      then
        (case sample_zipf G cdf g of
           (s, g1) \<Rightarrow>
             (let seg_set1 = (if s \<in> set seg_set then seg_set else seg_set @ [s]) in
              if segments \<le> length seg_set1 then Some (seg_set1, g1) else draw_segments G cdf segments n seg_set1 g1))
      else Some (seg_set, g))"

record seed_args =
  sa_users :: nat
  sa_segments :: nat
  sa_ttl :: nat
  sa_plain :: bool

text \<open>The users from \<open>uid\<close> on; \<open>None\<close> if the script never ends.\<close>

fun seed_users ::
  "'g rng_ops \<Rightarrow> flt list \<Rightarrow> seed_args \<Rightarrow> nat list \<Rightarrow> u8 list \<times> u8 list list \<times> 'g \<Rightarrow> (u8 list \<times> u8 list list) anyhow option" where
  "seed_users G cdf a [] (buf, out, g) = Some (Inr (buf, out))"
| "seed_users G cdf a (uid # rest) (buf, out, g) =
     (case rg_randint G SEGS_PER_USER_MIN SEGS_PER_USER_MAX g of (n, g1) \<Rightarrow>
      case draw_segments G cdf (sa_segments a) n [] g1 of
        None \<Rightarrow> None
      | Some (seg_set, g2) \<Rightarrow>
          (case rg_shuffle G seg_set g2 of (ids, g3) \<Rightarrow>
           case emit_user uid ids (sa_ttl a) (sa_plain a) of
             Inl e \<Rightarrow> Some (Inl e)
           | Inr bytes \<Rightarrow>
               (if uid mod FLUSH_EVERY = 0
                then seed_users G cdf a rest ([], out @ [buf @ bytes], g3)
                else seed_users G cdf a rest (buf @ bytes, out, g3))))"

text \<open>The exit code and what was written to standard output.\<close>

definition seed_redis_main ::
  "'g rng_ops \<Rightarrow> (nat \<Rightarrow> flt \<Rightarrow> flt) \<Rightarrow> (flt list \<Rightarrow> flt) \<Rightarrow> seed_args \<Rightarrow> 'g \<Rightarrow> (nat \<times> u8 list list) anyhow option" where
  "seed_redis_main G pow fsum a g =
     (if sa_users a < 1 \<or> sa_segments a < 1 then Some (Inr (2, []))
      else
        (case seed_users G (build_zipf_cdf pow fsum (sa_segments a) ZIPF_ALPHA) a [1..<sa_users a + 1] ([], [], g) of
           None \<Rightarrow> None
         | Some (Inl e) \<Rightarrow> Some (Inl e)
         | Some (Inr (buf, out)) \<Rightarrow> Some (Inr (0, if buf = [] then out else out @ [buf]))))"

section \<open>Redis\<close>

text \<open>
  The commands of a stream, one after the other: a \<open>SET\<close> stores its value, an \<open>EXPIRE\<close> leaves the
  values alone.
\<close>

locale resp_server =
  fixes run :: "u8 list \<Rightarrow> 's \<Rightarrow> 's" and stored :: "'s \<Rightarrow> u8 list \<rightharpoonup> u8 list"
  assumes run_end: "run [] s = s"
    and run_set: "\<exists>s'. run (resp_command [as_bytes ''SET'', k, v] @ rest) s = run rest s' \<and> stored s' = (stored s)(k \<mapsto> v)"
    and run_expire: "\<exists>s'. run (resp_command [as_bytes ''EXPIRE'', k, as_bytes (nat_str ttl)] @ rest) s = run rest s' \<and> stored s' = stored s"

text \<open>A reader of the protocol.\<close>

fun read_line :: "u8 list \<Rightarrow> (u8 list \<times> u8 list) option" where
  "read_line (x # y # rest) = (if x = 13 \<and> y = 10 then Some ([], rest) else map_option (\<lambda>(l, r). (x # l, r)) (read_line (y # rest)))"
| "read_line bs = None"

definition read_number :: "u8 \<Rightarrow> u8 list \<Rightarrow> (nat \<times> u8 list) option" where
  "read_number mark bs =
     (case bs of
        [] \<Rightarrow> None
      | b # rest \<Rightarrow> if b = mark then map_option (\<lambda>(l, r). (str_nat (string_of_bytes l) 0, r)) (read_line rest) else None)"

definition read_bulk :: "u8 list \<Rightarrow> (u8 list \<times> u8 list) option" where
  "read_bulk bs =
     (case read_number 36 bs of
        None \<Rightarrow> None
      | Some (n, rest) \<Rightarrow> if take 2 (drop n rest) = crlf then Some (take n rest, drop (n + 2) rest) else None)"

fun read_bulks :: "nat \<Rightarrow> u8 list \<Rightarrow> (u8 list list \<times> u8 list) option" where
  "read_bulks 0 bs = Some ([], bs)"
| "read_bulks (Suc n) bs =
     (case read_bulk bs of
        None \<Rightarrow> None
      | Some (arg, rest) \<Rightarrow> map_option (\<lambda>(args, r). (arg # args, r)) (read_bulks n rest))"

definition exec_command :: "u8 list list \<Rightarrow> (u8 list \<rightharpoonup> u8 list) \<Rightarrow> (u8 list \<rightharpoonup> u8 list)" where
  "exec_command args s = (case args of [c, k, v] \<Rightarrow> if c = as_bytes ''SET'' then s(k \<mapsto> v) else s | _ \<Rightarrow> s)"

fun resp_reader :: "nat \<Rightarrow> u8 list \<Rightarrow> (u8 list \<rightharpoonup> u8 list) \<Rightarrow> (u8 list \<rightharpoonup> u8 list)" where
  "resp_reader 0 bs s = s"
| "resp_reader (Suc fuel) bs s =
     (case read_number 42 bs of
        None \<Rightarrow> s
      | Some (n, rest) \<Rightarrow>
          (case read_bulks n rest of
             None \<Rightarrow> s
           | Some (args, later) \<Rightarrow> resp_reader fuel later (exec_command args s)))"

text \<open>Every command takes at least one byte, so the length of the stream is fuel enough.\<close>

definition resp_run :: "u8 list \<Rightarrow> (u8 list \<rightharpoonup> u8 list) \<Rightarrow> (u8 list \<rightharpoonup> u8 list)" where
  "resp_run bs s = resp_reader (length bs) bs s"

lemma read_line_crlf: "(13 :: u8) \<notin> set l \<Longrightarrow> read_line (l @ crlf @ rest) = Some (l, rest)"
proof (induction l)
  case (Cons x l)
  then show ?case by (cases l) (auto simp: crlf_def)
qed (simp add: crlf_def)

lemma read_line_shorter: "read_line bs = Some (l, r) \<Longrightarrow> length r < length bs"
  by (induction bs arbitrary: l rule: read_line.induct) (auto split: if_splits)

lemma read_number_shorter: "read_number mark bs = Some (n, r) \<Longrightarrow> length r < length bs"
  by (auto simp: read_number_def split: list.splits if_splits dest: read_line_shorter)

lemma read_bulks_shorter: "read_bulks n bs = Some (args, r) \<Longrightarrow> length r \<le> length bs"
proof (induction n arbitrary: bs args)
  case (Suc n)
  then obtain arg rest args' where "read_bulk bs = Some (arg, rest)" "read_bulks n rest = Some (args', r)" by (auto split: option.splits)
  moreover have "length rest \<le> length bs"
    using calculation(1) by (force simp: read_bulk_def split: option.splits if_splits dest: read_number_shorter)
  ultimately show ?case using Suc.IH by fastforce
qed simp

lemma resp_reader_fuel: "length bs \<le> fuel \<Longrightarrow> resp_reader fuel bs s = resp_reader (length bs) bs s"
proof (induction "length bs" arbitrary: bs fuel s rule: less_induct)
  case less
  show ?case
  proof (cases bs)
    case Nil
    then show ?thesis by (cases fuel) (simp_all add: read_number_def)
  next
    case (Cons b bs')
    obtain f where f: "fuel = Suc f" "length bs' \<le> f" using less.prems Cons by (cases fuel) auto
    have "resp_reader f later s' = resp_reader (length bs') later s'" if "read_number 42 bs = Some (n, rest)" "read_bulks n rest = Some (args, later)" for n rest args later s'
    proof -
      have "length later \<le> length bs'" using read_number_shorter [OF that(1)] read_bulks_shorter [OF that(2)] Cons by simp
      then show ?thesis using less.hyps [of later f s'] less.hyps [of later "length bs'" s'] f(2) Cons by simp
    qed
    then show ?thesis using f(1) Cons by (auto split: option.splits)
  qed
qed

lemma of_char_bytes: "string_of_bytes (as_bytes s) = s"
proof -
  have "char_of (unat (of_char c :: u8)) = c" for c
  proof -
    have "unat (of_char c :: u8) = unat (of_nat (of_char c) :: u8)" by (simp only: of_nat_of_char)
    also have "\<dots> = of_char c" by (simp add: unat_of_nat)
    finally show ?thesis by simp
  qed
  then show ?thesis by (simp add: as_bytes_def string_of_bytes_def comp_def)
qed

lemma number_no_cr: "(13 :: u8) \<notin> set (as_bytes (nat_str n))"
proof
  assume "13 \<in> set (as_bytes (nat_str n))"
  then obtain c where "c \<in> set (nat_str n)" and 13: "(of_char c :: u8) = 13" by (auto simp: as_bytes_def)
  then have digit: "is_digit c" by (intro nat_str_digits)
  have "c = char_of (unat (of_char c :: u8))" using of_char_bytes [of "[c]"] by (simp add: as_bytes_def string_of_bytes_def)
  then have "c = CHR 0x0D" using 13 by (simp add: char_of_def bit_Suc_0_iff)
  then show False using digit by (simp add: is_digit_def)
qed

lemma read_number_of: "read_number (of_char m) (as_bytes [m] @ as_bytes (nat_str n) @ crlf @ rest) = Some (n, rest)"
  using read_line_crlf [OF number_no_cr, of n rest] by (simp add: read_number_def as_bytes_def [of "[m]"] of_char_bytes str_nat_nat_str)

lemma read_bulk_of: "read_bulk (resp_bulk b @ rest) = Some (b, rest)"
  using read_number_of [of "CHR ''$''" "length b" "b @ crlf @ rest"] by (simp add: read_bulk_def resp_bulk_def crlf_def)

lemma read_bulks_of: "read_bulks (length args) (concat (map resp_bulk args) @ rest) = Some (args, rest)"
  by (induction args) (simp_all add: read_bulk_of)

lemma resp_run_command: "resp_run (resp_command args @ rest) s = resp_run rest (exec_command args s)"
proof -
  let ?bs = "resp_command args @ rest"
  obtain f where f: "length ?bs = Suc f" "length rest \<le> f" by (simp add: resp_command_def as_bytes_def)
  have "read_number 42 ?bs = Some (length args, concat (map resp_bulk args) @ rest)"
    using read_number_of [of "CHR ''*''" "length args" "concat (map resp_bulk args) @ rest"] by (simp add: resp_command_def)
  then have "resp_run ?bs s = resp_reader f rest (exec_command args s)" unfolding resp_run_def f(1) by (simp add: read_bulks_of)
  then show ?thesis using resp_reader_fuel [OF f(2)] by (simp add: resp_run_def)
qed

interpretation resp: resp_server resp_run "\<lambda>s. s"
proof
  have "as_bytes ''EXPIRE'' \<noteq> as_bytes ''SET''" by (simp add: as_bytes_def)
  then show "\<exists>s'. resp_run (resp_command [as_bytes ''EXPIRE'', k, as_bytes (nat_str ttl)] @ rest) s = resp_run rest s' \<and> s' = s" for k ttl rest s
    by (simp add: resp_run_command exec_command_def)
  show "\<exists>s'. resp_run (resp_command [as_bytes ''SET'', k, v] @ rest) s = resp_run rest s' \<and> s' = s(k \<mapsto> v)" for k v rest s
    by (simp add: resp_run_command exec_command_def)
qed (simp add: resp_run_def)

section \<open>Drawing segments\<close>

lemma length_foldl_Cons: "length (foldl (\<lambda>accs w. h accs w # accs) accs ws) = length accs + length ws"
  by (induction ws arbitrary: accs) simp_all

lemma length_cdf: "length (build_zipf_cdf pow fsum n alpha) = n"
  by (simp add: build_zipf_cdf_def Let_def length_foldl_Cons del: upt_Suc)

lemma sample_zipf_range: "sample_zipf G cdf g = (s, g') \<Longrightarrow> cdf \<noteq> [] \<Longrightarrow> s \<in> {1..length cdf}"
  by (auto simp: sample_zipf_def Let_def min_def Suc_le_eq split: prod.splits if_splits)

text \<open>Every segment comes up again, whatever has been drawn.\<close>

definition fair :: "'g rng_ops \<Rightarrow> flt list \<Rightarrow> bool" where
  "fair G cdf \<longleftrightarrow> (\<forall>g. \<forall>s \<in> {1..length cdf}. \<exists>k. fst (sample_zipf G cdf (((snd \<circ> sample_zipf G cdf) ^^ k) g)) = s)"

definition drawn :: "nat \<Rightarrow> nat \<Rightarrow> nat list \<Rightarrow> bool" where
  "drawn segments n ids \<longleftrightarrow> distinct ids \<and> set ids \<subseteq> {1..segments} \<and> length ids = min n segments"

lemma draw_returns:
  assumes "fair G cdf" "cdf \<noteq> []" "distinct seg_set" "set seg_set \<subseteq> {1..length cdf}" "length seg_set < length cdf" "length seg_set \<le> n"
  shows "\<exists>ids g'. draw_segments G cdf (length cdf) n seg_set g = Some (ids, g') \<and> drawn (length cdf) n ids"
  using assms(3-6)
proof (induction "length cdf - length seg_set" arbitrary: seg_set g rule: less_induct)
  case less
  let ?N = "length cdf"
  show ?case
  proof (cases "length seg_set < n")
    case False
    then have "drawn ?N n seg_set" using less.prems by (simp add: drawn_def)
    then show ?thesis using False by (simp add: draw_segments.simps)
  next
    case True
    have "card (set seg_set) < card {1..?N}" using less.prems by (simp add: distinct_card)
    then obtain s where s: "s \<in> {1..?N}" "s \<notin> set seg_set" using less.prems(2) by (metis less_irrefl psubsetE psubset_imp_ex_mem subset_antisym subsetI)
    have add: "\<exists>ids g'. draw_segments G cdf ?N n seg_set g = Some (ids, g') \<and> drawn ?N n ids"
      if new: "sample_zipf G cdf g = (s1, g1)" "s1 \<notin> set seg_set" for g s1 g1
    proof -
      let ?set = "seg_set @ [s1]"
      have ok: "distinct ?set" "set ?set \<subseteq> {1..?N}" "length ?set \<le> n"
        using less.prems True new(2) sample_zipf_range [OF new(1) assms(2)] by auto
      have step: "draw_segments G cdf ?N n seg_set g = (if ?N \<le> length ?set then Some (?set, g1) else draw_segments G cdf ?N n ?set g1)"
        using True new by (subst draw_segments.simps) (simp add: Let_def)
      show ?thesis
      proof (cases "?N \<le> length ?set")
        case True
        then show ?thesis using step ok less.prems(3) by (simp add: drawn_def)
      next
        case False
        then show ?thesis using step less.hyps [of ?set g1] ok by simp
      qed
    qed
    have "\<exists>ids g'. draw_segments G cdf ?N n seg_set g = Some (ids, g') \<and> drawn ?N n ids"
      if "fst (sample_zipf G cdf (((snd \<circ> sample_zipf G cdf) ^^ k) g)) = s" for k g
      using that
    proof (induction k arbitrary: g)
      case 0
      then show ?case using add [of g s "snd (sample_zipf G cdf g)"] s(2) by (metis funpow_0 prod.collapse)
    next
      case (Suc k)
      obtain s1 g1 where s1: "sample_zipf G cdf g = (s1, g1)" by (rule prod.exhaust)
      have "fst (sample_zipf G cdf (((snd \<circ> sample_zipf G cdf) ^^ k) g1)) = s" using Suc.prems by (simp add: funpow_Suc_right s1 comp_def del: funpow.simps)
      from Suc.IH [OF this] show ?case
        using add [OF s1] True less.prems(3) by (cases "s1 \<in> set seg_set") (subst draw_segments.simps, auto simp: s1)
    qed
    moreover obtain k where "fst (sample_zipf G cdf (((snd \<circ> sample_zipf G cdf) ^^ k) g)) = s"
      using assms(1) s(1) unfolding fair_def by blast
    ultimately show ?thesis by blast
  qed
qed

section \<open>The seeded store\<close>

definition user_key :: "nat \<Rightarrow> u8 list" where
  "user_key u = as_bytes (segment_key (nat_str u))"

definition user_commands :: "nat \<Rightarrow> nat \<times> nat list \<Rightarrow> u8 list" where
  "user_commands ttl r = (case r of (u, ids) \<Rightarrow>
     resp_command [as_bytes ''SET'', user_key u, encode_segments (map word_of_nat ids)] @
     resp_command [as_bytes ''EXPIRE'', user_key u, as_bytes (nat_str ttl)])"

lemma emit_user_commands:
  assumes "set ids \<subseteq> {1..segments}" "segments < 2 ^ 32"
  shows "emit_user u ids ttl False = Inr (user_commands ttl (u, ids))"
proof -
  have "\<forall>i \<in> set ids. i < 2 ^ 32" using assms by fastforce
  then show ?thesis by (simp add: emit_user_def struct_pack_def user_commands_def user_key_def segment_key_def encode_segments_def comp_def Let_def)
qed

definition user_ok :: "nat \<Rightarrow> nat list \<Rightarrow> bool" where
  "user_ok segments ids \<longleftrightarrow> distinct ids \<and> set ids \<subseteq> {1..segments} \<and> min SEGS_PER_USER_MIN segments \<le> length ids \<and> length ids \<le> SEGS_PER_USER_MAX"

lemma seed_users_stream:
  assumes "python_rng G" "fair G cdf" "length cdf = sa_segments a" "1 \<le> sa_segments a" "sa_segments a < 2 ^ 32" "\<not> sa_plain a"
  shows "\<exists>buf' out' idss. seed_users G cdf a us (buf, out, g) = Some (Inr (buf', out')) \<and> length idss = length us \<and>
    (\<forall>ids \<in> set idss. user_ok (sa_segments a) ids) \<and>
    concat out' @ buf' = concat out @ buf @ concat (map (user_commands (sa_ttl a)) (zip us idss))"
proof (induction us arbitrary: buf out g)
  case (Cons u us)
  obtain n g1 where n: "rg_randint G SEGS_PER_USER_MIN SEGS_PER_USER_MAX g = (n, g1)" by (rule prod.exhaust)
  have range: "SEGS_PER_USER_MIN \<le> n" "n \<le> SEGS_PER_USER_MAX"
    using python_rng.randint_range [OF assms(1) _ n] by (simp_all add: SEGS_PER_USER_MIN_def SEGS_PER_USER_MAX_def)
  have "cdf \<noteq> []" using assms(3,4) by auto
  then obtain seg_set g2 where draw: "draw_segments G cdf (sa_segments a) n [] g1 = Some (seg_set, g2)" "drawn (sa_segments a) n seg_set"
    using draw_returns [OF assms(2), of "[]" n g1] assms(3,4) by auto
  obtain ids g3 where ids: "rg_shuffle G seg_set g2 = (ids, g3)" by (rule prod.exhaust)
  have "mset ids = mset seg_set" using python_rng.shuffle_mset [OF assms(1) ids] .
  then have ok: "user_ok (sa_segments a) ids"
    using draw(2) range by (auto simp: drawn_def user_ok_def dest: mset_eq_setD mset_eq_length mset_eq_imp_distinct_iff)
  then have emit: "emit_user u ids (sa_ttl a) (sa_plain a) = Inr (user_commands (sa_ttl a) (u, ids))"
    using emit_user_commands [OF _ assms(5)] assms(6) by (simp add: user_ok_def)
  obtain buf1 out1 where next1: "seed_users G cdf a (u # us) (buf, out, g) = seed_users G cdf a us (buf1, out1, g3)"
      "concat out1 @ buf1 = concat out @ buf @ user_commands (sa_ttl a) (u, ids)"
    by (cases "u mod FLUSH_EVERY = 0") (auto simp: n draw(1) ids emit)
  obtain buf' out' idss where rest: "seed_users G cdf a us (buf1, out1, g3) = Some (Inr (buf', out'))" "length idss = length us"
      "\<forall>ids \<in> set idss. user_ok (sa_segments a) ids"
      "concat out' @ buf' = concat out1 @ buf1 @ concat (map (user_commands (sa_ttl a)) (zip us idss))"
    using Cons.IH by blast
  show ?case
    using rest ok next1 by (intro exI [of _ buf'] exI [of _ out'] exI [of _ "ids # idss"]) (simp flip: append_assoc)
qed simp

lemma user_key_inj: "user_key u = user_key v \<longleftrightarrow> u = v"
proof
  assume "user_key u = user_key v"
  then have "string_of_bytes (user_key u) = string_of_bytes (user_key v)" by simp
  then show "u = v" by (simp add: user_key_def of_char_bytes segment_key_def nat_str_inj)
qed simp

context resp_server
begin

lemma run_user:
  "\<exists>s'. run (user_commands ttl (u, ids) @ rest) s = run rest s' \<and> stored s' = (stored s)(user_key u \<mapsto> encode_segments (map word_of_nat ids))"
proof -
  obtain s1 where "run (user_commands ttl (u, ids) @ rest) s
      = run (resp_command [as_bytes ''EXPIRE'', user_key u, as_bytes (nat_str ttl)] @ rest) s1"
      "stored s1 = (stored s)(user_key u \<mapsto> encode_segments (map word_of_nat ids))"
    using run_set [of "user_key u" "encode_segments (map word_of_nat ids)"] by (auto simp: user_commands_def)
  then show ?thesis using run_expire [of "user_key u" ttl rest s1] by auto
qed

lemma run_users:
  assumes "length idss = length us" "distinct us"
  shows "stored (run (concat (map (user_commands ttl) (zip us idss))) s)
    = stored s ++ map_of (zip (map user_key us) (map (\<lambda>ids. encode_segments (map word_of_nat ids)) idss))"
  using assms
proof (induction us arbitrary: idss s)
  case (Cons u us)
  obtain ids idss' where idss: "idss = ids # idss'" using Cons.prems(1) by (cases idss) auto
  let ?k = "user_key u" and ?v = "encode_segments (map word_of_nat ids)"
  let ?m = "map_of (zip (map user_key us) (map (\<lambda>ids. encode_segments (map word_of_nat ids)) idss'))"
  obtain s' where s': "run (concat (map (user_commands ttl) (zip (u # us) idss))) s = run (concat (map (user_commands ttl) (zip us idss'))) s'"
      "stored s' = (stored s)(?k \<mapsto> ?v)"
    using run_user [of ttl u ids "concat (map (user_commands ttl) (zip us idss'))" s] by (auto simp: idss)
  have "?m ?k = None" using Cons.prems by (auto simp: map_of_eq_None_iff idss user_key_inj dest!: set_zip_leftD)
  then have "(stored s)(?k \<mapsto> ?v) ++ ?m = stored s ++ ?m(?k \<mapsto> ?v)" by (auto simp: fun_eq_iff map_add_def split: option.splits)
  moreover have "stored (run (concat (map (user_commands ttl) (zip us idss'))) s') = stored s' ++ ?m"
    using Cons.IH [of idss' s'] Cons.prems by (simp add: idss)
  ultimately have "stored (run (concat (map (user_commands ttl) (zip (u # us) idss))) s) = stored s ++ ?m(?k \<mapsto> ?v)"
    by (simp only: s')
  then show ?case by (simp only: idss zip_Cons_Cons list.map map_of.simps fst_conv snd_conv)
qed (simp add: run_end)

end

text \<open>
  C27. What the seed script writes is what the bidder reads. If every segment keeps being drawn,
  which nothing in the script sees to, the
  script ends with exit code 0: it draws for each user until the number of different segments it has
  chosen is reached, or all segments are in. After Redis has run its output, the value under the key of every
  user from 1 to the number of users decodes, in the bidder's decoder, to different segments from 1 to
  the number of segments, at least 50 of them (all, if there are fewer) and at most 200. No other key
  changes.
\<close>

theorem seeded_users_read_back:
  assumes "python_rng G" "resp_server run stored" "fair G (build_zipf_cdf pow fsum (sa_segments a) ZIPF_ALPHA)"
    and "1 \<le> sa_users a" "1 \<le> sa_segments a" "sa_segments a < 2 ^ 32" "\<not> sa_plain a"
  shows "\<exists>out. seed_redis_main G pow fsum a g = Some (Inr (0, out)) \<and>
    (\<forall>u \<in> {1..sa_users a}. \<exists>ids. decode_segments (segment_key (nat_str u)) (stored (run (concat out) s) (user_key u)) = Inr (map word_of_nat ids) \<and>
       user_ok (sa_segments a) ids) \<and>
    (\<forall>k. k \<notin> user_key ` {1..sa_users a} \<longrightarrow> stored (run (concat out) s) k = stored s k)"
proof -
  let ?us = "[1..<sa_users a + 1]"
  obtain buf out idss where main: "seed_users G (build_zipf_cdf pow fsum (sa_segments a) ZIPF_ALPHA) a ?us ([], [], g) = Some (Inr (buf, out))"
      and idss: "length idss = length ?us" "\<forall>ids \<in> set idss. user_ok (sa_segments a) ids"
      and stream: "concat out @ buf = concat (map (user_commands (sa_ttl a)) (zip ?us idss))"
    using seed_users_stream [OF assms(1,3) length_cdf assms(5-7), of ?us "[]" "[]" g] by auto
  let ?out = "if buf = [] then out else out @ [buf]"
  let ?m = "map_of (zip (map user_key ?us) (map (\<lambda>ids. encode_segments (map word_of_nat ids)) idss))"
  have exit: "seed_redis_main G pow fsum a g = Some (Inr (0, ?out))" using main assms(4,5) by (simp add: seed_redis_main_def del: upt_Suc)
  have "concat ?out = concat (map (user_commands (sa_ttl a)) (zip ?us idss))" using stream by auto
  then have store: "stored (run (concat ?out) s) = stored s ++ ?m" using resp_server.run_users [OF assms(2) idss(1)] by simp
  have "\<exists>ids. decode_segments (segment_key (nat_str u)) ((stored s ++ ?m) (user_key u)) = Inr (map word_of_nat ids) \<and> user_ok (sa_segments a) ids"
    if u: "u \<in> {1..sa_users a}" for u
  proof -
    have i: "u - 1 < length idss" "?us ! (u - 1) = u" using u idss(1) by (auto simp del: upt_Suc)
    have "inj_on user_key (set ?us)" by (simp add: inj_on_def user_key_inj)
    then have "?m (user_key u) = Some (encode_segments (map word_of_nat (idss ! (u - 1))))"
      using i idss(1) by (intro map_of_is_SomeI) (auto simp: in_set_zip distinct_map simp del: upt_Suc intro!: exI [of _ "u - 1"])
    then show ?thesis using segment_value_roundtrip idss(2) i(1) by (intro exI [of _ "idss ! (u - 1)"]) simp
  qed
  moreover have "(stored s ++ ?m) k = stored s k" if "k \<notin> user_key ` {1..sa_users a}" for k
  proof -
    have "k \<notin> set (map user_key ?us)" using that by (auto simp: atLeastLessThanSuc_atLeastAtMost simp del: upt_Suc)
    then have "?m k = None" by (auto simp: map_of_eq_None_iff dest: set_zip_leftD simp del: upt_Suc)
    then show ?thesis by (simp add: map_add_def)
  qed
  ultimately show ?thesis using exit store by (intro exI [of _ ?out]) simp
qed

text \<open>Three users, two segments, and a generator that draws them in turn.\<close>

definition turns :: "nat rng_ops" where
  "turns = \<lparr>rg_random = (\<lambda>g. (if even g then flt_lit binary64 1 4 else flt_lit binary64 3 4, g + 1)),
     rg_randint = (\<lambda>lo hi g. (lo + g mod (hi - lo + 1), g + 1)), rg_shuffle = (\<lambda>xs g. (rev xs, g + 1))\<rparr>"

interpretation turns: python_rng turns
proof
  fix lo hi g n g' :: nat
  assume "lo \<le> hi" and draw: "rg_randint turns lo hi g = (n, g')"
  moreover have "n = lo + g mod (hi - lo + 1)" using draw by (simp add: turns_def)
  moreover have "g mod (hi - lo + 1) \<le> hi - lo" by (metis Suc_eq_plus1 less_Suc_eq_le mod_less_divisor zero_less_Suc)
  ultimately show "lo \<le> n \<and> n \<le> hi" by linarith
qed (auto simp: turns_def)

definition ex_pow :: "nat \<Rightarrow> flt \<Rightarrow> flt" where "ex_pow k x = flt_lit binary64 1 1"

definition ex_sum :: "flt list \<Rightarrow> flt" where "ex_sum xs = flt_of_int binary64 (int (length xs))"

lemma ex_cdf: "build_zipf_cdf ex_pow ex_sum 2 ZIPF_ALPHA = [Num 1 (- 1), Num 1 0]"
  by code_simp

lemma turns_sample:
  "sample_zipf turns [Num 1 (- 1), Num 1 0] g = (if even g then 1 else 2, g + 1)"
proof -
  have "bisect_left [Num 1 (- 1), Num 1 0] (flt_lit binary64 1 4) = 0" "bisect_left [Num 1 (- 1), Num 1 0] (flt_lit binary64 3 4) = 1"
    by code_simp+
  then show ?thesis by (simp add: sample_zipf_def turns_def)
qed

lemma turns_fair: "fair turns [Num 1 (- 1), Num 1 0]"
proof -
  have "\<exists>k. fst (sample_zipf turns [Num 1 (- 1), Num 1 0] (((snd \<circ> sample_zipf turns [Num 1 (- 1), Num 1 0]) ^^ k) g)) = s"
    if "s = 1 \<or> s = 2" for s g
    using that by (cases "even g \<longleftrightarrow> s = 1") (auto simp: turns_sample intro: exI [of _ 0] exI [of _ 1])
  then show ?thesis unfolding fair_def by (auto simp: le_Suc_eq numeral_2_eq_2)
qed

theorem seeded_users_read_back_witness:
  "\<exists>out. seed_redis_main turns ex_pow ex_sum \<lparr>sa_users = 3, sa_segments = 2, sa_ttl = TTL_SECONDS, sa_plain = False\<rparr> 0 = Some (Inr (0, out)) \<and>
     (\<exists>ids. decode_segments (segment_key (nat_str 3)) (resp_run (concat out) Map.empty (user_key 3)) = Inr (map word_of_nat ids) \<and> user_ok 2 ids)"
  using seeded_users_read_back [OF turns.python_rng_axioms resp.resp_server_axioms,
      where a = "\<lparr>sa_users = 3, sa_segments = 2, sa_ttl = TTL_SECONDS, sa_plain = False\<rparr>" and pow = ex_pow and fsum = ex_sum and g = 0
        and s = Map.empty] turns_fair
  by (fastforce simp: ex_cdf)

end
