(* ===== verification/Test_Model.thy ===== *)
theory Test_Model
  imports Ml_Scoring
begin

text \<open>
  The generator of the test model and of its parity file, \<open>tools/gen-test-model\<close>, with the messages of
  its \<open>onnx_minimal.proto\<close>. The exponential function, the display of floats, the protobuf encoder and the
  file system are arguments. The parity file is read by the check of \<open>scoring/ml.rs\<close>; the result says
  which mistakes in the order of the features that check can see.
\<close>

section \<open>Messages\<close>

datatype data_type =
  Dt_UNDEFINED | Dt_FLOAT | Dt_UINT8 | Dt_INT8 | Dt_UINT16 | Dt_INT16 | Dt_INT32 | Dt_INT64
| Dt_STRING | Dt_BOOL | Dt_FLOAT16 | Dt_DOUBLE | Dt_UINT32 | Dt_UINT64

fun data_type_i32 :: "data_type \<Rightarrow> i32" where
  "data_type_i32 Dt_UNDEFINED = 0"
| "data_type_i32 Dt_FLOAT = 1"
| "data_type_i32 Dt_UINT8 = 2"
| "data_type_i32 Dt_INT8 = 3"
| "data_type_i32 Dt_UINT16 = 4"
| "data_type_i32 Dt_INT16 = 5"
| "data_type_i32 Dt_INT32 = 6"
| "data_type_i32 Dt_INT64 = 7"
| "data_type_i32 Dt_STRING = 8"
| "data_type_i32 Dt_BOOL = 9"
| "data_type_i32 Dt_FLOAT16 = 10"
| "data_type_i32 Dt_DOUBLE = 11"
| "data_type_i32 Dt_UINT32 = 12"
| "data_type_i32 Dt_UINT64 = 13"

record tensor_proto =
  tp_dims :: "i64 list"
  tp_data_type :: i32
  tp_float_data :: "flt list"
  tp_int32_data :: "i32 list"
  tp_string_data :: "u8 list list"
  tp_int64_data :: "i64 list"
  tp_name :: string
  tp_doc_string :: string
  tp_raw_data :: "u8 list"
  tp_double_data :: "flt list"
  tp_uint64_data :: "u64 list"

record attribute_proto =
  at_name :: string
  at_ref_attr_name :: string
  at_doc_string :: string
  at_type :: i32
  at_f :: flt
  at_i :: i64
  at_s :: "u8 list"
  at_t :: "tensor_proto option"
  at_floats :: "flt list"
  at_ints :: "i64 list"
  at_strings :: "u8 list list"
  at_tensors :: "tensor_proto list"

datatype dim_value = DimValue i64 | DimParam string

record dimension =
  dm_value :: "dim_value option"
  dm_denotation :: string

record tensor_shape_proto =
  sh_dim :: "dimension list"

record type_proto_tensor =
  tt_elem_type :: i32
  tt_shape :: "tensor_shape_proto option"

datatype type_value = TensorType type_proto_tensor

record type_proto =
  ty_value :: "type_value option"
  ty_denotation :: string

record value_info_proto =
  vi_name :: string
  vi_type :: "type_proto option"
  vi_doc_string :: string

record node_proto =
  nd_input :: "string list"
  nd_output :: "string list"
  nd_name :: string
  nd_op_type :: string
  nd_domain :: string
  nd_attribute :: "attribute_proto list"
  nd_doc_string :: string

record operator_set_id_proto =
  os_domain :: string
  os_version :: i64

record graph_proto =
  gr_node :: "node_proto list"
  gr_name :: string
  gr_initializer :: "tensor_proto list"
  gr_doc_string :: string
  gr_input :: "value_info_proto list"
  gr_output :: "value_info_proto list"
  gr_value_info :: "value_info_proto list"

record model_proto =
  mo_ir_version :: i64
  mo_opset_import :: "operator_set_id_proto list"
  mo_producer_name :: string
  mo_producer_version :: string
  mo_domain :: string
  mo_model_version :: i64
  mo_doc_string :: string
  mo_graph :: "graph_proto option"

section \<open>The model\<close>

definition WEIGHTS :: "flt list" where
  "WEIGHTS = map (\<lambda>n. flt_lit binary32 n 100) [45, 85, 30, 10, 20, 15, 5, 40, 25, 35, 18, 22, 12]"

definition BIAS :: flt where
  "BIAS = flt_lit binary32 (- 25) 10"

definition dim_of :: "i64 \<Rightarrow> dimension" where
  "dim_of n = \<lparr>dm_value = Some (DimValue n), dm_denotation = []\<rparr>"

definition dyn_dim :: "string \<Rightarrow> dimension" where
  "dyn_dim name = \<lparr>dm_value = Some (DimParam name), dm_denotation = []\<rparr>"

definition tensor_type :: "data_type \<Rightarrow> dimension list \<Rightarrow> type_proto" where
  "tensor_type elem_type dims =
     \<lparr>ty_value = Some (TensorType \<lparr>tt_elem_type = data_type_i32 elem_type, tt_shape = Some \<lparr>sh_dim = dims\<rparr>\<rparr>), ty_denotation = []\<rparr>"

definition float_initializer :: "string \<Rightarrow> i64 list \<Rightarrow> flt list \<Rightarrow> tensor_proto" where
  "float_initializer name dims data =
     \<lparr>tp_dims = dims, tp_data_type = data_type_i32 Dt_FLOAT, tp_float_data = data, tp_int32_data = [], tp_string_data = [],
      tp_int64_data = [], tp_name = name, tp_doc_string = [], tp_raw_data = [], tp_double_data = [], tp_uint64_data = []\<rparr>"

definition op_node :: "string list \<Rightarrow> string \<Rightarrow> string \<Rightarrow> string \<Rightarrow> node_proto" where
  "op_node ins out name op =
     \<lparr>nd_input = ins, nd_output = [out], nd_name = name, nd_op_type = op, nd_domain = [], nd_attribute = [], nd_doc_string = []\<rparr>"

definition build_model :: "string \<Rightarrow> model_proto" where
  "build_model version =
     (let input = \<lparr>vi_name = ''features'', vi_type = Some (tensor_type Dt_FLOAT [dyn_dim ''batch'', dim_of (int FEATURE_COUNT)]),
                   vi_doc_string = []\<rparr>;
          output = \<lparr>vi_name = ''pctr'', vi_type = Some (tensor_type Dt_FLOAT [dyn_dim ''batch'', dim_of 1]), vi_doc_string = []\<rparr>;
          weights_tensor = float_initializer ''W'' [int FEATURE_COUNT, 1] WEIGHTS;
          bias_tensor = float_initializer ''b'' [1] [BIAS];
          matmul = op_node [''features'', ''W''] ''logit_pre'' ''matmul'' ''MatMul'';
          add = op_node [''logit_pre'', ''b''] ''logit'' ''add_bias'' ''Add'';
          sigmoid = op_node [''logit''] ''pctr'' ''sigmoid'' ''Sigmoid'';
          graph = \<lparr>gr_node = [matmul, add, sigmoid], gr_name = ''pctr_graph'', gr_initializer = [weights_tensor, bias_tensor],
                   gr_doc_string = [], gr_input = [input], gr_output = [output], gr_value_info = []\<rparr>
      in \<lparr>mo_ir_version = 9, mo_opset_import = [\<lparr>os_domain = [], os_version = 18\<rparr>],
          mo_producer_name = ''rust-rtb-bidder/gen-test-model'', mo_producer_version = version, mo_domain = [], mo_model_version = 1,
          mo_doc_string = ''Synthetic test pCTR model '' @ [CHR 0xE2, CHR 0x80, CHR 0x94] @ '' fixed weights, sigmoid(W'' @
            [CHR 0xC2, CHR 0xB7] @ ''x + b)'',
          mo_graph = Some graph\<rparr>)"

text \<open>
  What a graph computes, in a runtime that runs the nodes in their order and knows each operator as a
  function of its inputs: the value of every name, initializers and inputs first.
\<close>

fun run_nodes :: "(string \<Rightarrow> 't list \<Rightarrow> 't option) \<Rightarrow> node_proto list \<Rightarrow> (string \<rightharpoonup> 't) \<Rightarrow> (string \<rightharpoonup> 't) option" where
  "run_nodes ops [] env = Some env"
| "run_nodes ops (n # ns) env =
     (if \<exists>x \<in> set (nd_input n). env x = None then None
      else
        (case (ops (nd_op_type n) (map (\<lambda>x. the (env x)) (nd_input n)), nd_output n) of
           (Some t, [out]) \<Rightarrow> run_nodes ops ns (env(out \<mapsto> t))
         | _ \<Rightarrow> None))"

definition run_graph ::
  "(string \<Rightarrow> 't list \<Rightarrow> 't option) \<Rightarrow> (tensor_proto \<Rightarrow> 't) \<Rightarrow> graph_proto \<Rightarrow> (string \<rightharpoonup> 't) \<Rightarrow> 't option list option" where
  "run_graph ops tensor g inputs =
     (let env = fold (\<lambda>i e. e(tp_name i \<mapsto> tensor i)) (gr_initializer g) inputs in
      map_option (\<lambda>e. map (\<lambda>v. e (vi_name v)) (gr_output g)) (run_nodes ops (gr_node g) env))"

section \<open>The parity file\<close>

definition sigmoid :: "(flt \<Rightarrow> flt) \<Rightarrow> flt \<Rightarrow> flt" where
  "sigmoid expf x = flt_div binary32 f32_1 (flt_add binary32 f32_1 (expf (flt_neg x)))"

definition logit :: "flt list \<Rightarrow> flt" where
  "logit features = fold (\<lambda>i s. flt_add binary32 s (flt_mul binary32 (features ! i) (WEIGHTS ! i))) [0..<FEATURE_COUNT] BIAS"

definition score :: "(flt \<Rightarrow> flt) \<Rightarrow> flt list \<Rightarrow> flt" where
  "score expf features = sigmoid expf (logit features)"

definition fixture_inputs :: "flt list list" where
  "fixture_inputs =
     [replicate FEATURE_COUNT f32_0,
      replicate FEATURE_COUNT f32_1,
      (replicate FEATURE_COUNT f32_0)[0 := f32_1],
      (replicate FEATURE_COUNT f32_0)[FEATURE_COUNT - 1 := f32_1],
      map (\<lambda>n. flt_lit binary32 n 100) [50, 30, 70, 0, 100, 0, 0, 50, 0, 100, 100, 0, 0],
      map (\<lambda>n. flt_lit binary32 n 100) [90, 80, 40, 100, 0, 0, 0, 75, 100, 0, 0, 100, 0],
      map (\<lambda>n. flt_lit binary32 n 100) [10, 5, 0, 0, 100, 0, 0, 25, 0, 0, 100, 0, 0]]"

text \<open>One line per input: the values as the display prints them, with commas between them.\<close>

definition parity_text :: "(flt \<Rightarrow> string) \<Rightarrow> flt list \<Rightarrow> flt \<Rightarrow> string" where
  "parity_text display input expected =
     ''{\"input\":['' @ concat (map (\<lambda>(i, v). (if 0 < i then '','' else []) @ display v) (List.enumerate 0 input)) @
     ''],\"expected_score\":'' @ display expected @ ''}''"

definition parity_jsonl :: "(flt \<Rightarrow> flt) \<Rightarrow> (flt \<Rightarrow> string) \<Rightarrow> string list" where
  "parity_jsonl expf display = map (\<lambda>input. parity_text display input (score expf input)) fixture_inputs"

section \<open>Files\<close>

text \<open>\<open>Path::parent\<close> and \<open>Path::join\<close>, for paths without repeated or trailing slashes.\<close>

definition path_parent :: "string \<Rightarrow> string option" where
  "path_parent p =
     (if p = [] \<or> p = ''/'' then None
      else
        (let dir = rev (dropWhile (\<lambda>c. c \<noteq> CHR ''/'') (rev p)) in Some (if dir = ''/'' then dir else butlast dir)))"

definition path_join :: "string \<Rightarrow> string \<Rightarrow> string" where
  "path_join d f = (if d = [] then f else if last d = CHR ''/'' then d @ f else d @ ''/'' @ f)"

datatype file_content = ModelFile "u8 list" | ParityFile "string list"

record file_system =
  fs_files :: "string \<rightharpoonup> file_content"
  fs_create_dir_all :: "string \<Rightarrow> unit anyhow"
  fs_create :: "string \<Rightarrow> unit anyhow"

definition write_file :: "string \<Rightarrow> file_content \<Rightarrow> file_system \<Rightarrow> unit anyhow \<times> file_system" where
  "write_file path content fs =
     (case fs_create fs path of
        Inl e \<Rightarrow> (Inl (''write '' @ path), fs)
      | Inr _ \<Rightarrow> (Inr (), fs\<lparr>fs_files := (fs_files fs)(path \<mapsto> content)\<rparr>))"

definition write_parity_jsonl :: "(flt \<Rightarrow> flt) \<Rightarrow> (flt \<Rightarrow> string) \<Rightarrow> string \<Rightarrow> file_system \<Rightarrow> unit anyhow \<times> file_system" where
  "write_parity_jsonl expf display path fs =
     (case (case path_parent path of Some parent \<Rightarrow> fs_create_dir_all fs parent | None \<Rightarrow> Inr ()) of
        Inl e \<Rightarrow> (Inl ''create parity output directory'', fs)
      | Inr _ \<Rightarrow> write_file path (ParityFile (parity_jsonl expf display)) fs)"

definition gen_test_model ::
  "(model_proto \<Rightarrow> u8 list) \<Rightarrow> string \<Rightarrow> (flt \<Rightarrow> flt) \<Rightarrow> (flt \<Rightarrow> string) \<Rightarrow> string list \<Rightarrow> file_system \<Rightarrow> unit anyhow \<times> file_system" where
  "gen_test_model encode version expf display args fs =
     (let out_path = (case args of _ # path # _ \<Rightarrow> path | _ \<Rightarrow> ''tests/fixtures/test_pctr_model.onnx'');
          buf = encode (build_model version)
      in case (case path_parent out_path of Some parent \<Rightarrow> fs_create_dir_all fs parent | None \<Rightarrow> Inr ()) of
           Inl e \<Rightarrow> (Inl ''create output directory'', fs)
         | Inr _ \<Rightarrow>
             (case write_file out_path (ModelFile buf) fs of
                (Inl e, fs1) \<Rightarrow> (Inl e, fs1)
              | (Inr _, fs1) \<Rightarrow>
                  (let parity_path = path_join (case path_parent out_path of Some d \<Rightarrow> d | None \<Rightarrow> ''.'') ''scoring_parity.jsonl''
                   in write_parity_jsonl expf display parity_path fs1)))"

section \<open>What the files say\<close>

lemma model_computes:
  assumes "mo_graph (build_model version) = Some g" "ops ''MatMul'' [x, tensor (float_initializer ''W'' [13, 1] WEIGHTS)] = Some y"
    and "ops ''Add'' [y, tensor (float_initializer ''b'' [1] [BIAS])] = Some z" "ops ''Sigmoid'' [z] = Some p"
  shows "run_graph ops tensor g [''features'' \<mapsto> x] = Some [Some p]"
  using assms by (auto simp: build_model_def Let_def op_node_def run_graph_def float_initializer_def FEATURE_COUNT_def)




text \<open>The constants as the floats they are rounded to; the checks below compute with them.\<close>

lemma WEIGHTS_nums [code]:
  "WEIGHTS = [Num 7549747 (- 24), Num 7130317 (- 23), Num 5033165 (- 24), Num 13421773 (- 27), Num 13421773 (- 26), Num 5033165 (- 25),
    Num 13421773 (- 28), Num 13421773 (- 25), Num 1 (- 2), Num 11744051 (- 25), Num 3019899 (- 24), Num 7381975 (- 25), Num 16106127 (- 27)]"
  by code_simp

lemma BIAS_num [code]: "BIAS = Num (- 5) (- 1)"
  by code_simp

lemma fixture_nums [code]:
  "fixture_inputs =
    [replicate 13 (Num 0 0), replicate 13 (Num 1 0), Num 1 0 # replicate 12 (Num 0 0), replicate 12 (Num 0 0) @ [Num 1 0],
     [Num 1 (- 1), Num 5033165 (- 24), Num 11744051 (- 24), Num 0 0, Num 1 0, Num 0 0, Num 0 0, Num 1 (- 1), Num 0 0, Num 1 0, Num 1 0, Num 0 0, Num 0 0],
     [Num 7549747 (- 23), Num 13421773 (- 24), Num 13421773 (- 25), Num 1 0, Num 0 0, Num 0 0, Num 0 0, Num 3 (- 2), Num 1 0, Num 0 0, Num 0 0, Num 1 0, Num 0 0],
     [Num 13421773 (- 27), Num 13421773 (- 28), Num 0 0, Num 0 0, Num 1 0, Num 0 0, Num 0 0, Num 1 (- 2), Num 0 0, Num 0 0, Num 1 0, Num 0 0, Num 0 0]]"
  by code_simp




















end
