(* ===== verification/Spec2Isabelle.thy ===== *)
theory Spec2Isabelle
  imports Auction_Interleaving Bidder_System Model_Watch Seed_Redis Test_Model
begin

text \<open>
  A verification of the bidder of a real-time bidding platform: the library \<open>bidder-core\<close> and the
  server \<open>bidder-server\<close>.

  \<^bold>\<open>The program.\<close> An exchange posts a bid request. The handler decodes it, runs a pipeline of nine
  stages under a deadline and answers with bids or with no content. The stages look up the user's
  segments, retrieve the matching campaigns from an in-memory catalog, keep the dearest of them, score
  them, drop those the user has seen too often, reserve budget, pick one winner per impression and
  build the response. Around it run a loader that rebuilds the catalog from Postgres, a circuit breaker
  and hedged reads in front of Redis, writers of impression counters, the win-notice endpoint and an
  event publisher with a monitor of its drop rate.

  \<^bold>\<open>Conventions.\<close> Structs are records whose fields carry a prefix, enums are datatypes. Identifiers are
  words of their width; \<open>i32\<close>, \<open>i64\<close> are integers and \<open>u64\<close>, \<open>usize\<close> naturals, with the wrap-around
  written out where the code can overflow. \<open>f32\<close> and \<open>f64\<close> are the type \<open>flt\<close> of \<open>Rust_Float\<close>, which
  computes IEEE rounding to nearest even exactly. Errors are left injections. Clock readings, query
  results and the latencies of remote calls are arguments. Code the repository only calls is a
  parameter, a record of operations with its laws in a locale: bitmaps (\<open>roaring\<close>), Redis counters
  (\<open>redis_counters\<close>) and \<open>SET NX\<close> (\<open>dedup_store\<close>), HMAC and hex (\<open>notice_crypto\<close>), the file poller
  (\<open>poll_watcher\<close>), Python's generator of random numbers (\<open>python_rng\<close>), ONNX sessions, the Kafka
  producer, the JSON codec, the logarithm.

  \<^bold>\<open>Theories.\<close>

  \<^item> \<open>Bidder_Prelude\<close>, \<open>Rust_Float\<close>, \<open>Float_Conversion\<close>: integers, hash maps, list functions of the
    standard library, floats, rounding errors and casts from floats to integers.
  \<^item> \<open>OpenRTB_Model\<close>: the data of \<open>model/openrtb.rs\<close> and \<open>model/candidate.rs\<close>. \<open>Clock\<close>: \<open>clock.rs\<close>.
    \<open>Bidder_Config\<close>: \<open>config/mod.rs\<close>.
  \<^item> \<open>Catalog\<close>, \<open>Catalog_Loader\<close>: \<open>catalog/*.rs\<close>, \<open>targeting/mod.rs\<close>. The queries run on a database
    value, \<open>build\<close> makes a snapshot, \<open>refresh_loop\<close> publishes snapshots. The main results: retrieval on a
    built catalog returns exactly the active campaigns whose targeting rows match; built catalogs are
    consistent; through an outage of the database retrieval goes on as in the last good snapshot.
  \<^item> \<open>Budget_Pacing\<close>: \<open>pacing/*.rs\<close>. The interface is the locale \<open>budget_pacer\<close>. The atomic accesses of
    the local pacer are steps of the relation \<open>pacer_step\<close>; in every interleaving the counters balance
    and a budget is exceeded by at most one bid.
  \<^item> \<open>Circuit_Breaker\<close>, \<open>Hedging\<close>: \<open>breaker/mod.rs\<close>, \<open>hedge.rs\<close>, \<open>hedge_feedback.rs\<close>: when the breaker
    opens and recovers, that it admits one probe, what a hedged call returns, and that load shedding
    takes hedge tokens away for good.
  \<^item> \<open>Frequency_Capping\<close>: \<open>frequency/*.rs\<close>, \<open>freq_cap.rs\<close> of the server: counters and verdicts of the
    Redis capper, the in-process capper as a cache in front of it, whose entries live for an hour.
  \<^item> \<open>Segment_Repository\<close>: \<open>segment_repo.rs\<close>, \<open>cache/mod.rs\<close>.
  \<^item> \<open>Bid_Context\<close>: \<open>model/context.rs\<close>, \<open>pipeline/mod.rs\<close>. The locale \<open>pipeline_phases\<close> states what holds
    before each stage; \<open>run_ends\<close> lists the ways a run can end.
  \<^item> \<open>Request_Stages\<close>, \<open>Binary_Heap\<close>, \<open>Candidate_Limit\<close>, \<open>Auction_Stages\<close>: the stages of
    \<open>pipeline/stages\<close>. The candidate limit uses the standard library's binary heap, whose push and pop
    are modelled on the array.
  \<^item> \<open>Scoring\<close>, \<open>Ml_Scoring\<close>, \<open>Scorer_Tree\<close>: \<open>scoring/*.rs\<close> and the scorer construction of \<open>main.rs\<close>. The
    interface is the locale \<open>scorer\<close>; cascade and A/B test are proved to keep it for any two scorers.
  \<^item> \<open>Bid_Pipeline\<close>: \<open>response_build.rs\<close>, \<open>notice.rs\<close> and the pipeline \<open>main.rs\<close> assembles. The locale
    \<open>wired\<close> joins the contracts of bitmaps, scorer and pacer and is a sublocale of \<open>pipeline_phases\<close>;
    from it follow the properties of whole runs: soundness of bids, a decision on every path, and
    budgets that change by what was won.
  \<^item> \<open>Win_Notice\<close>: \<open>win_notice.rs\<close>: authentication, at most one accepted notice, the notice URL.
  \<^item> \<open>Kafka_Events\<close>: \<open>kafka_incident.rs\<close>, \<open>kafka.rs\<close>, \<open>events.rs\<close>.
  \<^item> \<open>Exchange_Adapters\<close>: \<open>exchange/*.rs\<close> with the messages of \<open>adx.proto\<close>: the generic adapter and the
    AdX adapter.
  \<^item> \<open>Server_Handlers\<close>: \<open>server/handlers.rs\<close>, the middleware of \<open>server/routes.rs\<close>, \<open>health.rs\<close>: which
    answer a request gets and which events are published, and an AdX bid from bytes to bytes.
  \<^item> \<open>Auction_Interleaving\<close>: the pacing and ranking stages of concurrent requests as programs that make
    one pacer call at a time, interleaved by \<open>bidder_step\<close>, with requests dropped by the HTTP timeout.
    The result is an account of what every budget has lost.
  \<^item> \<open>Budget_Refresh\<close>: what the refresh loop does to the budgets over its rounds.
  \<^item> \<open>Server_Warmup\<close>: \<open>server/warmup.rs\<close>: what the warm-up puts into the segment cache, when the server
    becomes ready and what its self-test exercises.
  \<^item> \<open>Server_Assembly\<close>: the settings, services and pipeline of \<open>main.rs\<close>, the state of
    \<open>server/state.rs\<close>, the routes and the metrics layer. Over any sequence of requests every request is
    answered and counted.
  \<^item> \<open>Model_Watch\<close>: the file watcher of \<open>scoring/ml.rs\<close>, interleaved with changes of the model file and
    looks of the poller: once it is at rest the pool has the model in the file.
  \<^item> \<open>Bidder_System\<close>: the running bidder: requests, refresh rounds, model reloads, the write-behind drain
    and the impression workers of \<open>freq_cap.rs\<close> in any order. Requests are always answered, and every
    impression is accounted for from the win notice to the counters in Redis.
  \<^item> \<open>Test_Model\<close>: \<open>tools/gen-test-model\<close>: the generated model and parity file, and what the parity check of
    the bidder can see of the order of the features.
  \<^item> \<open>Seed_Redis\<close>: \<open>docker/seed-redis.py\<close>: what it writes for a user is what the bidder reads back.
  \<^item> This theory: a bid traced from the response back to the rows of the database.

  \<^bold>\<open>Loops and bounds.\<close> All functions are total but two: the batch loop of the model scorer, a
  partial function that is proved to return exactly if the batch size is positive, and the loop of the
  seed script that draws segments, which is proved to return if every segment keeps coming up.
  Compare-and-swap loops run over a list of interfering values. The incident theorem bounds its counters by \<open>2 ^ 53\<close>, up to which conversion to
  \<open>f64\<close> is exact; the deduplication theorem bounds the period by \<open>2 ^ 63\<close> seconds, up to which the cast to
  \<open>i64\<close> keeps it; the theorem on the server bounds the number of requests by \<open>2 ^ 64\<close>, where the
  counters of the load-shed tracker wrap around.

  \<^bold>\<open>Shared parts.\<close> \<open>main.rs\<close> gives the segment repository and the capper one breaker and one hedge
  budget. The models of the two have each their own copy in their state; the results on whole runs hold
  for any segment source and any capper, so they do not depend on it. A request dropped by the HTTP
  timeout may leave the services in any state that its stages could have reached; the theorem on the
  server takes that state as an argument, and \<open>Auction_Interleaving\<close> says what it means for the budgets.

  \<^bold>\<open>Not modelled.\<close> Connecting to services, sockets, the async runtime and shutdown, which are I/O;
  tracing, durations in metrics and logging, which no result depends on; the codecs generated from the
  proto files and the events nothing publishes; the error enum of \<open>error.rs\<close>, which nothing uses;
  benchmarks, the load test \<open>k6/golden.js\<close>, the shell tools and \<open>docker/seed-postgres.py\<close>. Which entry
  moka evicts when a cache is full is its own choice: in the models of the two caches an eviction is an
  operation (\<open>evict\<close>, \<open>segment_cache_evict\<close>) that can come at any time, and the capacity is not
  enforced. In \<open>Bidder_System\<close> keys in Redis do not expire, and the clock is not part of the state.
\<close>

section \<open>From the tables to the exchange\<close>

text \<open>A bid and the database rows it is made of.\<close>

definition bid_from_rows :: "db \<Rightarrow> u64 \<Rightarrow> 'b bid_context \<Rightarrow> bid \<Rightarrow> imp \<Rightarrow> campaign_row \<Rightarrow> creative_row \<Rightarrow> bool" where
  "bid_from_rows DB loaded ctx b i row cr \<longleftrightarrow>
     bid_impid b = imp_id i \<and>
     (''active'', row) \<in> set (db_campaign DB) \<and> targets DB loaded (imp_request ctx i) (crow_id row) \<and>
     bid_cid b = Some (u32_str (as_u32 (crow_id row))) \<and> bid_price b = usd_of_cents (crow_bid_floor_cents row) \<and>
     cr \<in> set (db_creative DB) \<and> crea_row_campaign_id cr = crow_id row \<and>
     bid_crid b = Some (u32_str (as_u32 (crea_row_id cr))) \<and>
     (\<exists>f. parse_ad_format (crea_row_ad_format cr) = Some f \<and> imp_ad_format i \<in> {None, Some f})"

lemma ended_bid_from_rows:
  fixes D :: "('b, 'r, models, 'f, local_pacer) wiring"
  assumes wiring: "roaring (wi_bitmaps D) bits" "build_scorer_root env cfg ms = (Inr (wi_scorer D), ms')" "wi_pacer D = LocalBudgetPacer"
    and catalog: "db_ok DB" "build (wi_bitmaps D) first_err loaded (reads_of DB) = Inr (sv_catalog w, reg)"
    and ended: "phase D bits (\<lambda>s. s) balances_ok req w 9 ctx w'"
    and bid: "sb \<in> set (resp_seatbid (winners_response (wi_notice_urls D) (wi_exchange_id D) req (ctx_winners ctx)))" "b \<in> set (sb_bid sb)"
  shows "\<exists>i \<in> set (req_imp req). \<exists>row cr. bid_from_rows DB loaded ctx b i row cr"
proof -
  obtain i c campaign creative where i: "i < length (req_imp req)" "bid_impid b = imp_id (req_imp req ! i)"
    and c: "campaign_of (sv_catalog w) c = Some campaign" "matches bits (sv_catalog w) (imp_request ctx (req_imp req ! i)) c"
    and cr: "creative \<in> set (creatives_for (sv_catalog w) c)" "servable (imp_ad_format (req_imp req ! i)) creative"
    and b: "bid_cid b = Some (u32_str c)" "bid_crid b = Some (u32_str (crea_id creative))"
      "bid_price b = usd_of_cents (camp_bid_floor_cents campaign)"
    using ended_bid [OF server_wired [OF wiring] ended bid] by blast
  obtain row where row: "(''active'', row) \<in> set (db_campaign DB)" "as_u32 (crow_id row) = c" "campaign = campaign_of_row row"
    using roaring.built_campaign [OF wiring(1) catalog(2) c(1)] by blast
  obtain r where r: "r \<in> set (db_creative DB)" "active DB (crea_row_campaign_id r)" "as_u32 (crea_row_campaign_id r) = c"
      "parse_ad_format (crea_row_ad_format r) = Some (crea_ad_format creative)" "crea_id creative = as_u32 (crea_row_id r)"
    using roaring.built_creative [OF wiring(1) catalog(2) cr(1)] by blast
  have active: "active DB (crow_id row)" using row(1) by (auto simp: active_def)
  have "crea_row_campaign_id r = crow_id row"
    using active_id [OF catalog(1)] active r(2,3) row(2) as_u32_inj_id by metis
  moreover have "targets DB loaded (imp_request ctx (req_imp req ! i)) (crow_id row)"
    using roaring.build_targets [OF wiring(1) catalog active] c(2) row(2) by blast
  ultimately have "bid_from_rows DB loaded ctx b (req_imp req ! i) row r"
    using i b row r cr(2) by (auto simp: bid_from_rows_def campaign_of_row_def servable_def split: option.splits)
  then show ?thesis using i(1) nth_mem by blast
qed

text \<open>
  C1. From the tables to the exchange. When a server whose catalog was built from a database snapshot
  answers a request with status 200, the body is the exchange's encoding of the response the
  pipeline made for the decoded request, and every bid of the response comes from rows of that snapshot: it is for an impression of
  the request, its campaign is an active campaign whose targeting tables match the impression and the
  segments of the user, the price is the floor of the campaign's row, and the creative is one of the
  same campaign in a format the impression takes. The bitmaps are any with the laws of roaring bitmaps,
  the exchange, segment store, frequency capper, publisher and clock any whatever.
\<close>

theorem bid_traces_to_database:
  fixes D :: "('b, 'r, models, 'f, local_pacer) wiring"
  assumes wiring: "roaring (wi_bitmaps D) bits" "build_scorer_root env cfg ms = (Inr (wi_scorer D), ms')" "wi_pacer D = LocalBudgetPacer"
    and catalog: "db_ok DB" "build (wi_bitmaps D) first_err loaded (reads_of DB) = Inr (sv_catalog w, reg)"
    and pacer: "balances_ok (sv_pacer w)"
    and run: "bid_handler A (bidder_pipeline budget D) E topic now t ts body (w, q) = (Some answer, w', q')" "hr_status answer = 200"
  shows "\<exists>req ctx resp. ad_decode_request A body = Inr req \<and>
    pipeline_execute now (bidder_pipeline budget D) (bid_context_new req t) w = (Inr (), ctx, w') \<and>
    ctx_bid_response ctx = Some resp \<and> ad_encode_response A resp = Inr (hr_body answer, the (hr_content_type answer)) \<and>
    (\<forall>sb \<in> set (resp_seatbid resp). \<forall>b \<in> set (sb_bid sb). \<exists>i \<in> set (req_imp req). \<exists>row cr. bid_from_rows DB loaded ctx b i row cr)"
proof -
  obtain req where req: "ad_decode_request A body = Inr req"
    using run by (cases "ad_decode_request A body") (auto simp: bid_handler_def status_response_def)
  note wf = roaring.build_wf [OF wiring(1) catalog]
  show ?thesis
  proof (rule bid_handler_run [OF wiring wf pacer run(1) req])
    fix ctx' reason assume "Some answer = Some (status_response 204)"
    then show ?thesis using run(2) by (simp add: status_response_def)
  next
    fix ctx br
    assume exec: "pipeline_execute now (bidder_pipeline budget D) (bid_context_new req t) w = (Inr (), ctx, w')"
      and ended: "phase D bits (\<lambda>s. s) balances_ok req w 9 ctx w'"
      and resp: "ctx_bid_response ctx = Some br"
      and br: "br = winners_response (wi_notice_urls D) (wi_exchange_id D) req (ctx_winners ctx)"
      and enc: "case ad_encode_response A br of
         Inl e \<Rightarrow> Some answer = Some (status_response 500) \<and> q' = q
       | Inr (b, ct) \<Rightarrow> Some answer = Some \<lparr>hr_status = 200, hr_content_type = Some ct, hr_body = b\<rparr> \<and>
           q' = publish_winners E topic req ts (ctx_winners ctx) q"
    have "ad_encode_response A br = Inr (hr_body answer, the (hr_content_type answer))"
      using enc run(2) by (auto simp: status_response_def split: sum.splits)
    moreover have "\<exists>i \<in> set (req_imp req). \<exists>row cr. bid_from_rows DB loaded ctx b i row cr"
      if "sb \<in> set (resp_seatbid br)" "b \<in> set (sb_bid sb)" for sb b
      using ended_bid_from_rows [OF wiring catalog ended] that br by blast
    ultimately show ?thesis using req exec resp by blast
  qed
qed

text \<open>The tables the catalog of the example run is built from.\<close>

definition ex_tables :: db where
  "ex_tables = \<lparr>db_campaign = map (\<lambda>(i, price). (''active'', \<lparr>crow_id = i, crow_advertiser_id = 1, crow_bid_floor_cents = price,
       crow_daily_budget_cents = 1000, crow_hourly_budget_cents = 100, crow_daily_cap_imps = 5, crow_hourly_cap_imps = 2\<rparr>)) [(1, 120), (2, 90)],
     db_creative = [\<lparr>crea_row_id = 11, crea_row_campaign_id = 1, crea_row_ad_format = ''BANNER'', crea_row_click_url = [],
       crea_row_image_url = None, crea_row_width = None, crea_row_height = None\<rparr>],
     db_segment = [], db_targeting_segment = [], db_targeting_geo = [], db_targeting_device = [], db_targeting_format = [],
     db_daypart = []\<rparr>"

lemma ex_tables_built: "db_ok ex_tables" "\<exists>reg. build set_bitmap hd 0 (reads_of ex_tables) = Inr (ex_catalog, reg)"
  subgoal by (simp add: db_ok_def ex_tables_def in_i32_def)
  subgoal
    by (simp add: build_def reads_of_def ex_tables_def query_campaigns_def query_creatives_def query_segments_def query_segment_index_def
      query_geo_index_def query_device_index_def query_format_index_def query_daypart_active_now_def join_active_def group_agg_def
      build_campaigns_def campaign_of_row_def build_creatives_def push_creative_def creative_of_row_def parse_ad_format_def
      build_segment_index_def build_geo_index_def build_device_index_def build_format_index_def
      ex_catalog_def new_for_test_def set_bitmap_def hm_insert_def hm_get_def as_u32_def Let_def
      Request_Stages.ex_campaign_def ex_creative_def insert_ids_def union_values_def insert_commute)
  done

theorem bid_traces_to_database_witness:
  "\<exists>answer w' q' ctx resp. bid_handler ex_adapter (bidder_pipeline ex_budget ex_wiring) log_publisher ''ads'' (\<lambda>_. 0) 0 5 [7] (ex_world, [])
     = (Some answer, w', q') \<and> hr_status answer = 200 \<and>
     pipeline_execute (\<lambda>_. 0) (bidder_pipeline ex_budget ex_wiring) (bid_context_new ex_req 0) ex_world = (Inr (), ctx, w') \<and>
     ctx_bid_response ctx = Some resp \<and>
     (\<forall>sb \<in> set (resp_seatbid resp). \<forall>b \<in> set (sb_bid sb). bid_cid b = Some (u32_str 1) \<and> bid_price b = usd_of_cents 120)"
proof -
  obtain reg where catalog: "build (wi_bitmaps ex_wiring) hd 0 (reads_of ex_tables) = Inr (sv_catalog ex_world, reg)"
    using ex_tables_built(2) by (auto simp: ex_wiring_simps ex_world_def)
  have decode: "ad_decode_request ex_adapter [7] = Inr ex_req" and encode: "ad_encode_response ex_adapter br = Inr ([1, 2, 3], ''application/json'')" for br
    by (simp_all add: ex_adapter_def openrtb_generic_adapter_def)
  obtain answer w' q' where handler:
    "bid_handler ex_adapter (bidder_pipeline ex_budget ex_wiring) log_publisher ''ads'' (\<lambda>_. 0) 0 5 [7] (ex_world, []) = (answer, w', q')"
    using prod_cases3 by blast
  obtain a where run: "bid_handler ex_adapter (bidder_pipeline ex_budget ex_wiring) log_publisher ''ads'' (\<lambda>_. 0) 0 5 [7] (ex_world, []) = (Some a, w', q')"
    and status: "hr_status a = 200"
    using ex_wiring_ok ex_world_ok handler decode
    by (cases rule: bid_handler_run) (use ex_run handler encode in auto)
  show ?thesis
    using bid_traces_to_database [OF ex_wiring_ok ex_tables_built(1) catalog ex_world_ok(2) run status] run status decode
    by (fastforce simp: bid_from_rows_def ex_tables_def as_u32_def)
qed

end
